(* ===== verification/Prelude.thy ===== *)
theory Prelude
  imports Main "HOL-Library.List_Lexorder" "HOL-Library.Char_ord"
begin

text \<open>
  What every component shares: the theorem collections, the list functions that stand for
  JavaScript array and string methods, the bounded buffer of \<open>ipc/server.js\<close> and
  \<open>api/events.js\<close> (\<open>push\<close> then \<open>shift\<close>), and the error values of the program.
  Strings are the UTF-8 bytes of the JavaScript strings (one \<open>char\<close> per byte).
\<close>

named_theorems row_simps \<open>selectors and updates of table rows\<close>
named_theorems db_defs \<open>definitions of database operations\<close>
named_theorems keeps \<open>preservation of an invariant\<close>

section \<open>Errors as values\<close>

text \<open>
  What a function of the program may throw: the two cycle errors of the policy store, the
  constraint classes of SQLite, a column that does not exist, a type error (reading a property
  of undefined), a JSON syntax error, the read-only error of the file rules, and the rejected
  promise of an unimplemented DAO method.
\<close>

datatype sql_error = NotNull | Check | Unique | ForeignKey | NoSuchColumn string

datatype js_error =
    CycleSelf
  | CycleLoop
  | Sqlite sql_error
  | TypeErr
  | SyntaxErr
  | ReadOnly
  | NotImpl string

section \<open>Lists\<close>

text \<open>\<open>arr.find(p) ?? null\<close> is the library's \<^const>\<open>find\<close>.\<close>

lemma find_SomeD: "find P xs = Some x \<Longrightarrow> P x \<and> x \<in> set xs"
  by (induction xs) (auto split: if_splits)

lemma find_NoneD: "find P xs = None \<Longrightarrow> x \<in> set xs \<Longrightarrow> \<not> P x"
  by (induction xs) (auto split: if_splits)

lemma find_append: "find P (xs @ ys) = (case find P xs of Some x \<Rightarrow> Some x | None \<Rightarrow> find P ys)"
  by (induction xs) auto

lemma find_first:
  "find P xs = Some x \<Longrightarrow> \<exists>ys zs. xs = ys @ x # zs \<and> (\<forall>y \<in> set ys. \<not> P y) \<and> P x"
proof (induction xs)
  case (Cons a xs)
  show ?case
  proof (cases "P a")
    case True
    with Cons.prems show ?thesis by (auto intro: exI [of _ "[]"])
  next
    case False
    with Cons.prems have "find P xs = Some x" by simp
    with Cons.IH obtain ys zs where "xs = ys @ x # zs" "\<forall>y \<in> set ys. \<not> P y" "P x" by blast
    with False have "a # xs = (a # ys) @ x # zs" "\<forall>y \<in> set (a # ys). \<not> P y" "P x" by auto
    then show ?thesis by blast
  qed
qed simp

lemma find_cong_mem: "(\<And>x. x \<in> set xs \<Longrightarrow> P x = Q x) \<Longrightarrow> find P xs = find Q xs"
  by (induction xs) auto

lemma find_unique_key:
  assumes "distinct (map k xs)" "x \<in> set xs"
  shows "find (\<lambda>y. k y = k x) xs = Some x"
  using assms by (induction xs) (auto simp: image_iff)

lemma find_map_inv:
  "(\<And>x. P (f x) = P x) \<Longrightarrow> find P (map f xs) = map_option f (find P xs)"
  by (induction xs) auto

lemma find_filter_weaken:
  "(\<And>x. P x \<Longrightarrow> Q x) \<Longrightarrow> find P (filter Q xs) = find P xs"
  by (induction xs) auto

lemma find_filter: "find P (filter Q xs) = find (\<lambda>x. Q x \<and> P x) xs"
  by (induction xs) auto

lemma sorted_key_append_find:
  assumes "sorted_wrt R xs" "find P xs = Some x" "y \<in> set xs" "P y" "reflp R"
  shows "R x y"
proof -
  from find_first [OF assms(2)] obtain ys zs
    where xs: "xs = ys @ x # zs" "\<forall>y \<in> set ys. \<not> P y" by blast
  with assms(3,4) have "y = x \<or> y \<in> set zs" by auto
  with assms(1,5) xs show ?thesis by (auto simp: sorted_wrt_append dest: reflpD)
qed

section \<open>Map lookups from association lists\<close>

lemma map_of_distinct_find:
  "map_of (map (\<lambda>r. (k r, v r)) xs) a = map_option v (find (\<lambda>r. k r = a) xs)"
  by (induction xs) auto

section \<open>The bounded replay buffer\<close>

text \<open>
  \<open>buffer.push(x); if (buffer.length > cap) buffer.shift();\<close>: the code of
  \<open>IPCServer.send\<close> and of \<open>EventBus.emit\<close>.
\<close>

definition push_shift :: "nat \<Rightarrow> 'a list \<Rightarrow> 'a \<Rightarrow> 'a list" where
  "push_shift cap buf x = (let b = buf @ [x] in if cap < length b then tl b else b)"

definition last_n :: "nat \<Rightarrow> 'a list \<Rightarrow> 'a list" where
  "last_n n xs = drop (length xs - n) xs"

lemma length_last_n: "length (last_n n xs) = min n (length xs)"
  by (auto simp: last_n_def)

lemma push_shift_bound: "length buf \<le> cap \<Longrightarrow> length (push_shift cap buf x) \<le> cap"
  by (auto simp: push_shift_def Let_def)

lemma push_shift_last_n: "push_shift cap (last_n cap xs) x = last_n cap (xs @ [x])"
proof (cases "cap < length xs + 1")
  case True
  have l: "length (last_n cap xs) = cap" using True by (simp add: length_last_n)
  have "length xs - cap + 1 = length (xs @ [x]) - cap" using True by simp
  then have "drop (length (xs @ [x]) - cap) (xs @ [x]) = tl (drop (length xs - cap) (xs @ [x]))"
    by (metis drop_Suc tl_drop Suc_eq_plus1)
  moreover have "drop (length xs - cap) (xs @ [x]) = last_n cap xs @ [x]"
    by (simp add: last_n_def)
  ultimately show ?thesis using l by (simp add: push_shift_def last_n_def)
next
  case False
  then show ?thesis by (simp add: push_shift_def last_n_def)
qed

text \<open>
  The interface its two users rely on: while the invariant \<open>inv\<close> of the owner holds, a sequence
  of pushes from the empty buffer keeps exactly the last \<open>cap\<close> elements, in order.
\<close>

locale replay_buffer =
  fixes cap :: nat
    and push :: "'b \<Rightarrow> 'a \<Rightarrow> 'b"
    and content :: "'b \<Rightarrow> 'a list"
    and inv :: "'b \<Rightarrow> bool"
  assumes content_push: "inv b \<Longrightarrow> content (push b x) = push_shift cap (content b) x"
    and inv_push: "inv b \<Longrightarrow> inv (push b x)"
begin

lemma content_pushes:
  "inv b \<Longrightarrow> content b = last_n cap ys \<Longrightarrow>
     inv (foldl push b xs) \<and> content (foldl push b xs) = last_n cap (ys @ xs)"
proof (induction xs arbitrary: b ys)
  case (Cons x xs)
  have "content (push b x) = last_n cap (ys @ [x])"
    using Cons.prems by (simp add: content_push push_shift_last_n)
  from Cons.IH [OF inv_push [OF Cons.prems(1)] this] show ?case by simp
qed simp

lemma content_pushes_empty:
  "inv b \<Longrightarrow> content b = [] \<Longrightarrow> content (foldl push b xs) = last_n cap xs"
  using content_pushes [of b "[]" xs] by (simp add: last_n_def)

lemma content_bounded:
  "inv b \<Longrightarrow> length (content b) \<le> cap \<Longrightarrow> length (content (foldl push b xs)) \<le> cap"
  by (induction xs arbitrary: b) (simp_all add: content_push inv_push push_shift_bound)

end

end
