(* ===== verification/Json.thy ===== *)
theory Json
  imports Prelude
begin

text \<open>
  JavaScript values as JSON data, \<open>JSON.stringify\<close> and \<open>JSON.parse\<close>, the part of the language's
  standard library on which the IPC protocol (\<open>ipc/protocol.js\<close>) and the JSON columns of the
  database rest. Bounds of the model: numbers are integers of the safe range (a fraction or an
  exponent makes the parser refuse), \<open>\u\<close> escapes of surrogates are refused (neither end of the
  socket writes them), white space is ASCII. An object is the list of its entries in order.
\<close>

section \<open>Values\<close>

datatype json =
    JNull
  | JBool bool
  | JNum int
  | JStr string
  | JArr "json list"
  | JObj "(string \<times> json) list"

text \<open>\<open>o[k]\<close> (None is undefined) and \<open>{...o, [k]: v}\<close>.\<close>

definition obj_get :: "(string \<times> json) list \<Rightarrow> string \<Rightarrow> json option" where
  "obj_get kvs k = map_of kvs k"

fun obj_put :: "(string \<times> 'v) list \<Rightarrow> string \<Rightarrow> 'v \<Rightarrow> (string \<times> 'v) list" where
  "obj_put [] k v = [(k, v)]"
| "obj_put ((k', v') # kvs) k v = (if k' = k then (k, v) # kvs else (k', v') # obj_put kvs k v)"

fun json_wf :: "json \<Rightarrow> bool" where
  "json_wf (JArr vs) = list_all json_wf vs"
| "json_wf (JObj kvs) = (distinct (map fst kvs) \<and> list_all (\<lambda>kv. json_wf (snd kv)) kvs)"
| "json_wf _ = True"

lemma map_of_obj_put: "map_of (obj_put kvs k v) = (map_of kvs)(k \<mapsto> v)"
  by (induction kvs k v rule: obj_put.induct) (auto simp: fun_eq_iff)

lemma obj_put_new: "k \<notin> fst ` set kvs \<Longrightarrow> obj_put kvs k v = kvs @ [(k, v)]"
  by (induction kvs k v rule: obj_put.induct) auto

lemma fst_obj_put: "fst ` set (obj_put kvs k v) = insert k (fst ` set kvs)"
  by (induction kvs k v rule: obj_put.induct) auto

lemma distinct_obj_put: "distinct (map fst kvs) \<Longrightarrow> distinct (map fst (obj_put kvs k v))"
  by (induction kvs k v rule: obj_put.induct) (auto simp: fst_obj_put)

section \<open>Characters and numbers\<close>

abbreviation quote_char :: char where "quote_char \<equiv> CHR 0x22"
abbreviation backslash :: char where "backslash \<equiv> CHR 0x5C"
abbreviation newline :: char where "newline \<equiv> CHR 0x0A"

definition code :: "char \<Rightarrow> nat" where
  "code c = of_char c"

definition is_digit :: "char \<Rightarrow> bool" where
  "is_digit c \<longleftrightarrow> 48 \<le> code c \<and> code c \<le> 57"

definition digit_char :: "nat \<Rightarrow> char" where
  "digit_char d = char_of (48 + d)"

fun show_nat :: "nat \<Rightarrow> string" where
  "show_nat n = (if n < 10 then [digit_char n] else show_nat (n div 10) @ [digit_char (n mod 10)])"

declare show_nat.simps [simp del]

definition read_nat :: "string \<Rightarrow> nat" where
  "read_nat ds = foldl (\<lambda>a c. 10 * a + (code c - 48)) 0 ds"

definition show_int :: "int \<Rightarrow> string" where
  "show_int i = (if i < 0 then CHR ''-'' # show_nat (nat (- i)) else show_nat (nat i))"

lemma code_digit_char: "d < 10 \<Longrightarrow> code (digit_char d) = 48 + d"
  by (simp add: code_def digit_char_def)

lemma is_digit_digit_char: "d < 10 \<Longrightarrow> is_digit (digit_char d)"
  by (simp add: is_digit_def code_digit_char)

lemma code_zero: "code (CHR ''0'') = 48"
  by (simp add: code_def)

lemma digit_char_zero: "d < 10 \<Longrightarrow> digit_char d = CHR ''0'' \<longleftrightarrow> d = 0"
  using code_digit_char [of d] by (auto simp: code_zero digit_char_def) code_simp

lemma show_nat_digits: "list_all is_digit (show_nat n)"
proof (induction n rule: show_nat.induct)
  case (1 n)
  then show ?case by (subst show_nat.simps) (auto simp: is_digit_digit_char)
qed

lemma show_nat_nonempty: "show_nat n \<noteq> []"
  by (subst show_nat.simps) simp

lemma read_show_nat: "read_nat (show_nat n) = n"
proof (induction n rule: show_nat.induct)
  case (1 n)
  then show ?case
    by (subst show_nat.simps) (auto simp: read_nat_def code_digit_char)
qed

lemma hd_show_nat: "0 < n \<Longrightarrow> hd (show_nat n) \<noteq> CHR ''0''"
proof (induction n rule: show_nat.induct)
  case (1 n)
  then show ?case
    by (subst show_nat.simps) (auto simp: digit_char_zero show_nat_nonempty)
qed

lemma show_nat_no_leading_zero: "hd (show_nat n) = CHR ''0'' \<Longrightarrow> length (show_nat n) = 1"
  using hd_show_nat [of n] by (cases "n = 0") (auto simp: show_nat.simps)

section \<open>JSON.stringify\<close>

definition hex_char :: "nat \<Rightarrow> char" where
  "hex_char d = (if d < 10 then char_of (48 + d) else char_of (87 + d))"

text \<open>\<open>QuoteJSONString\<close>: the seven short escapes, \<open>\u00XX\<close> for the other control characters.\<close>

definition escape_char :: "char \<Rightarrow> string" where
  "escape_char c =
     (if c = quote_char then [backslash, quote_char]
      else if c = backslash then [backslash, backslash]
      else if c = CHR 0x08 then [backslash, CHR ''b'']
      else if c = CHR 0x0C then [backslash, CHR ''f'']
      else if c = newline then [backslash, CHR ''n'']
      else if c = CHR 0x0D then [backslash, CHR ''r'']
      else if c = CHR 0x09 then [backslash, CHR ''t'']
      else if code c < 32
        then [backslash, CHR ''u'', CHR ''0'', CHR ''0'', hex_char (code c div 16), hex_char (code c mod 16)]
      else [c])"

definition show_string :: "string \<Rightarrow> string" where
  "show_string s = quote_char # concat (map escape_char s) @ [quote_char]"

fun sep_by :: "string \<Rightarrow> string list \<Rightarrow> string" where
  "sep_by sep [] = []"
| "sep_by sep [x] = x"
| "sep_by sep (x # y # ys) = x @ sep @ sep_by sep (y # ys)"

fun stringify :: "json \<Rightarrow> string" where
  "stringify JNull = ''null''"
| "stringify (JBool b) = (if b then ''true'' else ''false'')"
| "stringify (JNum i) = show_int i"
| "stringify (JStr s) = show_string s"
| "stringify (JArr vs) = ''['' @ sep_by '','' (map stringify vs) @ '']''"
| "stringify (JObj kvs) =
     ''{'' @ sep_by '','' (map (\<lambda>kv. show_string (fst kv) @ '':'' @ stringify (snd kv)) kvs) @ ''}''"

section \<open>JSON.parse\<close>

definition is_ws :: "char \<Rightarrow> bool" where
  "is_ws c \<longleftrightarrow> c \<in> {CHR '' '', CHR 0x09, CHR 0x0A, CHR 0x0D}"

definition skip_ws :: "string \<Rightarrow> string" where
  "skip_ws s = dropWhile is_ws s"

definition hex_val :: "char \<Rightarrow> nat option" where
  "hex_val c =
     (if is_digit c then Some (code c - 48)
      else if 97 \<le> code c \<and> code c \<le> 102 then Some (code c - 87)
      else if 65 \<le> code c \<and> code c \<le> 70 then Some (code c - 55)
      else None)"

definition hex4 :: "char \<Rightarrow> char \<Rightarrow> char \<Rightarrow> char \<Rightarrow> nat option" where
  "hex4 a b c d =
     (case (hex_val a, hex_val b, hex_val c, hex_val d) of
        (Some w, Some x, Some y, Some z) \<Rightarrow> Some (((w * 16 + x) * 16 + y) * 16 + z)
      | _ \<Rightarrow> None)"

text \<open>The UTF-8 bytes of a code point of the basic plane.\<close>

definition utf8_enc :: "nat \<Rightarrow> string option" where
  "utf8_enc v =
     (if v < 128 then Some [char_of v]
      else if v < 2048 then Some [char_of (192 + v div 64), char_of (128 + v mod 64)]
      else if 55296 \<le> v \<and> v < 57344 then None
      else Some [char_of (224 + v div 4096), char_of (128 + v div 64 mod 64), char_of (128 + v mod 64)])"

definition unescape :: "char \<Rightarrow> char option" where
  "unescape e =
     (if e = quote_char then Some quote_char
      else if e = backslash then Some backslash
      else if e = CHR 0x2F then Some (CHR 0x2F)
      else if e = CHR ''b'' then Some (CHR 0x08)
      else if e = CHR ''f'' then Some (CHR 0x0C)
      else if e = CHR ''n'' then Some newline
      else if e = CHR ''r'' then Some (CHR 0x0D)
      else if e = CHR ''t'' then Some (CHR 0x09)
      else None)"

text \<open>The rest of a string literal after its opening quote: the value and the remaining input.\<close>

fun parse_str :: "string \<Rightarrow> (string \<times> string) option" where
  "parse_str [] = None"
| "parse_str (c # s) =
     (if c = quote_char then Some ([], s)
      else if c = backslash then
        (case s of
           [] \<Rightarrow> None
         | e # s1 \<Rightarrow>
             (if e = CHR ''u'' then
                (case s1 of
                   x1 # x2 # x3 # x4 # s2 \<Rightarrow>
                     (case Option.bind (hex4 x1 x2 x3 x4) utf8_enc of
                        None \<Rightarrow> None
                      | Some u \<Rightarrow> map_option (\<lambda>(t, r). (u @ t, r)) (parse_str s2))
                 | _ \<Rightarrow> None)
              else
                (case unescape e of
                   None \<Rightarrow> None
                 | Some u \<Rightarrow> map_option (\<lambda>(t, r). (u # t, r)) (parse_str s1))))
      else if code c < 32 then None
      else map_option (\<lambda>(t, r). (c # t, r)) (parse_str s))"

definition parse_num :: "string \<Rightarrow> (json \<times> string) option" where
  "parse_num s =
     (let neg = (s \<noteq> [] \<and> hd s = CHR ''-'');
          s1 = (if neg then tl s else s);
          ds = takeWhile is_digit s1;
          r = dropWhile is_digit s1
      in if ds = [] \<or> (hd ds = CHR ''0'' \<and> length ds \<noteq> 1)
            \<or> (r \<noteq> [] \<and> hd r \<in> {CHR ''.'', CHR ''e'', CHR ''E''})
         then None
         else Some (JNum (if neg then - int (read_nat ds) else int (read_nat ds)), r))"

definition parse_lit :: "string \<Rightarrow> json \<Rightarrow> string \<Rightarrow> (json \<times> string) option" where
  "parse_lit w v s = (if take (length w) s = w then Some (v, drop (length w) s) else None)"

text \<open>
  Values, the elements of an array after the first bracket, the members of an object after the
  first brace. The first argument is fuel; \<open>json_parse\<close> starts with more than any input of
  its length can use (\<open>parse_fuel_irrelevant\<close>). A key that occurs twice keeps its last value.
\<close>

fun parse_val :: "nat \<Rightarrow> string \<Rightarrow> (json \<times> string) option"
  and parse_elems :: "nat \<Rightarrow> string \<Rightarrow> (json list \<times> string) option"
  and parse_members :: "nat \<Rightarrow> (string \<times> json) list \<Rightarrow> string \<Rightarrow> ((string \<times> json) list \<times> string) option"
where
  "parse_val 0 s = None"
| "parse_val (Suc n) s =
     (case s of
        [] \<Rightarrow> None
      | c # s1 \<Rightarrow>
          (if is_ws c then parse_val n s1
           else if c = CHR ''n'' then parse_lit ''null'' JNull s
           else if c = CHR ''t'' then parse_lit ''true'' (JBool True) s
           else if c = CHR ''f'' then parse_lit ''false'' (JBool False) s
           else if c = quote_char then map_option (\<lambda>(t, r). (JStr t, r)) (parse_str s1)
           else if c = CHR ''['' then
             (case skip_ws s1 of
                [] \<Rightarrow> None
              | d # r \<Rightarrow>
                  (if d = CHR '']'' then Some (JArr [], r)
                   else map_option (\<lambda>(vs, r'). (JArr vs, r')) (parse_elems n (d # r))))
           else if c = CHR ''{'' then
             (case skip_ws s1 of
                [] \<Rightarrow> None
              | d # r \<Rightarrow>
                  (if d = CHR ''}'' then Some (JObj [], r)
                   else map_option (\<lambda>(kvs, r'). (JObj kvs, r')) (parse_members n [] (d # r))))
           else parse_num s))"
| "parse_elems 0 s = None"
| "parse_elems (Suc n) s =
     (case parse_val n s of
        None \<Rightarrow> None
      | Some (v, r) \<Rightarrow>
          (case skip_ws r of
             [] \<Rightarrow> None
           | d # r1 \<Rightarrow>
               (if d = CHR '']'' then Some ([v], r1)
                else if d = CHR '','' then map_option (\<lambda>(vs, r2). (v # vs, r2)) (parse_elems n r1)
                else None)))"
| "parse_members 0 acc s = None"
| "parse_members (Suc n) acc s =
     (case skip_ws s of
        [] \<Rightarrow> None
      | q # s1 \<Rightarrow>
          (if q \<noteq> quote_char then None
           else
             (case parse_str s1 of
                None \<Rightarrow> None
              | Some (k, r) \<Rightarrow>
                  (case skip_ws r of
                     [] \<Rightarrow> None
                   | d # r1 \<Rightarrow>
                       (if d \<noteq> CHR '':'' then None
                        else
                          (case parse_val n r1 of
                             None \<Rightarrow> None
                           | Some (v, r2) \<Rightarrow>
                               (case skip_ws r2 of
                                  [] \<Rightarrow> None
                                | e # r3 \<Rightarrow>
                                    (if e = CHR ''}'' then Some (obj_put acc k v, r3)
                                     else if e = CHR '','' then parse_members n (obj_put acc k v) r3
                                     else None))))))))"

definition json_parse :: "string \<Rightarrow> json option" where
  "json_parse s =
     (case parse_val (2 * length s + 2) s of
        None \<Rightarrow> None
      | Some (v, r) \<Rightarrow> (if skip_ws r = [] then Some v else None))"

section \<open>Parsing what was printed\<close>

lemma code_inject: "code a = code b \<longleftrightarrow> a = b"
  by (auto simp: code_def)

lemma char_of_code: "char_of (code c) = c"
  by (simp add: code_def)

lemma hex_val_hex_char: "d < 16 \<Longrightarrow> hex_val (hex_char d) = Some d"
  by (auto simp: hex_val_def hex_char_def is_digit_def code_def)

lemma parse_str_escape:
  "parse_str (escape_char c @ t) = map_option (\<lambda>(u, r). (c # u, r)) (parse_str t)"
proof (cases "code c < 32")
  case True
  have h: "hex4 (CHR ''0'') (CHR ''0'') (hex_char (code c div 16)) (hex_char (code c mod 16)) = Some (code c)"
  proof -
    have "hex_val (CHR ''0'') = Some 0" by code_simp
    then show ?thesis using True by (simp add: hex4_def hex_val_hex_char div_mult_mod_eq)
  qed
  have u: "utf8_enc (code c) = Some [c]"
    using True by (simp add: utf8_enc_def char_of_code)
  show ?thesis
    using True h u by (auto simp: escape_char_def unescape_def code_def)
next
  case False
  then show ?thesis by (auto simp: escape_char_def unescape_def)
qed

lemma parse_show_string_body:
  "parse_str (concat (map escape_char s) @ quote_char # r) = Some (s, r)"
  by (induction s) (simp_all add: parse_str_escape)

lemma parse_show_string: "\<exists>t. show_string s @ r = quote_char # t \<and> parse_str t = Some (s, r)"
  using parse_show_string_body [of s r] by (simp add: show_string_def)

definition ends :: "string \<Rightarrow> bool" where
  "ends r \<longleftrightarrow> r = [] \<or> hd r \<in> {CHR '','', CHR '']'', CHR ''}''}"

lemma ends_not_digit: "ends r \<Longrightarrow> r \<noteq> [] \<Longrightarrow> \<not> is_digit (hd r) \<and> hd r \<notin> {CHR ''.'', CHR ''e'', CHR ''E''}"
  by (auto simp: ends_def is_digit_def code_def)

lemma takeWhile_digits:
  assumes "ends r" "list_all is_digit ds"
  shows "takeWhile is_digit (ds @ r) = ds" "dropWhile is_digit (ds @ r) = r"
proof -
  have r: "takeWhile is_digit r = []" "dropWhile is_digit r = r"
    using ends_not_digit [OF assms(1)] by (cases r; simp)+
  have d: "\<forall>x \<in> set ds. is_digit x" using assms(2) by (simp add: list_all_iff)
  show "takeWhile is_digit (ds @ r) = ds" using d r by (simp add: takeWhile_append2)
  show "dropWhile is_digit (ds @ r) = r" using d r by (simp add: dropWhile_append2)
qed

lemma hd_digit: "list_all is_digit ds \<Longrightarrow> ds \<noteq> [] \<Longrightarrow> is_digit (hd ds)"
  by (cases ds) auto

lemma is_digit_minus: "\<not> is_digit (CHR ''-'')"
  by (simp add: is_digit_def code_def)

lemma parse_num_show_int:
  assumes "ends r"
  shows "parse_num (show_int i @ r) = Some (JNum i, r)"
proof -
  have nat_part: "takeWhile is_digit (show_nat k @ r) = show_nat k"
    "dropWhile is_digit (show_nat k @ r) = r"
    "\<not> (hd (show_nat k) = CHR ''0'' \<and> length (show_nat k) \<noteq> 1)" for k
    using takeWhile_digits [OF assms show_nat_digits [of k]] show_nat_no_leading_zero [of k] by auto
  have nm: "hd (show_nat k @ r) \<noteq> CHR ''-''" for k
    using hd_digit [OF show_nat_digits show_nat_nonempty, of k] is_digit_minus
    by (auto simp: show_nat_nonempty)
  have rr: "\<not> (r \<noteq> [] \<and> hd r \<in> {CHR ''.'', CHR ''e'', CHR ''E''})"
    using ends_not_digit [OF assms] by blast
  show ?thesis
    using nat_part nm rr
    by (auto simp: parse_num_def show_int_def Let_def show_nat_nonempty read_show_nat)
qed

lemma show_int_first: "\<exists>c t. show_int i = c # t \<and> (is_digit c \<or> c = CHR ''-'')"
proof -
  have "\<exists>c t. show_nat k = c # t \<and> is_digit c" for k
    using show_nat_digits [of k] show_nat_nonempty [of k] by (cases "show_nat k") auto
  then show ?thesis by (auto simp: show_int_def) blast
qed

lemma skip_ws_ends: "ends r \<Longrightarrow> skip_ws r = r"
  by (cases r) (auto simp: ends_def skip_ws_def is_ws_def)

lemma skip_ws_Cons: "\<not> is_ws c \<Longrightarrow> skip_ws (c # s) = c # s"
  by (simp add: skip_ws_def)

lemma stringify_first:
  "\<exists>c t. stringify v = c # t \<and> \<not> is_ws c \<and> c \<noteq> CHR '']'' \<and> c \<noteq> CHR ''}''"
proof (cases v)
  case (JNum i)
  then show ?thesis using show_int_first [of i]
    by (auto simp: is_ws_def is_digit_def code_def)
qed (auto simp: is_ws_def show_string_def)

lemma num_first:
  assumes "is_digit c \<or> c = CHR ''-''"
  shows "\<not> is_ws c" "c \<noteq> CHR ''n''" "c \<noteq> CHR ''t''" "c \<noteq> CHR ''f''" "c \<noteq> quote_char"
    "c \<noteq> CHR ''[''" "c \<noteq> CHR ''{''"
  using assms by (auto simp: is_ws_def is_digit_def code_def)

lemma parse_val_num:
  assumes "ends r"
  shows "parse_val (Suc n) (show_int i @ r) = Some (JNum i, r)"
proof -
  obtain c t where ct: "show_int i = c # t" "is_digit c \<or> c = CHR ''-''"
    using show_int_first by blast
  have "parse_num (c # t @ r) = Some (JNum i, r)"
    using parse_num_show_int [OF assms, of i] ct by simp
  then show ?thesis using num_first [OF ct(2)] ct(1) by simp
qed

lemma parse_elems_stringify:
  assumes "\<And>v r n. v \<in> set vs \<Longrightarrow> ends r \<Longrightarrow> 2 * length (stringify v @ r) + 2 \<le> n \<Longrightarrow>
      parse_val n (stringify v @ r) = Some (v, r)"
    and "vs \<noteq> []"
    and "2 * length (sep_by '','' (map stringify vs) @ CHR '']'' # r) + 3 \<le> n"
  shows "parse_elems n (sep_by '','' (map stringify vs) @ CHR '']'' # r) = Some (vs, r)"
  using assms
proof (induction vs arbitrary: n)
  case (Cons v vs)
  obtain m where n: "n = Suc m" using Cons.prems(3) by (cases n) auto
  show ?case
  proof (cases vs)
    case Nil
    have "parse_val m (stringify v @ CHR '']'' # r) = Some (v, CHR '']'' # r)"
      using Cons.prems(1) [of v "CHR '']'' # r" m] Cons.prems(3) n Nil by (simp add: ends_def)
    then show ?thesis using n Nil by (simp add: skip_ws_def is_ws_def)
  next
    case (Cons w ws)
    let ?t = "sep_by '','' (map stringify vs) @ CHR '']'' # r"
    have len: "length (sep_by '','' (map stringify (v # vs)) @ CHR '']'' # r)
        = length (stringify v) + 1 + length ?t"
      using Cons by simp
    have str: "sep_by '','' (map stringify (v # vs)) @ CHR '']'' # r = stringify v @ CHR '','' # ?t"
      using Cons by simp
    have "parse_val m (stringify v @ CHR '','' # ?t) = Some (v, CHR '','' # ?t)"
      using Cons.prems(1) [of v "CHR '','' # ?t" m] Cons.prems(3) n len by (simp add: ends_def)
    moreover have "parse_elems m ?t = Some (vs, r)"
      using Cons.IH [of m] Cons.prems n len Cons by auto
    ultimately show ?thesis using n str by (simp add: skip_ws_def is_ws_def)
  qed
qed simp

abbreviation show_member :: "string \<times> json \<Rightarrow> string" where
  "show_member kv \<equiv> show_string (fst kv) @ '':'' @ stringify (snd kv)"

lemma parse_members_stringify:
  assumes "\<And>k v r n. (k, v) \<in> set kvs \<Longrightarrow> ends r \<Longrightarrow> 2 * length (stringify v @ r) + 2 \<le> n \<Longrightarrow>
      parse_val n (stringify v @ r) = Some (v, r)"
    and "kvs \<noteq> []" and "distinct (map fst (acc @ kvs))"
    and "2 * length (sep_by '','' (map show_member kvs) @ CHR ''}'' # r) + 3 \<le> n"
  shows "parse_members n acc (sep_by '','' (map show_member kvs) @ CHR ''}'' # r) = Some (acc @ kvs, r)"
  using assms
proof (induction kvs arbitrary: n acc)
  case (Cons kv kvs)
  obtain m where n: "n = Suc m" using Cons.prems(4) by (cases n) auto
  obtain k v where kv: "kv = (k, v)" by force
  have new: "k \<notin> fst ` set acc" using Cons.prems(3) kv by auto
  show ?case
  proof (cases kvs)
    case Nil
    have "parse_val m (stringify v @ CHR ''}'' # r) = Some (v, CHR ''}'' # r)"
      using Cons.prems(1) [of k v "CHR ''}'' # r" m] Cons.prems(4) n Nil kv by (simp add: ends_def)
    then show ?thesis
      using n Nil kv new parse_show_string_body [of k "CHR '':'' # stringify v @ CHR ''}'' # r"]
      by (simp add: show_string_def skip_ws_def is_ws_def obj_put_new)
  next
    case (Cons w ws)
    let ?t = "sep_by '','' (map show_member kvs) @ CHR ''}'' # r"
    have str: "sep_by '','' (map show_member (kv # kvs)) @ CHR ''}'' # r
        = show_string k @ CHR '':'' # stringify v @ CHR '','' # ?t"
      using Cons kv by simp
    have len: "length (sep_by '','' (map show_member (kv # kvs)) @ CHR ''}'' # r)
        = length (show_string k) + 2 + length (stringify v) + length ?t"
      unfolding str by simp
    have val: "parse_val m (stringify v @ CHR '','' # ?t) = Some (v, CHR '','' # ?t)"
      using Cons.prems(1) [of k v "CHR '','' # ?t" m] Cons.prems(4) n len kv by (simp add: ends_def)
    have rest: "parse_members m (acc @ [(k, v)]) ?t = Some ((acc @ [(k, v)]) @ kvs, r)"
      by (rule Cons.IH) (use Cons.prems n len Cons kv in auto)
    show ?thesis
      unfolding str
      using n val rest kv new
        parse_show_string_body [of k "CHR '':'' # stringify v @ CHR '','' # ?t"]
      by (simp add: show_string_def skip_ws_def is_ws_def obj_put_new)
  qed
qed simp

lemma sep_by_first:
  assumes "\<And>x. x \<in> set xs \<Longrightarrow> \<exists>c t. x = c # t \<and> P c" "xs \<noteq> []"
  shows "\<exists>c t. sep_by sep xs @ u = c # t \<and> P c"
  using assms by (induction sep xs rule: sep_by.induct) fastforce+

lemma parse_stringify_val:
  "json_wf v \<Longrightarrow> ends r \<Longrightarrow> 2 * length (stringify v @ r) + 2 \<le> n \<Longrightarrow>
     parse_val n (stringify v @ r) = Some (v, r)"
proof (induction v arbitrary: r n)
  case (JNum i)
  then obtain m where n: "n = Suc m" by (cases n) auto
  with JNum show ?case using parse_val_num by simp
next
  case (JStr s)
  then obtain m where n: "n = Suc m" by (cases n) auto
  with JStr show ?case using parse_show_string_body [of s r]
    by (simp add: show_string_def is_ws_def)
next
  case (JArr vs)
  then obtain m where n: "n = Suc m" by (cases n) auto
  show ?case
  proof (cases "vs = []")
    case True
    with n show ?thesis by (simp add: is_ws_def skip_ws_def)
  next
    case False
    let ?t = "sep_by '','' (map stringify vs) @ CHR '']'' # r"
    have "\<exists>c t. ?t = c # t \<and> (\<not> is_ws c \<and> c \<noteq> CHR '']'' \<and> c \<noteq> CHR ''}'')"
      by (rule sep_by_first) (use stringify_first False in auto)
    then obtain c t where ct: "?t = c # t" "\<not> is_ws c" "c \<noteq> CHR '']''" by blast
    have "parse_elems m ?t = Some (vs, r)"
      by (rule parse_elems_stringify) (use JArr n False in \<open>auto simp: list_all_iff\<close>)
    with ct n show ?thesis by (simp add: is_ws_def skip_ws_Cons)
  qed
next
  case (JObj kvs)
  then obtain m where n: "n = Suc m" by (cases n) auto
  show ?case
  proof (cases "kvs = []")
    case True
    with n show ?thesis by (simp add: is_ws_def skip_ws_def)
  next
    case False
    let ?t = "sep_by '','' (map show_member kvs) @ CHR ''}'' # r"
    have "\<exists>c t. ?t = c # t \<and> c = quote_char"
      by (rule sep_by_first) (use False in \<open>auto simp: show_string_def\<close>)
    then obtain t where ct: "?t = quote_char # t" by blast
    have "parse_members m [] ?t = Some ([] @ kvs, r)"
      by (rule parse_members_stringify) (use JObj n False in \<open>fastforce simp: list_all_iff\<close>)+
    with ct n show ?thesis by (simp add: is_ws_def skip_ws_Cons)
  qed
qed (auto simp: parse_lit_def is_ws_def elim!: Suc_le_D dest: Suc_le_D)

lemma json_parse_stringify: "json_wf v \<Longrightarrow> json_parse (stringify v) = Some v"
  using parse_stringify_val [of v "[]" "2 * length (stringify v) + 2"]
  by (simp add: json_parse_def ends_def skip_ws_def)

text \<open>A printed value has no line feed, so it fits on one line of the socket protocol.\<close>

lemma newline_code: "code newline = 10"
  by (simp add: code_def)

lemma hex_char_not_newline: "d < 16 \<Longrightarrow> hex_char d \<noteq> newline"
  using hex_val_hex_char [of d] by (auto simp: hex_val_def is_digit_def newline_code)

lemma escape_char_no_newline: "newline \<notin> set (escape_char c)"
proof (cases "code c < 32")
  case True
  then have "hex_char (code c div 16) \<noteq> newline" "hex_char (code c mod 16) \<noteq> newline"
    using True by (intro hex_char_not_newline; simp)+
  then have "newline \<noteq> hex_char (code c div 16)" "newline \<noteq> hex_char (code c mod 16)"
    by metis+
  then show ?thesis by (simp add: escape_char_def)
next
  case False
  then show ?thesis by (auto simp: escape_char_def)
qed

lemma show_string_no_newline: "newline \<notin> set (show_string s)"
  using escape_char_no_newline by (auto simp: show_string_def)

lemma show_int_no_newline: "newline \<notin> set (show_int i)"
proof -
  have "newline \<notin> set (show_nat k)" for k
    using show_nat_digits [of k] by (auto simp: list_all_iff is_digit_def newline_code)
  then show ?thesis by (simp add: show_int_def)
qed

lemma set_sep_by: "c \<in> set (sep_by sep xs) \<Longrightarrow> c \<in> set sep \<or> (\<exists>x \<in> set xs. c \<in> set x)"
  by (induction sep xs rule: sep_by.induct) auto

lemma stringify_no_newline: "newline \<notin> set (stringify v)"
proof (induction v)
  case (JNum i)
  show ?case by (simp add: show_int_no_newline)
next
  case (JStr s)
  show ?case by (simp add: show_string_no_newline)
next
  case (JArr vs)
  then show ?case by (auto dest!: set_sep_by)
next
  case (JObj kvs)
  have "newline \<notin> set (stringify (snd kv))" if "kv \<in> set kvs" for kv
    using JObj that by (cases kv) auto
  then show ?case using show_string_no_newline by (auto dest!: set_sep_by)
qed auto

section \<open>The fuel of the parser does not show\<close>

lemma skip_ws_length: "length (skip_ws s) \<le> length s"
  by (simp add: skip_ws_def length_dropWhile_le)

lemma skip_ws_ConsD: "skip_ws s = c # t \<Longrightarrow> length t < length s"
  using skip_ws_length [of s] by simp

lemma parse_str_length: "parse_str s = Some (t, r) \<Longrightarrow> length r < length s"
proof (induction s arbitrary: t r rule: parse_str.induct)
  case (2 c s)
  show ?case
  proof (cases "c = quote_char \<or> c \<noteq> backslash")
    case True
    with "2.prems" "2.IH"(3) show ?thesis by (fastforce split: if_splits)
  next
    case False
    then show ?thesis
      using "2.prems" "2.IH"(1,2) by (fastforce split: if_splits list.splits option.splits)
  qed
qed simp

lemma parse_num_length: "parse_num s = Some (v, r) \<Longrightarrow> length r < length s"
proof -
  assume p: "parse_num s = Some (v, r)"
  define s1 where "s1 = (if s \<noteq> [] \<and> hd s = CHR ''-'' then tl s else s)"
  have ds: "takeWhile is_digit s1 \<noteq> []" and r: "r = dropWhile is_digit s1"
    using p by (auto simp: parse_num_def s1_def Let_def split: if_splits)
  have "length (takeWhile is_digit s1) + length r = length s1"
    unfolding r by (metis length_append takeWhile_dropWhile_id)
  moreover have "length s1 \<le> length s" by (simp add: s1_def)
  ultimately show ?thesis using ds by (cases "takeWhile is_digit s1") auto
qed

lemma parse_lit_length: "parse_lit w v s = Some (v', r) \<Longrightarrow> w \<noteq> [] \<Longrightarrow> length r < length s"
  by (cases s) (auto simp: parse_lit_def split: if_splits)

lemma parse_length:
  "parse_val n s = Some (v, r) \<Longrightarrow> length r < length s"
  "parse_elems n s = Some (vs, r) \<Longrightarrow> length r < length s"
  "parse_members n acc s = Some (kvs, r) \<Longrightarrow> length r < length s"
proof (induction n s and n s and n acc s arbitrary: v r and vs r and kvs r
    rule: parse_val_parse_elems_parse_members.induct)
  case (2 n s)
  then show ?case
    by (auto split: list.splits if_splits
        dest: parse_lit_length parse_str_length parse_num_length skip_ws_ConsD)
      (fastforce dest: skip_ws_ConsD)+
next
  case (4 n s)
  then show ?case
    by (auto split: list.splits if_splits option.splits) (fastforce dest: skip_ws_ConsD)+
next
  case (6 n acc s)
  then show ?case
    by (auto split: list.splits if_splits option.splits)
      (fastforce dest: skip_ws_ConsD parse_str_length)+
qed auto

lemma parse_fuel_step:
  "2 * length s < n \<Longrightarrow> parse_val (Suc n) s = parse_val n s"
  "2 * length s + 1 < n \<Longrightarrow> parse_elems (Suc n) s = parse_elems n s"
  "2 * length s < n \<Longrightarrow> parse_members (Suc n) acc s = parse_members n acc s"
proof (induction n s and n s and n acc s rule: parse_val_parse_elems_parse_members.induct)
  case (2 n s)
  show ?case
  proof (cases s)
    case (Cons c s1)
    have e: "parse_elems (Suc n) (d # r) = parse_elems n (d # r)"
      if "c = CHR ''[''" "skip_ws s1 = d # r" "d \<noteq> CHR '']''" for d r
      using "2.IH"(2) [OF Cons _ _ _ _ _ that(1) _ that(3)] "2.prems" Cons that skip_ws_length [of s1]
      by (auto simp: is_ws_def)
    have m: "parse_members (Suc n) [] (d # r) = parse_members n [] (d # r)"
      if "c = CHR ''{''" "skip_ws s1 = d # r" "d \<noteq> CHR ''}''" for d r
      using "2.IH"(3) [OF Cons _ _ _ _ _ _ that(1) _ that(3)] "2.prems" Cons that skip_ws_length [of s1]
      by (auto simp: is_ws_def)
    have w: "parse_val (Suc n) s1 = parse_val n s1" if "is_ws c"
      using "2.IH"(1) [OF Cons that] "2.prems" Cons by auto
    show ?thesis
      unfolding parse_val.simps(2) [of "Suc n" s] parse_val.simps(2) [of n s] Cons
      using e m w by (auto split: list.splits)
  qed simp
next
  case (4 n s)
  have v: "parse_val (Suc n) s = parse_val n s" using "4.IH"(1) "4.prems" by simp
  have e: "parse_elems (Suc n) r1 = parse_elems n r1"
    if "parse_val n s = Some (x, r)" "skip_ws r = d # r1" "d = CHR '',''" for x r d r1
    using "4.IH"(2) [OF that(1) _ that(2)] "4.prems" that parse_length(1) [OF that(1)]
      skip_ws_length [of r] by auto
  show ?case
    unfolding parse_elems.simps(2) [of "Suc n" s] parse_elems.simps(2) [of n s] v
    using e by (auto split: option.splits list.splits)
next
  case (6 n acc s)
  have v: "parse_val (Suc n) r1 = parse_val n r1"
    if "skip_ws s = q # s1" "q = quote_char" "parse_str s1 = Some (k, r)" "skip_ws r = d # r1" "d = CHR '':''"
    for q s1 k r d r1
    using "6.IH"(1) [OF that(1) _ that(3) _ that(4)] "6.prems" that parse_str_length [OF that(3)]
      skip_ws_length [of s] skip_ws_length [of r] by auto
  have m: "parse_members (Suc n) (obj_put acc k x) r3 = parse_members n (obj_put acc k x) r3"
    if "skip_ws s = q # s1" "q = quote_char" "parse_str s1 = Some (k, r)" "skip_ws r = d # r1" "d = CHR '':''"
      "parse_val n r1 = Some (x, r2)" "skip_ws r2 = e # r3" "e = CHR '',''"
    for q s1 k r d r1 x r2 e r3
    using "6.IH"(2) [OF that(1) _ that(3) _ that(4) _ that(6) _ that(7)] "6.prems" that
      parse_str_length [OF that(3)] skip_ws_length [of s] skip_ws_length [of r]
      parse_length(1) [OF that(6)] skip_ws_length [of r2] by auto
  show ?case
    unfolding parse_members.simps(2) [of "Suc n" acc s] parse_members.simps(2) [of n acc s]
    using v m by (auto split: option.splits list.splits)
qed auto

theorem parse_fuel_irrelevant:
  assumes "2 * length s + 2 \<le> n"
  shows "parse_val n s = parse_val (2 * length s + 2) s"
  using assms
proof (induction n rule: dec_induct)
  case (step m)
  then show ?case using parse_fuel_step(1) [of s m] by simp
qed simp

section \<open>The codec interface\<close>

text \<open>
  What the socket protocol and the JSON columns need of the codec: reading back what was
  written, and that a written value is one non-blank line.
\<close>

locale json_codec =
  fixes enc :: "json \<Rightarrow> string" and dec :: "string \<Rightarrow> json option"
  assumes dec_enc: "json_wf v \<Longrightarrow> dec (enc v) = Some v"
    and enc_one_line: "newline \<notin> set (enc v)"
    and enc_first: "\<exists>c t. enc v = c # t \<and> \<not> is_ws c"
begin

lemma enc_inj: "json_wf v \<Longrightarrow> json_wf w \<Longrightarrow> enc v = enc w \<Longrightarrow> v = w"
  by (metis dec_enc option.inject)

lemma enc_nonempty: "enc v \<noteq> []"
  using enc_first [of v] by auto

end

interpretation js: json_codec stringify json_parse
proof unfold_locales
  show "\<exists>c t. stringify v = c # t \<and> \<not> is_ws c" for v
    using stringify_first [of v] by blast
qed (simp_all add: json_parse_stringify stringify_no_newline)

section \<open>Arrays of strings as column values\<close>

text \<open>\<open>JSON.stringify(xs)\<close> of a string array and \<open>JSON.parse(text)\<close> read as one.\<close>

definition strings_json :: "string list \<Rightarrow> string" where
  "strings_json xs = stringify (JArr (map JStr xs))"

fun as_strings :: "json list \<Rightarrow> string list option" where
  "as_strings [] = Some []"
| "as_strings (JStr s # vs) = map_option (\<lambda>ss. s # ss) (as_strings vs)"
| "as_strings (_ # vs) = None"

definition json_strings :: "string \<Rightarrow> string list option" where
  "json_strings t = (case json_parse t of Some (JArr vs) \<Rightarrow> as_strings vs | _ \<Rightarrow> None)"

lemma as_strings_map: "as_strings (map JStr xs) = Some xs"
  by (induction xs) auto

lemma json_strings_strings_json [simp]: "json_strings (strings_json xs) = Some xs"
proof -
  have "json_wf (JArr (map JStr xs))" by (simp add: list_all_iff)
  then show ?thesis
    unfolding json_strings_def strings_json_def
    by (simp only: js.dec_enc option.case json.case as_strings_map)
qed

end
