(* ===== verification/Db.thy ===== *)
theory Db
  imports Json
begin

text \<open>
  The database of \<open>dao/sqlite/connection.js\<close>: the rows of the seven tables, the constraints the
  schema declares (NOT NULL by the row types, CHECK, UNIQUE, PRIMARY KEY, foreign keys with their
  ON DELETE actions), the AUTOINCREMENT counters, and the versioned migrations. A table is its
  row list in rowid order, which is the order of a scan without ORDER BY and of equal keys under
  ORDER BY. Dates are the text SQLite stores; \<open>sql_clock\<close> stands for its \<open>datetime()\<close> and
  \<open>date()\<close> functions.
\<close>

section \<open>Rows\<close>

record sql_clock =
  clk_now :: int
  clk_datetime :: "int \<Rightarrow> string"
  clk_date :: "int \<Rightarrow> string"

definition datetime_now :: "sql_clock \<Rightarrow> string" where
  "datetime_now c = clk_datetime c (clk_now c)"

definition datetime_ago :: "sql_clock \<Rightarrow> int \<Rightarrow> string" where
  "datetime_ago c seconds = clk_datetime c (clk_now c - seconds)"

definition date_now :: "sql_clock \<Rightarrow> string" where
  "date_now c = clk_date c (clk_now c)"

record rule_row =
  rr_id :: int
  rr_name :: string
  rr_url_pattern :: string
  rr_methods :: string
  rr_action :: string
  rr_priority :: int
  rr_agent_id :: "string option"
  rr_log_request_body :: string
  rr_log_response_body :: string
  rr_default_behavior :: "string option"
  rr_enabled :: int
  rr_hit_count :: int
  rr_hit_count_today :: int
  rr_hit_count_date :: "string option"
  rr_policy_id :: "int option"

record log_row =
  lr_id :: int
  lr_timestamp :: string
  lr_method :: string
  lr_url :: string
  lr_request_headers :: "string option"
  lr_request_body_ref :: "string option"
  lr_response_status :: "int option"
  lr_response_headers :: "string option"
  lr_response_body_ref :: "string option"
  lr_duration_ms :: "int option"
  lr_rule_id :: "int option"
  lr_decision :: string
  lr_agent_id :: "string option"
  lr_mode :: "string option"

record approval_row =
  aq_id :: int
  aq_request_log_id :: int
  aq_ipc_msg_id :: "string option"
  aq_status :: string
  aq_created_at :: string
  aq_resolved_at :: "string option"
  aq_resolved_by :: "string option"
  aq_create_rule :: int
  aq_suggested_pattern :: "string option"
  aq_suggested_methods :: "string option"

record agent_row =
  ar_id :: int
  ar_name :: string
  ar_token_hash :: string
  ar_enabled :: int
  ar_request_count :: int
  ar_created_at :: string
  ar_description :: string
  ar_ip_address :: "string option"

record policy_row =
  pr_id :: int
  pr_name :: string
  pr_description :: "string option"
  pr_created_at :: string

record db =
  t_rules :: "rule_row list"
  seq_rules :: int
  t_log :: "log_row list"
  seq_log :: int
  t_queue :: "approval_row list"
  seq_queue :: int
  t_agents :: "agent_row list"
  seq_agents :: int
  t_policies :: "policy_row list"
  seq_policies :: int
  t_children :: "(int \<times> int) list"
  t_agent_policies :: "(int \<times> int) list"

section \<open>Constraints\<close>

definition rule_check :: "rule_row \<Rightarrow> bool" where
  "rule_check r \<longleftrightarrow>
     rr_action r \<in> {''allow'', ''deny''} \<and>
     (case rr_default_behavior r of None \<Rightarrow> True | Some b \<Rightarrow> b \<in> {''deny'', ''hold'', ''queue''})"

definition log_check :: "log_row \<Rightarrow> bool" where
  "log_check r \<longleftrightarrow> lr_decision r \<in> {''allowed'', ''denied'', ''held'', ''queued''}"

definition approval_check :: "approval_row \<Rightarrow> bool" where
  "approval_check r \<longleftrightarrow> aq_status r \<in> {''pending'', ''approved'', ''rejected''}"

definition policy_exists :: "db \<Rightarrow> int \<Rightarrow> bool" where
  "policy_exists d i \<longleftrightarrow> i \<in> pr_id ` set (t_policies d)"

definition agent_exists :: "db \<Rightarrow> int \<Rightarrow> bool" where
  "agent_exists d i \<longleftrightarrow> i \<in> ar_id ` set (t_agents d)"

definition rule_exists :: "db \<Rightarrow> int \<Rightarrow> bool" where
  "rule_exists d i \<longleftrightarrow> i \<in> rr_id ` set (t_rules d)"

definition log_exists :: "db \<Rightarrow> int \<Rightarrow> bool" where
  "log_exists d i \<longleftrightarrow> i \<in> lr_id ` set (t_log d)"

text \<open>A nullable foreign key holds when it is NULL or names a row.\<close>

definition fk :: "(int \<Rightarrow> bool) \<Rightarrow> int option \<Rightarrow> bool" where
  "fk ex v = (case v of None \<Rightarrow> True | Some i \<Rightarrow> ex i)"

lemma fk_simps [simp]: "fk ex None" "fk ex (Some i) = ex i"
  by (simp_all add: fk_def)

text \<open>
  A table with an AUTOINCREMENT key: its rows are in rowid order, so ids increase strictly; they
  are positive and at most the counter.
\<close>

definition table_ok :: "('r \<Rightarrow> int) \<Rightarrow> int \<Rightarrow> 'r list \<Rightarrow> bool" where
  "table_ok key seq rows \<longleftrightarrow>
     0 \<le> seq \<and> sorted_wrt (<) (map key rows) \<and> (\<forall>r \<in> set rows. 0 < key r \<and> key r \<le> seq)"

definition row_by_id :: "('r \<Rightarrow> int) \<Rightarrow> 'r list \<Rightarrow> int option \<Rightarrow> 'r option" where
  "row_by_id key rows i = (case i of None \<Rightarrow> None | Some n \<Rightarrow> find (\<lambda>r. key r = n) rows)"

text \<open>
  The invariant of the database: every table is keyed, names are unique, every CHECK and every
  foreign key holds, the policy edges are distinct, and JSON columns parse.
\<close>

definition edges_ok :: "db \<Rightarrow> bool" where
  "edges_ok d \<longleftrightarrow>
     distinct (t_children d) \<and>
     (\<forall>(p, c) \<in> set (t_children d). policy_exists d p \<and> policy_exists d c \<and> p \<noteq> c) \<and>
     acyclic (set (t_children d))"

definition rules_ok :: "db \<Rightarrow> bool" where
  "rules_ok d \<longleftrightarrow>
     table_ok rr_id (seq_rules d) (t_rules d) \<and>
     (\<forall>r \<in> set (t_rules d). rule_check r \<and> fk (policy_exists d) (rr_policy_id r)
        \<and> json_strings (rr_methods r) \<noteq> None \<and> rr_enabled r \<in> {0, 1})"

definition log_ok :: "db \<Rightarrow> bool" where
  "log_ok d \<longleftrightarrow>
     table_ok lr_id (seq_log d) (t_log d) \<and>
     (\<forall>r \<in> set (t_log d). log_check r \<and> fk (rule_exists d) (lr_rule_id r))"

definition queue_ok :: "db \<Rightarrow> bool" where
  "queue_ok d \<longleftrightarrow>
     table_ok aq_id (seq_queue d) (t_queue d) \<and>
     (\<forall>r \<in> set (t_queue d). approval_check r \<and> log_exists d (aq_request_log_id r)
        \<and> (case aq_suggested_methods r of None \<Rightarrow> True | Some t \<Rightarrow> json_strings t \<noteq> None))"

definition agents_ok :: "db \<Rightarrow> bool" where
  "agents_ok d \<longleftrightarrow>
     table_ok ar_id (seq_agents d) (t_agents d) \<and> distinct (map ar_name (t_agents d))"

definition policies_ok :: "db \<Rightarrow> bool" where
  "policies_ok d \<longleftrightarrow>
     table_ok pr_id (seq_policies d) (t_policies d) \<and> distinct (map pr_name (t_policies d))"

definition assignments_ok :: "db \<Rightarrow> bool" where
  "assignments_ok d \<longleftrightarrow>
     distinct (t_agent_policies d) \<and>
     (\<forall>(a, p) \<in> set (t_agent_policies d). agent_exists d a \<and> policy_exists d p)"

definition db_ok :: "db \<Rightarrow> bool" where
  "db_ok d \<longleftrightarrow>
     rules_ok d \<and> log_ok d \<and> queue_ok d \<and> agents_ok d \<and> policies_ok d \<and> edges_ok d \<and> assignments_ok d"

lemmas db_ok_defs = db_ok_def rules_ok_def log_ok_def queue_ok_def agents_ok_def policies_ok_def
  edges_ok_def assignments_ok_def

lemmas exists_defs = policy_exists_def [abs_def] agent_exists_def [abs_def] rule_exists_def [abs_def]
  log_exists_def [abs_def]

section \<open>Keyed tables\<close>

lemma table_ok_distinct: "table_ok key seq rows \<Longrightarrow> distinct (map key rows)"
  by (simp add: table_ok_def strict_sorted_iff)

lemma table_ok_insert:
  "table_ok key seq rows \<Longrightarrow> key r = seq + 1 \<Longrightarrow> table_ok key (seq + 1) (rows @ [r])"
  by (fastforce simp: table_ok_def sorted_wrt_append)

lemma sorted_wrt_filter_map: "sorted_wrt R (map key rows) \<Longrightarrow> sorted_wrt R (map key (filter P rows))"
  by (induction rows) auto

lemma table_ok_filter: "table_ok key seq rows \<Longrightarrow> table_ok key seq (filter P rows)"
  by (simp add: table_ok_def sorted_wrt_filter_map)

lemma table_ok_map:
  "table_ok key seq rows \<Longrightarrow> (\<And>r. key (f r) = key r) \<Longrightarrow> table_ok key seq (map f rows)"
  by (auto simp: table_ok_def comp_def)

lemma table_ok_new_key: "table_ok key seq rows \<Longrightarrow> seq + 1 \<notin> key ` set rows"
  by (fastforce simp: table_ok_def)

lemma row_by_id_new:
  "table_ok key seq rows \<Longrightarrow> key r = seq + 1 \<Longrightarrow> row_by_id key (rows @ [r]) (Some (seq + 1)) = Some r"
proof -
  assume t: "table_ok key seq rows" and k: "key r = seq + 1"
  have "find (\<lambda>r. key r = seq + 1) rows = None"
    using table_ok_new_key [OF t] by (auto simp: find_None_iff image_iff)
  with k show ?thesis by (simp add: row_by_id_def find_append)
qed

lemma row_by_id_append_old:
  "table_ok key seq rows \<Longrightarrow> key r = seq + 1 \<Longrightarrow> i \<noteq> Some (seq + 1) \<Longrightarrow>
     row_by_id key (rows @ [r]) i = row_by_id key rows i"
  by (auto simp: row_by_id_def find_append split: option.splits)

lemma row_by_id_mem:
  "table_ok key seq rows \<Longrightarrow> r \<in> set rows \<Longrightarrow> row_by_id key rows (Some (key r)) = Some r"
  by (simp add: row_by_id_def table_ok_distinct find_unique_key)

lemma row_by_id_SomeD: "row_by_id key rows i = Some r \<Longrightarrow> r \<in> set rows \<and> i = Some (key r)"
  by (auto simp: row_by_id_def split: option.splits dest: find_SomeD)

lemma row_by_id_NoneD: "row_by_id key rows (Some n) = None \<Longrightarrow> n \<notin> key ` set rows"
  by (auto simp: row_by_id_def find_None_iff)

lemma row_by_id_None [simp]: "row_by_id key rows None = None"
  by (simp add: row_by_id_def)

lemma row_by_id_map:
  "(\<And>r. key (f r) = key r) \<Longrightarrow> row_by_id key (map f rows) i = map_option f (row_by_id key rows i)"
  by (auto simp: row_by_id_def find_map_inv split: option.splits)

text \<open>\<open>UPDATE ... WHERE id = ?\<close> and \<open>DELETE ... WHERE id = ?\<close>; a NULL parameter matches no row.\<close>

definition update_where :: "('r \<Rightarrow> int) \<Rightarrow> int option \<Rightarrow> ('r \<Rightarrow> 'r) \<Rightarrow> 'r list \<Rightarrow> 'r list" where
  "update_where key i f rows = map (\<lambda>r. if Some (key r) = i then f r else r) rows"

definition delete_where :: "('r \<Rightarrow> int) \<Rightarrow> int option \<Rightarrow> 'r list \<Rightarrow> 'r list" where
  "delete_where key i rows = filter (\<lambda>r. Some (key r) \<noteq> i) rows"

lemma update_where_keys [simp]:
  "(\<And>r. Some (key r) = i \<Longrightarrow> key (f r) = key r) \<Longrightarrow> map key (update_where key i f rows) = map key rows"
  by (simp add: update_where_def)

lemma update_where_key_set:
  "(\<And>r. Some (key r) = i \<Longrightarrow> key (f r) = key r) \<Longrightarrow> key ` set (update_where key i f rows) = key ` set rows"
  using update_where_keys [of key i f rows] by (metis list.set_map)

lemma table_ok_update_where:
  "table_ok key seq rows \<Longrightarrow> (\<And>r. Some (key r) = i \<Longrightarrow> key (f r) = key r) \<Longrightarrow>
     table_ok key seq (update_where key i f rows)"
  unfolding update_where_def by (rule table_ok_map) auto

lemma in_update_where:
  "r \<in> set (update_where key i f rows) \<Longrightarrow>
     r \<in> set rows \<or> (\<exists>r0 \<in> set rows. Some (key r0) = i \<and> r = f r0)"
  by (auto simp: update_where_def)

lemma find_update_where:
  "(\<And>r. Some (key r) = i \<Longrightarrow> key (f r) = key r) \<Longrightarrow>
     find (\<lambda>r. key r = k) (update_where key i f rows)
       = map_option (if i = Some k then f else id) (find (\<lambda>r. key r = k) rows)"
  by (induction rows) (auto simp: update_where_def)

lemma row_by_id_update_where:
  "(\<And>r. Some (key r) = i \<Longrightarrow> key (f r) = key r) \<Longrightarrow>
     row_by_id key (update_where key i f rows) j
       = map_option (if i = j then f else id) (row_by_id key rows j)"
  by (simp add: row_by_id_def find_update_where split: option.splits)

lemma update_where_none: "row_by_id key rows i = None \<Longrightarrow> update_where key i f rows = rows"
proof (cases i)
  case (Some n)
  assume "row_by_id key rows i = None"
  with Some show ?thesis
    by (auto simp: row_by_id_def update_where_def find_None_iff intro: map_idI)
qed (simp add: update_where_def)

lemma delete_where_key_set: "key ` set (delete_where key i rows) = key ` set rows - set_option i"
  by (auto simp: delete_where_def)

lemma row_by_id_delete_where:
  "row_by_id key (delete_where key i rows) j = (if i = j then None else row_by_id key rows j)"
proof (cases j)
  case (Some n)
  have "find (\<lambda>r. key r = n) (delete_where key i rows) = (if i = Some n then None else find (\<lambda>r. key r = n) rows)"
    by (induction rows) (auto simp: delete_where_def)
  with Some show ?thesis by (simp add: row_by_id_def)
qed simp

section \<open>Replacing a table\<close>

text \<open>
  The invariant survives a change of one table when the new rows satisfy the constraints of that
  table and no row that other tables may refer to is lost.
\<close>

lemma fk_mono: "fk P v \<Longrightarrow> (\<And>i. P i \<Longrightarrow> Q i) \<Longrightarrow> fk Q v"
  by (cases v) auto

lemma db_ok_set_rules:
  assumes "db_ok d" "table_ok rr_id s rs"
    and "\<And>r. r \<in> set rs \<Longrightarrow> rule_check r \<and> fk (policy_exists d) (rr_policy_id r) \<and> json_strings (rr_methods r) \<noteq> None
        \<and> rr_enabled r \<in> {0, 1}"
    and "rr_id ` set (t_rules d) \<subseteq> rr_id ` set rs"
  shows "db_ok (d\<lparr>t_rules := rs, seq_rules := s\<rparr>)"
  using assms
  by (fastforce simp: db_ok_defs exists_defs elim: fk_mono)

lemma db_ok_drop_rule:
  assumes "db_ok d" "\<forall>l \<in> set (t_log d). lr_rule_id l \<noteq> i"
  shows "db_ok (d\<lparr>t_rules := delete_where rr_id i (t_rules d)\<rparr>)"
proof -
  have "fk (\<lambda>k. k \<in> rr_id ` set (delete_where rr_id i (t_rules d))) (lr_rule_id l)" if "l \<in> set (t_log d)" for l
    using assms that by (cases "lr_rule_id l") (fastforce simp: db_ok_defs exists_defs delete_where_key_set)+
  with assms(1) show ?thesis
    by (simp add: db_ok_defs exists_defs) (simp add: delete_where_def table_ok_filter)
qed

lemma db_ok_set_log:
  assumes "db_ok d" "table_ok lr_id s ls"
    and "\<And>r. r \<in> set ls \<Longrightarrow> log_check r \<and> fk (rule_exists d) (lr_rule_id r)"
    and "lr_id ` set (t_log d) \<subseteq> lr_id ` set ls"
  shows "db_ok (d\<lparr>t_log := ls, seq_log := s\<rparr>)"
  using assms
  by (fastforce simp: db_ok_defs exists_defs)

lemma db_ok_set_queue:
  assumes "db_ok d" "table_ok aq_id s qs"
    and "\<And>r. r \<in> set qs \<Longrightarrow> approval_check r \<and> log_exists d (aq_request_log_id r)
        \<and> (case aq_suggested_methods r of None \<Rightarrow> True | Some t \<Rightarrow> json_strings t \<noteq> None)"
  shows "db_ok (d\<lparr>t_queue := qs, seq_queue := s\<rparr>)"
  using assms by (simp add: db_ok_defs exists_defs)

lemma db_ok_set_agents:
  assumes "db_ok d" "table_ok ar_id s as" "distinct (map ar_name as)"
    and "ar_id ` set (t_agents d) \<subseteq> ar_id ` set as"
  shows "db_ok (d\<lparr>t_agents := as, seq_agents := s\<rparr>)"
  using assms by (fastforce simp: db_ok_defs exists_defs)

lemma db_ok_set_policies:
  assumes "db_ok d" "table_ok pr_id s ps" "distinct (map pr_name ps)"
    and "pr_id ` set (t_policies d) \<subseteq> pr_id ` set ps"
  shows "db_ok (d\<lparr>t_policies := ps, seq_policies := s\<rparr>)"
  using assms by (fastforce simp: db_ok_defs exists_defs elim: fk_mono)

lemma db_ok_set_children:
  assumes "db_ok d" "distinct es" "\<And>p c. (p, c) \<in> set es \<Longrightarrow> policy_exists d p \<and> policy_exists d c \<and> p \<noteq> c"
    and "acyclic (set es)"
  shows "db_ok (d\<lparr>t_children := es\<rparr>)"
  using assms by (auto simp: db_ok_defs exists_defs)

lemma db_ok_set_assignments:
  assumes "db_ok d" "distinct es" "\<And>a p. (a, p) \<in> set es \<Longrightarrow> agent_exists d a \<and> policy_exists d p"
  shows "db_ok (d\<lparr>t_agent_policies := es\<rparr>)"
  using assms by (auto simp: db_ok_defs exists_defs)

text \<open>\<open>ORDER BY key DESC\<close>: rows of equal key stay in rowid order.\<close>

definition order_desc :: "('r \<Rightarrow> int) \<Rightarrow> 'r list \<Rightarrow> 'r list" where
  "order_desc key rows = sort_key (\<lambda>r. - key r) rows"

lemma set_order_desc [simp]: "set (order_desc key rows) = set rows"
  by (simp add: order_desc_def)

lemma order_desc_sorted: "sorted_wrt (\<lambda>x y. key y \<le> key x) (order_desc key rows)"
proof -
  have "sorted (map (\<lambda>r. - key r) (order_desc key rows))" by (simp add: order_desc_def)
  then show ?thesis by (simp add: sorted_wrt_map)
qed

text \<open>
  The sort is stable: rows in the order of another key stay in it among their equals. In rowid
  order, the first row of a scan in this order has the least id.
\<close>

lemma insort_desc_stable:
  assumes "sorted_wrt (\<lambda>x y. key y < key x \<or> key y = key x \<and> ident x \<le> ident y) ys"
    and "\<forall>y \<in> set ys. ident x \<le> (ident y :: int)"
  shows "sorted_wrt (\<lambda>x y. key y < key x \<or> key y = key x \<and> ident x \<le> ident y)
           (insort_key (\<lambda>r. - (key r :: int)) x ys)"
  using assms by (induction ys) (auto simp: set_insort_key)

lemma order_desc_by_key:
  "sorted_wrt (\<le>) (map ident rows) \<Longrightarrow>
     sorted_wrt (\<lambda>x y. key y < key x \<or> key y = key x \<and> ident x \<le> (ident y :: int)) (order_desc key rows)"
proof (induction rows)
  case (Cons a rows)
  then have "\<forall>y \<in> set (sort_key (\<lambda>r. - key r) rows). ident a \<le> ident y" by auto
  with Cons show ?case by (simp add: order_desc_def insort_desc_stable)
qed (simp add: order_desc_def)

lemma order_desc_by_id:
  "sorted_wrt (<) (map ident rows) \<Longrightarrow>
     sorted_wrt (\<lambda>x y. key y < key x \<or> key y = key x \<and> ident x \<le> (ident y :: int)) (order_desc key rows)"
  by (rule order_desc_by_key) (auto simp: strict_sorted_iff)

lemma find_order_desc:
  assumes "sorted_wrt (<) (map ident rows)" "find P (order_desc key rows) = Some x" "y \<in> set rows" "P y"
  shows "key y < key x \<or> key y = key x \<and> ident x \<le> (ident y :: int)"
  using sorted_key_append_find [OF order_desc_by_id [OF assms(1)] assms(2), of y] assms(3,4)
  by (simp add: reflp_def)

lemma filter_order_desc: "filter P (order_desc key rows) = order_desc key (filter P rows)"
  by (simp add: order_desc_def filter_sort)

section \<open>Opening a database\<close>

text \<open>
  \<open>createConnection\<close>: the file's \<open>user_version\<close> is read once; every migration above it runs, in
  order, each in a transaction that ends by raising the version. A table a file of an older
  version does not have yet is empty, and the columns it does not have yet are arbitrary: the
  migration gives them their default.
\<close>

record db_file =
  f_version :: nat
  f_db :: db

definition empty_db :: db where
  "empty_db =
     \<lparr>t_rules = [], seq_rules = 0, t_log = [], seq_log = 0, t_queue = [], seq_queue = 0,
      t_agents = [], seq_agents = 0, t_policies = [], seq_policies = 0,
      t_children = [], t_agent_policies = []\<rparr>"

definition migrate_v1 :: "db \<Rightarrow> db" where
  "migrate_v1 d = d\<lparr>
     t_rules := map (\<lambda>r. r\<lparr>rr_hit_count := 0, rr_hit_count_today := 0, rr_hit_count_date := None\<rparr>) (t_rules d)\<rparr>"

definition migrate_v2 :: "db \<Rightarrow> db" where
  "migrate_v2 d = d\<lparr>t_agents := map (\<lambda>a. a\<lparr>ar_description := []\<rparr>) (t_agents d)\<rparr>"

definition default_policy :: "sql_clock \<Rightarrow> policy_row" where
  "default_policy c =
     \<lparr>pr_id = 1, pr_name = ''default'', pr_description = Some ''Default policy for all rules'',
      pr_created_at = datetime_now c\<rparr>"

definition migrate_v3 :: "sql_clock \<Rightarrow> db \<Rightarrow> db" where
  "migrate_v3 c d = d\<lparr>
     t_policies := [default_policy c], seq_policies := 1, t_children := [], t_agent_policies := [],
     t_rules := map (\<lambda>r. r\<lparr>rr_policy_id := Some 1\<rparr>) (t_rules d)\<rparr>"

definition migrate_v4 :: "db \<Rightarrow> db" where
  "migrate_v4 d = d\<lparr>
     t_agents := map (\<lambda>a. a\<lparr>ar_ip_address := None\<rparr>) (t_agents d),
     t_log := map (\<lambda>r. r\<lparr>lr_mode := Some ''proxy''\<rparr>) (t_log d)\<rparr>"

definition create_connection :: "sql_clock \<Rightarrow> string \<Rightarrow> db_file \<Rightarrow> js_error + db_file" where
  "create_connection c encryption_key f =
     (if encryption_key = [] then Inl TypeErr
      else
        (let v = f_version f;
             f1 = (if v < 1 then \<lparr>f_version = 1, f_db = migrate_v1 (f_db f)\<rparr> else f);
             f2 = (if v < 2 then \<lparr>f_version = 2, f_db = migrate_v2 (f_db f1)\<rparr> else f1);
             f3 = (if v < 3 then \<lparr>f_version = 3, f_db = migrate_v3 c (f_db f2)\<rparr> else f2);
             f4 = (if v < 4 then \<lparr>f_version = 4, f_db = migrate_v4 (f_db f3)\<rparr> else f3)
         in Inr f4))"

text \<open>
  A database as an older server left it: what its version does not have is empty, the rest
  satisfies the invariant.
\<close>

definition file_ok :: "db_file \<Rightarrow> bool" where
  "file_ok f \<longleftrightarrow>
     db_ok (f_db f) \<and>
     (f_version f < 3 \<longrightarrow> t_children (f_db f) = [] \<and> t_agent_policies (f_db f) = []
        \<and> t_policies (f_db f) = [] \<and> (\<forall>r \<in> set (t_rules (f_db f)). rr_policy_id r = None))"

lemma empty_db_ok: "db_ok empty_db"
  by (simp add: db_ok_defs empty_db_def table_ok_def acyclic_def)

lemma new_file_ok: "file_ok \<lparr>f_version = 0, f_db = empty_db\<rparr>"
  using empty_db_ok by (simp add: file_ok_def empty_db_def)

lemma table_ok_singleton: "table_ok key (key r) [r] \<longleftrightarrow> 0 < key r"
  by (auto simp: table_ok_def)

lemma migrate_v1_ok: "db_ok d \<Longrightarrow> db_ok (migrate_v1 d)"
  by (simp add: db_ok_defs migrate_v1_def table_ok_map exists_defs rule_check_def image_image comp_def)

lemma migrate_v2_ok: "db_ok d \<Longrightarrow> db_ok (migrate_v2 d)"
  by (simp add: db_ok_defs migrate_v2_def table_ok_map exists_defs image_image comp_def)

lemma migrate_v3_ok: "db_ok d \<Longrightarrow> db_ok (migrate_v3 c d)"
  by (simp add: db_ok_defs migrate_v3_def table_ok_map exists_defs image_image comp_def rule_check_def
      default_policy_def acyclic_def) (simp add: table_ok_def)

lemma migrate_v4_ok: "db_ok d \<Longrightarrow> db_ok (migrate_v4 d)"
  by (simp add: db_ok_defs migrate_v4_def table_ok_map exists_defs image_image comp_def log_check_def)

lemmas migrate_defs = migrate_v1_def migrate_v2_def migrate_v3_def migrate_v4_def

text \<open>What a migration never touches of a rule: the columns of the base schema.\<close>

definition base_columns :: "rule_row \<Rightarrow> int \<times> string \<times> string \<times> string \<times> string \<times> int \<times> int" where
  "base_columns r = (rr_id r, rr_name r, rr_url_pattern r, rr_methods r, rr_action r, rr_priority r, rr_enabled r)"


text \<open>
  Opening is idempotent: a second start of the server finds version 4 and changes nothing, so
  no migration ever runs twice.
\<close>

theorem migrations_run_once:
  assumes "create_connection c key f = Inr f'"
  shows "create_connection c' key f' = Inr f' \<and> 4 \<le> f_version f'"
  using assms by (auto simp: create_connection_def Let_def split: if_splits)

text \<open>A version-0 file with one rule, opened by this server.\<close>

definition sample_clock :: sql_clock where
  "sample_clock = \<lparr>clk_now = 0, clk_datetime = (\<lambda>t. show_int t), clk_date = (\<lambda>t. show_int (t div 86400))\<rparr>"

definition sample_rule :: rule_row where
  "sample_rule =
     \<lparr>rr_id = 1, rr_name = ''r'', rr_url_pattern = ''x'', rr_methods = ''[]'', rr_action = ''allow'',
      rr_priority = 0, rr_agent_id = None, rr_log_request_body = ''full'', rr_log_response_body = ''full'',
      rr_default_behavior = None, rr_enabled = 1, rr_hit_count = 0, rr_hit_count_today = 0,
      rr_hit_count_date = None, rr_policy_id = None\<rparr>"

definition sample_file :: db_file where
  "sample_file = \<lparr>f_version = 0, f_db = empty_db\<lparr>t_rules := [sample_rule], seq_rules := 1\<rparr>\<rparr>"

lemma sample_methods: "json_strings ''[]'' = Some []"
  using json_strings_strings_json [of "[]"] by (simp add: strings_json_def)

lemma sample_file_ok: "file_ok sample_file"
  using empty_db_ok sample_methods
  by (simp add: file_ok_def sample_file_def db_ok_defs empty_db_def table_ok_def sample_rule_def
      rule_check_def acyclic_def)


theorem migrations_run_once_witness:
  "create_connection sample_clock ''k'' \<lparr>f_version = 4, f_db = empty_db\<rparr> = Inr \<lparr>f_version = 4, f_db = empty_db\<rparr>"
  using migrations_run_once [of sample_clock "''k''" "\<lparr>f_version = 4, f_db = empty_db\<rparr>"
      "\<lparr>f_version = 4, f_db = empty_db\<rparr>" sample_clock]
  by (simp add: create_connection_def)

end
