(* ===== verification/Rules_Dao.thy ===== *)
theory Rules_Dao
  imports Db
begin

text \<open>
  The two rule stores: \<open>dao/sqlite/rules.js\<close> over the \<open>rules\<close> table and
  \<open>dao/jsonfile/rules.js\<close> over a file, and the contract of \<open>dao/interfaces.js\<close> they share, as
  the locale \<open>rule_reader\<close> interpreted on both.

  \<open>new RegExp(p).test(url)\<close> is the engine of JavaScript: the parameter \<open>rx\<close>, with
  \<open>rx p url = None\<close> when \<open>new RegExp(p)\<close> throws.
\<close>

type_synonym regex = "string \<Rightarrow> string \<Rightarrow> bool option"

section \<open>Rule objects\<close>

text \<open>
  The rules the file store makes have no hit counters and no policy; the SQLite rows do, so
  the second record extends the first.
\<close>

record base_rule =
  r_id :: int
  r_name :: string
  r_url_pattern :: string
  r_methods :: "string list"
  r_action :: string
  r_priority :: int
  r_agent_id :: "string option"
  r_log_request_body :: string
  r_log_response_body :: string
  r_default_behavior :: "string option"
  r_enabled :: bool

record rule = base_rule +
  r_hit_count :: int
  r_hit_count_today :: int
  r_hit_count_date :: "string option"
  r_policy_id :: "int option"

text \<open>\<open>deserialize\<close>: \<open>JSON.parse\<close> throws on a malformed \<open>methods\<close> column.\<close>

definition deserialize :: "rule_row \<Rightarrow> js_error + rule" where
  "deserialize row =
     (case json_strings (rr_methods row) of
        None \<Rightarrow> Inl SyntaxErr
      | Some ms \<Rightarrow> Inr
          \<lparr>r_id = rr_id row, r_name = rr_name row, r_url_pattern = rr_url_pattern row, r_methods = ms,
           r_action = rr_action row, r_priority = rr_priority row, r_agent_id = rr_agent_id row,
           r_log_request_body = rr_log_request_body row, r_log_response_body = rr_log_response_body row,
           r_default_behavior = rr_default_behavior row, r_enabled = (rr_enabled row \<noteq> 0),
           r_hit_count = rr_hit_count row, r_hit_count_today = rr_hit_count_today row,
           r_hit_count_date = rr_hit_count_date row, r_policy_id = rr_policy_id row\<rparr>)"

fun map_result :: "('a \<Rightarrow> 'e + 'b) \<Rightarrow> 'a list \<Rightarrow> 'e + 'b list" where
  "map_result f [] = Inr []"
| "map_result f (x # xs) =
     (case f x of
        Inl e \<Rightarrow> Inl e
      | Inr y \<Rightarrow> (case map_result f xs of Inl e \<Rightarrow> Inl e | Inr ys \<Rightarrow> Inr (y # ys)))"

lemma map_result_Inr:
  "(\<And>x. x \<in> set xs \<Longrightarrow> f x = Inr (g x)) \<Longrightarrow> map_result f xs = Inr (map g xs)"
  by (induction xs) auto

text \<open>The rule a row of a well-formed table denotes.\<close>

definition rule_of :: "rule_row \<Rightarrow> rule" where
  "rule_of row = projr (deserialize row)"

lemma deserialize_ok: "json_strings (rr_methods row) \<noteq> None \<Longrightarrow> deserialize row = Inr (rule_of row)"
  by (auto simp: rule_of_def deserialize_def)

lemma rule_of_simps [row_simps]:
  "json_strings (rr_methods row) = Some ms \<Longrightarrow> r_methods (rule_of row) = ms"
  "json_strings (rr_methods row) \<noteq> None \<Longrightarrow> r_id (rule_of row) = rr_id row"
  "json_strings (rr_methods row) \<noteq> None \<Longrightarrow> r_url_pattern (rule_of row) = rr_url_pattern row"
  "json_strings (rr_methods row) \<noteq> None \<Longrightarrow> r_action (rule_of row) = rr_action row"
  "json_strings (rr_methods row) \<noteq> None \<Longrightarrow> r_priority (rule_of row) = rr_priority row"
  "json_strings (rr_methods row) \<noteq> None \<Longrightarrow> r_enabled (rule_of row) = (rr_enabled row \<noteq> 0)"
  "json_strings (rr_methods row) \<noteq> None \<Longrightarrow> r_policy_id (rule_of row) = rr_policy_id row"
  "json_strings (rr_methods row) \<noteq> None \<Longrightarrow> r_hit_count (rule_of row) = rr_hit_count row"
  by (auto simp: rule_of_def deserialize_def)

lemma rules_okD:
  assumes "db_ok d" "row \<in> set (t_rules d)"
  shows "json_strings (rr_methods row) \<noteq> None" "rule_check row" "fk (policy_exists d) (rr_policy_id row)"
    "deserialize row = Inr (rule_of row)"
  using assms deserialize_ok by (auto simp: db_ok_def rules_ok_def)

lemma rules_table_ok: "db_ok d \<Longrightarrow> table_ok rr_id (seq_rules d) (t_rules d)"
  by (simp add: db_ok_def rules_ok_def)

section \<open>SQLite: reading\<close>

definition get_rule :: "db \<Rightarrow> int option \<Rightarrow> js_error + rule option" where
  "get_rule d i =
     (case row_by_id rr_id (t_rules d) i of
        None \<Rightarrow> Inr None
      | Some row \<Rightarrow> (case deserialize row of Inl e \<Rightarrow> Inl e | Inr r \<Rightarrow> Inr (Some r)))"

text \<open>\<open>list(filter)\<close>: a \<open>policy_id\<close> of 0 is falsy and does not filter.\<close>

definition list_rules :: "db \<Rightarrow> int option \<Rightarrow> js_error + rule list" where
  "list_rules d policy =
     (if policy \<noteq> None \<and> policy \<noteq> Some 0
      then map_result deserialize (order_desc rr_priority (filter (\<lambda>row. rr_policy_id row = policy) (t_rules d)))
      else map_result deserialize (order_desc rr_priority (t_rules d)))"

text \<open>
  \<open>match\<close>: the loop over the enabled rows; an invalid pattern or a malformed \<open>methods\<close> column
  is caught and skips the row.
\<close>

fun match_rows :: "regex \<Rightarrow> string \<Rightarrow> string \<Rightarrow> int option \<Rightarrow> rule_row list \<Rightarrow> rule option" where
  "match_rows rx url meth policy [] = None"
| "match_rows rx url meth policy (row # rows) =
     (if policy \<noteq> None \<and> rr_policy_id row \<noteq> policy then match_rows rx url meth policy rows
      else
        (case rx (rr_url_pattern row) url of
           None \<Rightarrow> match_rows rx url meth policy rows
         | Some False \<Rightarrow> match_rows rx url meth policy rows
         | Some True \<Rightarrow>
             (case json_strings (rr_methods row) of
                None \<Rightarrow> match_rows rx url meth policy rows
              | Some ms \<Rightarrow>
                  if 0 < length ms \<and> ''*'' \<notin> set ms \<and> meth \<notin> set ms
                  then match_rows rx url meth policy rows
                  else (case deserialize row of Inl _ \<Rightarrow> match_rows rx url meth policy rows | Inr r \<Rightarrow> Some r))))"

definition match_rule :: "regex \<Rightarrow> db \<Rightarrow> string \<Rightarrow> string \<Rightarrow> int option \<Rightarrow> rule option" where
  "match_rule rx d url meth policy =
     match_rows rx url meth policy (order_desc rr_priority (filter (\<lambda>row. rr_enabled row = 1) (t_rules d)))"

section \<open>SQLite: writing\<close>

record rule_input =
  ri_name :: "string option"
  ri_url_pattern :: "string option"
  ri_methods :: "string list option"
  ri_action :: "string option"
  ri_priority :: "int option"
  ri_agent_id :: "string option"
  ri_log_request_body :: "string option"
  ri_log_response_body :: "string option"
  ri_default_behavior :: "string option"
  ri_enabled :: "bool option"
  ri_policy_id :: "int option"

text \<open>The \<open>??\<close> of JavaScript.\<close>

definition or_else :: "'a option \<Rightarrow> 'a \<Rightarrow> 'a" where
  "or_else v dflt = (case v of None \<Rightarrow> dflt | Some x \<Rightarrow> x)"

lemma or_else_simps [simp]: "or_else None x = x" "or_else (Some y) x = y"
  by (simp_all add: or_else_def)

definition new_rule_row :: "int \<Rightarrow> rule_input \<Rightarrow> string \<Rightarrow> string \<Rightarrow> string \<Rightarrow> rule_row" where
  "new_rule_row i inp name pattern action =
     \<lparr>rr_id = i, rr_name = name, rr_url_pattern = pattern,
      rr_methods = strings_json (or_else (ri_methods inp) []), rr_action = action,
      rr_priority = or_else (ri_priority inp) 0, rr_agent_id = ri_agent_id inp,
      rr_log_request_body = or_else (ri_log_request_body inp) ''full'',
      rr_log_response_body = or_else (ri_log_response_body inp) ''full'',
      rr_default_behavior = ri_default_behavior inp,
      rr_enabled = (if or_else (ri_enabled inp) True then 1 else 0),
      rr_hit_count = 0, rr_hit_count_today = 0, rr_hit_count_date = None,
      rr_policy_id = ri_policy_id inp\<rparr>"

definition insert_rule :: "db \<Rightarrow> rule_input \<Rightarrow> js_error + db \<times> int" where
  "insert_rule d inp =
     (case (ri_name inp, ri_url_pattern inp, ri_action inp) of
        (Some name, Some pattern, Some action) \<Rightarrow>
          (let i = seq_rules d + 1; row = new_rule_row i inp name pattern action in
           if \<not> rule_check row then Inl (Sqlite Check)
           else if \<not> fk (policy_exists d) (rr_policy_id row) then Inl (Sqlite ForeignKey)
           else Inr (d\<lparr>t_rules := t_rules d @ [row], seq_rules := i\<rparr>, i))
      | _ \<Rightarrow> Inl (Sqlite NotNull))"

definition create_rule :: "db \<Rightarrow> rule_input \<Rightarrow> js_error + db \<times> rule option" where
  "create_rule d inp =
     (case insert_rule d inp of
        Inl e \<Rightarrow> Inl e
      | Inr (d', i) \<Rightarrow> (case get_rule d' (Some i) of Inl e \<Rightarrow> Inl e | Inr r \<Rightarrow> Inr (d', r)))"

text \<open>One entry of \<open>changes\<close>; \<open>None\<close> is the value null.\<close>

datatype rule_change =
    ChId
  | ChName "string option"
  | ChUrlPattern "string option"
  | ChMethods "string list"
  | ChAction "string option"
  | ChPriority "int option"
  | ChAgentId "string option"
  | ChLogRequestBody "string option"
  | ChLogResponseBody "string option"
  | ChDefaultBehavior "string option"
  | ChEnabled bool
  | ChHitCount "int option"
  | ChHitCountToday "int option"
  | ChHitCountDate "string option"
  | ChPolicyId "int option"
  | ChOther string

definition set_col :: "'v option \<Rightarrow> ('v \<Rightarrow> rule_row) \<Rightarrow> js_error + rule_row" where
  "set_col v f = (case v of None \<Rightarrow> Inl (Sqlite NotNull) | Some x \<Rightarrow> Inr (f x))"

fun apply_change :: "rule_change \<Rightarrow> rule_row \<Rightarrow> js_error + rule_row" where
  "apply_change ChId r = Inr r"
| "apply_change (ChName v) r = set_col v (\<lambda>x. r\<lparr>rr_name := x\<rparr>)"
| "apply_change (ChUrlPattern v) r = set_col v (\<lambda>x. r\<lparr>rr_url_pattern := x\<rparr>)"
| "apply_change (ChMethods ms) r = Inr (r\<lparr>rr_methods := strings_json ms\<rparr>)"
| "apply_change (ChAction v) r = set_col v (\<lambda>x. r\<lparr>rr_action := x\<rparr>)"
| "apply_change (ChPriority v) r = set_col v (\<lambda>x. r\<lparr>rr_priority := x\<rparr>)"
| "apply_change (ChAgentId v) r = Inr (r\<lparr>rr_agent_id := v\<rparr>)"
| "apply_change (ChLogRequestBody v) r = set_col v (\<lambda>x. r\<lparr>rr_log_request_body := x\<rparr>)"
| "apply_change (ChLogResponseBody v) r = set_col v (\<lambda>x. r\<lparr>rr_log_response_body := x\<rparr>)"
| "apply_change (ChDefaultBehavior v) r = Inr (r\<lparr>rr_default_behavior := v\<rparr>)"
| "apply_change (ChEnabled b) r = Inr (r\<lparr>rr_enabled := (if b then 1 else 0)\<rparr>)"
| "apply_change (ChHitCount v) r = set_col v (\<lambda>x. r\<lparr>rr_hit_count := x\<rparr>)"
| "apply_change (ChHitCountToday v) r = set_col v (\<lambda>x. r\<lparr>rr_hit_count_today := x\<rparr>)"
| "apply_change (ChHitCountDate v) r = Inr (r\<lparr>rr_hit_count_date := v\<rparr>)"
| "apply_change (ChPolicyId v) r = Inr (r\<lparr>rr_policy_id := v\<rparr>)"
| "apply_change (ChOther k) r = Inl (Sqlite (NoSuchColumn k))"

fun apply_changes :: "rule_change list \<Rightarrow> rule_row \<Rightarrow> js_error + rule_row" where
  "apply_changes [] r = Inr r"
| "apply_changes (c # cs) r = (case apply_change c r of Inl e \<Rightarrow> Inl e | Inr r' \<Rightarrow> apply_changes cs r')"

text \<open>
  \<open>update\<close>: the statement names the changed columns, so an unknown one makes \<open>prepare\<close> throw
  before anything runs; constraints are checked on the resulting row.
\<close>

definition unknown_columns :: "rule_change list \<Rightarrow> string list" where
  "unknown_columns cs = concat (map (\<lambda>c. case c of ChOther k \<Rightarrow> [k] | _ \<Rightarrow> []) cs)"

definition run_rule_update :: "db \<Rightarrow> int option \<Rightarrow> rule_change list \<Rightarrow> rule_row \<Rightarrow> js_error + db" where
  "run_rule_update d i cols row =
     (if unknown_columns cols \<noteq> [] then Inl (Sqlite (NoSuchColumn (hd (unknown_columns cols))))
      else
        (case apply_changes cols row of
           Inl e \<Rightarrow> Inl e
         | Inr row' \<Rightarrow>
             if \<not> rule_check row' then Inl (Sqlite Check)
             else if \<not> fk (policy_exists d) (rr_policy_id row') then Inl (Sqlite ForeignKey)
             else Inr (d\<lparr>t_rules := update_where rr_id i (\<lambda>_. row') (t_rules d)\<rparr>)))"

definition update_rule :: "db \<Rightarrow> int option \<Rightarrow> rule_change list \<Rightarrow> js_error + db \<times> rule option" where
  "update_rule d i changes =
     (case row_by_id rr_id (t_rules d) i of
        None \<Rightarrow> Inr (d, None)
      | Some row \<Rightarrow>
          (let cols = filter (\<lambda>c. c \<noteq> ChId) changes in
           (case (if cols \<noteq> [] then run_rule_update d i cols row else Inr d) of
              Inl e \<Rightarrow> Inl e
            | Inr d' \<Rightarrow> (case get_rule d' i of Inl e \<Rightarrow> Inl e | Inr r \<Rightarrow> Inr (d', r)))))"

definition move_to_policy :: "db \<Rightarrow> int option \<Rightarrow> int option \<Rightarrow> js_error + db \<times> rule option" where
  "move_to_policy d i policy =
     (if row_by_id rr_id (t_rules d) i \<noteq> None \<and> \<not> fk (policy_exists d) policy then Inl (Sqlite ForeignKey)
      else
        (let d' = d\<lparr>t_rules := update_where rr_id i (\<lambda>row. row\<lparr>rr_policy_id := policy\<rparr>) (t_rules d)\<rparr>
         in (case get_rule d' i of Inl e \<Rightarrow> Inl e | Inr r \<Rightarrow> Inr (d', r))))"

text \<open>\<open>delete\<close>: ON DELETE SET NULL clears the reference in the log.\<close>

definition clear_rule_refs :: "int option \<Rightarrow> log_row list \<Rightarrow> log_row list" where
  "clear_rule_refs i = map (\<lambda>l. if lr_rule_id l = i then l\<lparr>lr_rule_id := None\<rparr> else l)"

definition delete_rule :: "db \<Rightarrow> int option \<Rightarrow> db" where
  "delete_rule d i =
     (if row_by_id rr_id (t_rules d) i = None then d
      else d\<lparr>t_log := clear_rule_refs i (t_log d), t_rules := delete_where rr_id i (t_rules d)\<rparr>)"

definition hit :: "sql_clock \<Rightarrow> rule_row \<Rightarrow> rule_row" where
  "hit c row = row\<lparr>
     rr_hit_count := rr_hit_count row + 1,
     rr_hit_count_today := (if rr_hit_count_date row = Some (date_now c) then rr_hit_count_today row + 1 else 1),
     rr_hit_count_date := Some (date_now c)\<rparr>"

definition increment_hit_count :: "sql_clock \<Rightarrow> db \<Rightarrow> int option \<Rightarrow> db" where
  "increment_hit_count c d i = d\<lparr>t_rules := update_where rr_id i (hit c) (t_rules d)\<rparr>"

section \<open>The matching loop\<close>

definition method_hits :: "string \<Rightarrow> string list \<Rightarrow> bool" where
  "method_hits meth ms \<longleftrightarrow> ms = [] \<or> ''*'' \<in> set ms \<or> meth \<in> set ms"

definition in_scope :: "int option \<Rightarrow> rule_row \<Rightarrow> bool" where
  "in_scope policy row \<longleftrightarrow> policy = None \<or> rr_policy_id row = policy"

definition row_applies :: "regex \<Rightarrow> string \<Rightarrow> string \<Rightarrow> rule_row \<Rightarrow> bool" where
  "row_applies rx url meth row \<longleftrightarrow>
     rx (rr_url_pattern row) url = Some True \<and> method_hits meth (the (json_strings (rr_methods row)))"

lemma match_rows_find:
  "(\<And>row. row \<in> set rows \<Longrightarrow> json_strings (rr_methods row) \<noteq> None) \<Longrightarrow>
     match_rows rx url meth policy rows
       = map_option rule_of (find (\<lambda>row. in_scope policy row \<and> row_applies rx url meth row) rows)"
proof (induction rows)
  case (Cons row rows)
  have j: "json_strings (rr_methods row) \<noteq> None" using Cons.prems by simp
  then obtain ms where ms: "json_strings (rr_methods row) = Some ms" by blast
  have ih: "match_rows rx url meth policy rows
       = map_option rule_of (find (\<lambda>row. in_scope policy row \<and> row_applies rx url meth row) rows)"
    using Cons.IH Cons.prems by simp
  have applies: "row_applies rx url meth row
      \<longleftrightarrow> rx (rr_url_pattern row) url = Some True \<and> (ms = [] \<or> ''*'' \<in> set ms \<or> meth \<in> set ms)"
    by (simp add: row_applies_def method_hits_def ms)
  have scope: "in_scope p row \<longleftrightarrow> p = None \<or> rr_policy_id row = p" for p
    by (simp add: in_scope_def)
  show ?case
  proof (cases "rx (rr_url_pattern row) url")
    case None
    then show ?thesis by (simp add: ih applies)
  next
    case (Some b)
    then show ?thesis
      by (cases b; cases policy) (use ih in \<open>auto simp: applies scope ms deserialize_ok [OF j]\<close>)
  qed
qed simp

lemma match_rule_find:
  assumes "db_ok d"
  shows "match_rule rx d url meth policy
    = map_option rule_of (find (\<lambda>row. rr_enabled row = 1 \<and> in_scope policy row \<and> row_applies rx url meth row)
        (order_desc rr_priority (t_rules d)))"
proof -
  have "match_rule rx d url meth policy
    = map_option rule_of (find (\<lambda>row. in_scope policy row \<and> row_applies rx url meth row)
        (filter (\<lambda>row. rr_enabled row = 1) (order_desc rr_priority (t_rules d))))"
    unfolding match_rule_def filter_order_desc [symmetric]
    by (rule match_rows_find) (use rules_okD [OF assms] in auto)
  also have "find (\<lambda>row. in_scope policy row \<and> row_applies rx url meth row)
        (filter (\<lambda>row. rr_enabled row = 1) (order_desc rr_priority (t_rules d)))
      = find (\<lambda>row. rr_enabled row = 1 \<and> in_scope policy row \<and> row_applies rx url meth row)
        (order_desc rr_priority (t_rules d))"
    by (simp add: find_filter)
  finally show ?thesis .
qed

lemma list_rules_ok:
  assumes "db_ok d"
  shows "list_rules d None = Inr (map rule_of (order_desc rr_priority (t_rules d)))"
  by (simp add: list_rules_def) (rule map_result_Inr, use rules_okD [OF assms] in auto)

lemma get_rule_ok:
  assumes "db_ok d"
  shows "get_rule d i = Inr (map_option rule_of (row_by_id rr_id (t_rules d) i))"
  using rules_okD [OF assms] by (auto simp: get_rule_def split: option.splits dest!: row_by_id_SomeD)

section \<open>Every write keeps the invariant\<close>

lemma get_rule_set:
  "get_rule (d\<lparr>t_log := ls\<rparr>) i = get_rule d i" "get_rule (d\<lparr>seq_rules := n\<rparr>) i = get_rule d i"
  by (simp_all add: get_rule_def)

lemma insert_rule_ok:
  assumes "db_ok d" "insert_rule d inp = Inr (d', i)"
  shows "db_ok d'" "i = seq_rules d + 1"
    "\<exists>name pattern action. ri_name inp = Some name \<and> ri_url_pattern inp = Some pattern
       \<and> ri_action inp = Some action
       \<and> d' = d\<lparr>t_rules := t_rules d @ [new_rule_row i inp name pattern action], seq_rules := i\<rparr>"
proof -
  from assms(2) obtain name pattern action where
    cols: "ri_name inp = Some name" "ri_url_pattern inp = Some pattern" "ri_action inp = Some action"
    and i: "i = seq_rules d + 1"
    and chk: "rule_check (new_rule_row i inp name pattern action)"
    and fkp: "fk (policy_exists d) (rr_policy_id (new_rule_row i inp name pattern action))"
    and d': "d' = d\<lparr>t_rules := t_rules d @ [new_rule_row i inp name pattern action], seq_rules := i\<rparr>"
    by (auto simp: insert_rule_def Let_def split: option.splits if_splits)
  from i show "i = seq_rules d + 1" .
  from cols d' show "\<exists>name pattern action. ri_name inp = Some name \<and> ri_url_pattern inp = Some pattern
       \<and> ri_action inp = Some action
       \<and> d' = d\<lparr>t_rules := t_rules d @ [new_rule_row i inp name pattern action], seq_rules := i\<rparr>" by blast
  have t: "table_ok rr_id i (t_rules d @ [new_rule_row i inp name pattern action])"
    unfolding i by (rule table_ok_insert [OF rules_table_ok [OF assms(1)]]) (simp add: new_rule_row_def)
  have "rule_check r \<and> fk (policy_exists d) (rr_policy_id r) \<and> json_strings (rr_methods r) \<noteq> None
      \<and> rr_enabled r \<in> {0, 1}"
    if "r \<in> set (t_rules d @ [new_rule_row i inp name pattern action])" for r
    using that assms(1) chk fkp by (auto simp: db_ok_def rules_ok_def new_rule_row_def)
  from db_ok_set_rules [OF assms(1) t this] show "db_ok d'" unfolding d' by auto
qed

lemma apply_change_keeps:
  assumes "apply_change c r = Inr r'" "json_strings (rr_methods r) \<noteq> None" "rr_enabled r \<in> {0, 1}"
  shows "rr_id r' = rr_id r \<and> json_strings (rr_methods r') \<noteq> None \<and> rr_enabled r' \<in> {0, 1}"
  using assms by (cases c) (auto simp: set_col_def split: option.splits)

lemma apply_changes_keeps:
  "apply_changes cs r = Inr r' \<Longrightarrow> json_strings (rr_methods r) \<noteq> None \<Longrightarrow> rr_enabled r \<in> {0, 1} \<Longrightarrow>
     rr_id r' = rr_id r \<and> json_strings (rr_methods r') \<noteq> None \<and> rr_enabled r' \<in> {0, 1}"
proof (induction cs arbitrary: r)
  case (Cons c cs)
  then obtain r1 where "apply_change c r = Inr r1" "apply_changes cs r1 = Inr r'"
    by (auto split: sum.splits)
  with Cons.IH [of r1] Cons.prems apply_change_keeps [of c r r1] show ?case by auto
qed simp

lemma run_rule_update_Inr:
  assumes "run_rule_update d i cols row = Inr d'"
  shows "\<exists>row'. apply_changes cols row = Inr row' \<and> rule_check row' \<and> fk (policy_exists d) (rr_policy_id row')
    \<and> d' = d\<lparr>t_rules := update_where rr_id i (\<lambda>_. row') (t_rules d)\<rparr>"
  using assms by (auto simp: run_rule_update_def split: if_splits sum.splits)

lemma update_where_self:
  assumes "table_ok key seq rows" "row_by_id key rows i = Some row"
  shows "update_where key i (\<lambda>_. row) rows = rows"
  unfolding update_where_def
proof (rule map_idI)
  fix x assume "x \<in> set rows"
  from row_by_id_mem [OF assms(1) this] assms(2) show "(if Some (key x) = i then row else x) = x" by auto
qed

lemma replace_rule_row_ok:
  assumes "db_ok d" "i = Some (rr_id row)" "rr_id row' = rr_id row" "rule_check row'"
    and "fk (policy_exists d) (rr_policy_id row')" "json_strings (rr_methods row') \<noteq> None" "rr_enabled row' \<in> {0, 1}"
  shows "db_ok (d\<lparr>t_rules := update_where rr_id i (\<lambda>_. row') (t_rules d)\<rparr>)"
proof -
  have same: "\<And>r. Some (rr_id r) = i \<Longrightarrow> rr_id row' = rr_id r" using assms(2,3) by simp
  have "db_ok (d\<lparr>t_rules := update_where rr_id i (\<lambda>_. row') (t_rules d), seq_rules := seq_rules d\<rparr>)"
  proof (rule db_ok_set_rules [OF assms(1)])
    show "table_ok rr_id (seq_rules d) (update_where rr_id i (\<lambda>_. row') (t_rules d))"
      by (rule table_ok_update_where [OF rules_table_ok [OF assms(1)] same])
    fix r assume "r \<in> set (update_where rr_id i (\<lambda>_. row') (t_rules d))"
    then have "r = row' \<or> r \<in> set (t_rules d)" by (auto dest: in_update_where)
    then show "rule_check r \<and> fk (policy_exists d) (rr_policy_id r) \<and> json_strings (rr_methods r) \<noteq> None
      \<and> rr_enabled r \<in> {0, 1}"
      using assms by (auto simp: db_ok_def rules_ok_def)
  qed (use update_where_key_set [where key = rr_id and i = i and f = "\<lambda>_. row'" and rows = "t_rules d", OF same] in simp)
  then show ?thesis by simp
qed

text \<open>The row an update leaves, when the rule exists and the statement succeeds.\<close>

lemma update_rule_Inr:
  assumes "db_ok d" "update_rule d i cs = Inr (d', res)"
  obtains "row_by_id rr_id (t_rules d) i = None" "d' = d" "res = None"
  | row row' where "row_by_id rr_id (t_rules d) i = Some row" "i = Some (rr_id row)"
      "apply_changes (filter (\<lambda>c. c \<noteq> ChId) cs) row = Inr row'" "rr_id row' = rr_id row"
      "d' = d\<lparr>t_rules := update_where rr_id i (\<lambda>_. row') (t_rules d)\<rparr>" "db_ok d'" "res = Some (rule_of row')"
proof (cases "row_by_id rr_id (t_rules d) i")
  case None
  then have "d' = d" "res = None" using assms(2) by (simp_all add: update_rule_def)
  from that(1) [OF None this] show ?thesis .
next
  case (Some row)
  note mem = row_by_id_SomeD [OF Some]
  note row_ok = rules_okD [OF assms(1) conjunct1 [OF mem]]
  have en: "rr_enabled row \<in> {0, 1}" using assms(1) mem by (auto simp: db_ok_def rules_ok_def)
  define cols where "cols = filter (\<lambda>c. c \<noteq> ChId) cs"
  have run: "(if cols \<noteq> [] then run_rule_update d i cols row else Inr d) = Inr d'"
    and got: "get_rule d' i = Inr res"
    using assms(2) unfolding update_rule_def Some cols_def [symmetric] Let_def
    by (auto split: sum.splits if_splits)
  have "\<exists>row'. apply_changes cols row = Inr row' \<and> rule_check row' \<and> fk (policy_exists d) (rr_policy_id row')
    \<and> d' = d\<lparr>t_rules := update_where rr_id i (\<lambda>_. row') (t_rules d)\<rparr>"
  proof (cases "cols = []")
    case True
    have "t_rules d = update_where rr_id i (\<lambda>_. row) (t_rules d)"
      by (simp add: update_where_self [OF rules_table_ok [OF assms(1)] Some])
    then have "d = d\<lparr>t_rules := update_where rr_id i (\<lambda>_. row) (t_rules d)\<rparr>" by simp
    moreover have "d' = d" using run True by simp
    ultimately show ?thesis using True row_ok by auto
  next
    case False
    with run have "run_rule_update d i cols row = Inr d'" by simp
    from run_rule_update_Inr [OF this] show ?thesis .
  qed
  then obtain row' where row': "apply_changes cols row = Inr row'" "rule_check row'"
      "fk (policy_exists d) (rr_policy_id row')"
      "d' = d\<lparr>t_rules := update_where rr_id i (\<lambda>_. row') (t_rules d)\<rparr>" by blast
  from apply_changes_keeps [OF row'(1) row_ok(1) en]
  have keep: "rr_id row' = rr_id row" "json_strings (rr_methods row') \<noteq> None" "rr_enabled row' \<in> {0, 1}" by auto
  have ok: "db_ok d'"
    unfolding row'(4) using replace_rule_row_ok [OF assms(1) conjunct2 [OF mem] keep(1) row'(2,3) keep(2,3)] .
  have same: "\<And>r. Some (rr_id r) = i \<Longrightarrow> rr_id row' = rr_id r" using mem keep by simp
  have "res = Some (rule_of row')"
    using got unfolding get_rule_ok [OF ok] by (simp add: row'(4) row_by_id_update_where [where key = rr_id and i = i and f = "\<lambda>_. row'", OF same] Some)
  from that(2) [OF Some conjunct2 [OF mem] row'(1) [unfolded cols_def] keep(1) row'(4) ok this] show ?thesis .
qed

lemma move_to_policy_ok:
  assumes "db_ok d" "move_to_policy d i p = Inr (d', res)"
  shows "db_ok d'" "res = map_option (\<lambda>row. rule_of (row\<lparr>rr_policy_id := p\<rparr>)) (row_by_id rr_id (t_rules d) i)"
proof -
  let ?rs = "update_where rr_id i (\<lambda>row. row\<lparr>rr_policy_id := p\<rparr>) (t_rules d)"
  from assms(2) have d': "d' = d\<lparr>t_rules := ?rs\<rparr>"
    and fkp: "row_by_id rr_id (t_rules d) i \<noteq> None \<Longrightarrow> fk (policy_exists d) p"
    by (auto simp: move_to_policy_def Let_def split: if_splits sum.splits)
  have "db_ok (d\<lparr>t_rules := ?rs, seq_rules := seq_rules d\<rparr>)"
  proof (rule db_ok_set_rules [OF assms(1)])
    show "table_ok rr_id (seq_rules d) ?rs"
      by (rule table_ok_update_where [OF rules_table_ok [OF assms(1)]]) simp
    fix r assume "r \<in> set ?rs"
    then consider "r \<in> set (t_rules d)"
      | r0 where "r0 \<in> set (t_rules d)" "Some (rr_id r0) = i" "r = r0\<lparr>rr_policy_id := p\<rparr>"
      by (auto dest: in_update_where)
    then show "rule_check r \<and> fk (policy_exists d) (rr_policy_id r) \<and> json_strings (rr_methods r) \<noteq> None
      \<and> rr_enabled r \<in> {0, 1}"
    proof cases
      case 2
      with fkp row_by_id_mem [OF rules_table_ok [OF assms(1)] 2(1)] assms(1) show ?thesis
        by (auto simp: db_ok_def rules_ok_def rule_check_def)
    qed (use assms(1) in \<open>auto simp: db_ok_def rules_ok_def\<close>)
  qed (simp add: update_where_key_set)
  then show ok: "db_ok d'" by (simp add: d')
  have "get_rule d' i = Inr res"
    using assms(2) by (auto simp: move_to_policy_def Let_def split: if_splits sum.splits)
  then show "res = map_option (\<lambda>row. rule_of (row\<lparr>rr_policy_id := p\<rparr>)) (row_by_id rr_id (t_rules d) i)"
    unfolding get_rule_ok [OF ok] by (simp add: d' row_by_id_update_where option.map_comp comp_def)
qed

lemma clear_rule_refs_ids: "map lr_id (clear_rule_refs i ls) = map lr_id ls"
  by (simp add: clear_rule_refs_def)

lemma clear_rule_refs_none: "i \<noteq> None \<Longrightarrow> l \<in> set (clear_rule_refs i ls) \<Longrightarrow> lr_rule_id l \<noteq> i"
  by (auto simp: clear_rule_refs_def)

lemma clear_rule_refs_ok:
  assumes "db_ok d"
  shows "db_ok (d\<lparr>t_log := clear_rule_refs i (t_log d)\<rparr>)"
proof -
  have "db_ok (d\<lparr>t_log := clear_rule_refs i (t_log d), seq_log := seq_log d\<rparr>)"
  proof (rule db_ok_set_log [OF assms])
    show "table_ok lr_id (seq_log d) (clear_rule_refs i (t_log d))"
      unfolding clear_rule_refs_def by (rule table_ok_map) (use assms in \<open>auto simp: db_ok_def log_ok_def\<close>)
    show "lr_id ` set (t_log d) \<subseteq> lr_id ` set (clear_rule_refs i (t_log d))"
      using clear_rule_refs_ids by (metis list.set_map order_refl)
  qed (use assms in \<open>auto simp: db_ok_def log_ok_def log_check_def clear_rule_refs_def\<close>)
  then show ?thesis by simp
qed

lemma delete_rule_ok: "db_ok d \<Longrightarrow> db_ok (delete_rule d i)"
proof (cases "row_by_id rr_id (t_rules d) i")
  case (Some row)
  assume ok: "db_ok d"
  define ls where "ls = clear_rule_refs i (t_log d)"
  have "i \<noteq> None" using Some by (cases i) simp_all
  then have "\<forall>l \<in> set (t_log (d\<lparr>t_log := ls\<rparr>)). lr_rule_id l \<noteq> i"
    using clear_rule_refs_none by (simp add: ls_def)
  from db_ok_drop_rule [OF clear_rule_refs_ok [OF ok, of i, folded ls_def] this]
  show ?thesis by (simp add: delete_rule_def Some ls_def [symmetric])
qed (simp add: delete_rule_def)

lemma increment_hit_count_ok: "db_ok d \<Longrightarrow> db_ok (increment_hit_count c d i)"
proof -
  assume ok: "db_ok d"
  have "db_ok (d\<lparr>t_rules := update_where rr_id i (hit c) (t_rules d), seq_rules := seq_rules d\<rparr>)"
    by (rule db_ok_set_rules [OF ok table_ok_update_where [OF rules_table_ok [OF ok]]])
      (use ok in \<open>auto simp: hit_def update_where_key_set db_ok_def rules_ok_def rule_check_def dest!: in_update_where\<close>)
  then show ?thesis by (simp add: increment_hit_count_def)
qed

lemma create_rule_ok:
  assumes "db_ok d" "create_rule d inp = Inr (d', res)"
  shows "db_ok d'"
  using assms insert_rule_ok(1) by (fastforce simp: create_rule_def split: sum.splits)

lemma update_rule_ok: "db_ok d \<Longrightarrow> update_rule d i cs = Inr (d', res) \<Longrightarrow> db_ok d'"
  using update_rule_Inr by blast

section \<open>The file store\<close>

text \<open>
  \<open>reload\<close>: the rules array of the parsed file, in the schema the store reads. \<open>url_pattern\<close> and
  \<open>action\<close> are given in every entry; every other key has a default.
\<close>

record file_entry =
  fe_name :: "string option"
  fe_url_pattern :: string
  fe_methods :: "string list option"
  fe_action :: string
  fe_priority :: "int option"
  fe_agent_id :: "string option"
  fe_log_request_body :: "string option"
  fe_log_response_body :: "string option"
  fe_default_behavior :: "string option"
  fe_enabled :: "bool option"

definition entry_rule :: "nat \<times> file_entry \<Rightarrow> base_rule" where
  "entry_rule ie = (case ie of (i, e) \<Rightarrow>
     \<lparr>r_id = int i + 1, r_name = or_else (fe_name e) [], r_url_pattern = fe_url_pattern e,
      r_methods = or_else (fe_methods e) [], r_action = fe_action e, r_priority = or_else (fe_priority e) 0,
      r_agent_id = fe_agent_id e,
      r_log_request_body = or_else (fe_log_request_body e) ''full'',
      r_log_response_body = or_else (fe_log_response_body e) ''full'',
      r_default_behavior = fe_default_behavior e, r_enabled = (fe_enabled e \<noteq> Some False)\<rparr>)"

text \<open>
  The argument is what \<open>JSON.parse(readFileSync(path))\<close> gives: an error, or the \<open>rules\<close> key of the
  document (\<open>None\<close> when it has none).
\<close>

definition reload_rules :: "js_error + file_entry list option \<Rightarrow> js_error + base_rule list" where
  "reload_rules data =
     (case data of
        Inl e \<Rightarrow> Inl e
      | Inr rules \<Rightarrow> Inr (order_desc r_priority (map entry_rule (enumerate 0 (or_else rules [])))))"

definition file_list :: "base_rule list \<Rightarrow> js_error + base_rule list" where
  "file_list rules = Inr rules"

definition file_get :: "base_rule list \<Rightarrow> int option \<Rightarrow> js_error + base_rule option" where
  "file_get rules i = Inr (find (\<lambda>r. Some (r_id r) = i) rules)"

fun file_match :: "regex \<Rightarrow> base_rule list \<Rightarrow> string \<Rightarrow> string \<Rightarrow> base_rule option" where
  "file_match rx [] url meth = None"
| "file_match rx (rule # rules) url meth =
     (if \<not> r_enabled rule then file_match rx rules url meth
      else
        (case rx (r_url_pattern rule) url of
           None \<Rightarrow> file_match rx rules url meth
         | Some False \<Rightarrow> file_match rx rules url meth
         | Some True \<Rightarrow>
             if 0 < length (r_methods rule) \<and> meth \<notin> set (r_methods rule) then file_match rx rules url meth
             else Some rule))"

definition file_create :: "base_rule list \<Rightarrow> rule_input \<Rightarrow> js_error + base_rule list \<times> base_rule option" where
  "file_create rules inp = Inl ReadOnly"

definition file_update :: "base_rule list \<Rightarrow> int option \<Rightarrow> rule_change list \<Rightarrow> js_error + base_rule list \<times> base_rule option" where
  "file_update rules i changes = Inl ReadOnly"

definition file_delete :: "base_rule list \<Rightarrow> int option \<Rightarrow> js_error + base_rule list" where
  "file_delete rules i = Inl ReadOnly"

text \<open>The store inherits this method of the interface class, which rejects.\<close>

definition file_increment_hit_count :: "base_rule list \<Rightarrow> int option \<Rightarrow> js_error + base_rule list" where
  "file_increment_hit_count rules i = Inl (NotImpl ''incrementHitCount'')"

definition file_ordered :: "base_rule list \<Rightarrow> bool" where
  "file_ordered rules \<longleftrightarrow>
     sorted_wrt (\<lambda>a b. r_priority b \<le> r_priority a) rules \<and> distinct (map r_id rules)"

lemma entry_ids: "map r_id (map entry_rule (enumerate k es)) = map (\<lambda>i. int i + 1) [k..<k + length es]"
  by (induction es arbitrary: k) (simp_all add: entry_rule_def upt_rec)

lemma distinct_order_desc: "distinct (map f rs) \<Longrightarrow> distinct (map f (order_desc key rs))"
  by (simp add: distinct_map order_desc_def)

lemma reload_ordered: "reload_rules data = Inr rules \<Longrightarrow> file_ordered rules"
proof -
  assume "reload_rules data = Inr rules"
  then obtain es where es: "rules = order_desc r_priority (map entry_rule (enumerate 0 es))"
    by (auto simp: reload_rules_def split: sum.splits)
  have "distinct (map r_id (map entry_rule (enumerate 0 es)))"
    unfolding entry_ids by (simp add: distinct_map inj_on_def)
  with order_desc_sorted [of r_priority "map entry_rule (enumerate 0 es)"] show ?thesis
    unfolding es file_ordered_def by (blast intro: distinct_order_desc)
qed

section \<open>The interface of the rule stores\<close>

text \<open>
  What \<open>dao/interfaces.js\<close> promises of the reading operations: \<open>list\<close> is ordered by priority,
  \<open>get\<close> finds by id, \<open>match\<close> gives the first enabled rule of the list that matches.
\<close>

locale rule_reader =
  fixes reader_list :: "'s \<Rightarrow> js_error + 'r list"
    and reader_get :: "'s \<Rightarrow> int option \<Rightarrow> js_error + 'r option"
    and reader_match :: "regex \<Rightarrow> 's \<Rightarrow> string \<Rightarrow> string \<Rightarrow> 'r option"
    and ident :: "'r \<Rightarrow> int"
    and prio :: "'r \<Rightarrow> int"
    and enabled :: "'r \<Rightarrow> bool"
    and hits :: "regex \<Rightarrow> string \<Rightarrow> string \<Rightarrow> 'r \<Rightarrow> bool"
    and wf :: "'s \<Rightarrow> bool"
  assumes list_law: "wf s \<Longrightarrow>
      \<exists>rs. reader_list s = Inr rs \<and> sorted_wrt (\<lambda>a b. prio b \<le> prio a) rs \<and> distinct (map ident rs)"
    and get_law: "wf s \<Longrightarrow> reader_list s = Inr rs \<Longrightarrow> reader_get s (Some i) = Inr (find (\<lambda>r. ident r = i) rs)"
    and match_law: "wf s \<Longrightarrow> reader_list s = Inr rs \<Longrightarrow>
      reader_match rx s url meth = find (\<lambda>r. enabled r \<and> hits rx url meth r) rs"
begin

lemma match_some:
  assumes "wf s" "reader_list s = Inr rs" "reader_match rx s url meth = Some r"
  shows "r \<in> set rs \<and> enabled r \<and> hits rx url meth r
    \<and> (\<forall>q \<in> set rs. enabled q \<and> hits rx url meth q \<longrightarrow> prio q \<le> prio r)"
proof -
  from assms have f: "find (\<lambda>r. enabled r \<and> hits rx url meth r) rs = Some r" by (simp add: match_law)
  from list_law [OF assms(1)] assms(2) have "sorted_wrt (\<lambda>a b. prio b \<le> prio a) rs" by simp
  with f show ?thesis
    by (auto dest: find_SomeD intro: sorted_key_append_find [where R = "\<lambda>a b. prio b \<le> prio a"] simp: reflp_def)
qed

lemma match_none:
  "wf s \<Longrightarrow> reader_list s = Inr rs \<Longrightarrow>
     reader_match rx s url meth = None \<longleftrightarrow> (\<forall>q \<in> set rs. \<not> (enabled q \<and> hits rx url meth q))"
  by (auto simp: match_law find_None_iff)

lemma get_of_match:
  assumes "wf s" "reader_match rx s url meth = Some r"
  shows "reader_get s (Some (ident r)) = Inr (Some r)"
proof -
  from list_law [OF assms(1)] obtain rs where rs: "reader_list s = Inr rs" "distinct (map ident rs)" by blast
  with match_some [OF assms(1) rs(1) assms(2)] show ?thesis
    by (simp add: get_law [OF assms(1)] find_unique_key)
qed

end

text \<open>A store that can also be written.\<close>

locale rule_store = rule_reader reader_list reader_get reader_match ident prio enabled hits wf
  for reader_list :: "'s \<Rightarrow> js_error + 'r list"
    and reader_get :: "'s \<Rightarrow> int option \<Rightarrow> js_error + 'r option"
    and reader_match :: "regex \<Rightarrow> 's \<Rightarrow> string \<Rightarrow> string \<Rightarrow> 'r option"
    and ident :: "'r \<Rightarrow> int"
    and prio :: "'r \<Rightarrow> int"
    and enabled :: "'r \<Rightarrow> bool"
    and hits :: "regex \<Rightarrow> string \<Rightarrow> string \<Rightarrow> 'r \<Rightarrow> bool"
    and wf :: "'s \<Rightarrow> bool" +
  fixes store_create :: "'s \<Rightarrow> 'i \<Rightarrow> js_error + 's \<times> 'r option"
    and store_delete :: "'s \<Rightarrow> int option \<Rightarrow> 's"
  assumes create_law: "wf s \<Longrightarrow> store_create s inp = Inr (s', res) \<Longrightarrow>
      wf s' \<and> (\<exists>r. res = Some r \<and> reader_get s (Some (ident r)) = Inr None
        \<and> reader_get s' (Some (ident r)) = Inr (Some r)
        \<and> (\<forall>j. j \<noteq> ident r \<longrightarrow> reader_get s' (Some j) = reader_get s (Some j)))"
    and delete_law: "wf s \<Longrightarrow> wf (store_delete s i)
        \<and> (\<forall>j. reader_get (store_delete s i) j = (if i = j then Inr None else reader_get s j))"
begin

lemma create_then_delete:
  assumes "wf s" "store_create s inp = Inr (s', Some r)"
  shows "reader_get (store_delete s' (Some (ident r))) (Some j) = reader_get s (Some j)"
  using create_law [OF assms] delete_law [of s' "Some (ident r)"] by (cases "j = ident r") auto

lemma deleted_never_matches:
  assumes "wf s" "reader_match rx (store_delete s (Some i)) url meth = Some r"
  shows "ident r \<noteq> i"
proof
  assume "ident r = i"
  moreover from delete_law [OF assms(1)] have "wf (store_delete s (Some i))" by blast
  note get_of_match [OF this assms(2)]
  moreover have "reader_get (store_delete s (Some i)) (Some i) = Inr None"
    using delete_law [OF assms(1), of "Some i"] by simp
  ultimately show False by simp
qed

end

text \<open>Both stores honour it; only the SQLite store can be written.\<close>

definition rule_hits :: "regex \<Rightarrow> string \<Rightarrow> string \<Rightarrow> 'a base_rule_scheme \<Rightarrow> bool" where
  "rule_hits rx url meth r \<longleftrightarrow> rx (r_url_pattern r) url = Some True \<and> method_hits meth (r_methods r)"

definition file_hits :: "regex \<Rightarrow> string \<Rightarrow> string \<Rightarrow> 'a base_rule_scheme \<Rightarrow> bool" where
  "file_hits rx url meth r \<longleftrightarrow>
     rx (r_url_pattern r) url = Some True \<and> (r_methods r = [] \<or> meth \<in> set (r_methods r))"

lemma file_match_find:
  "file_match rx rules url meth = find (\<lambda>r. r_enabled r \<and> file_hits rx url meth r) rules"
  by (induction rules) (auto simp: file_hits_def split: option.splits bool.splits)

lemma rule_of_hits:
  assumes "db_ok d" "row \<in> set (t_rules d)"
  shows "(rr_enabled row = 1 \<and> row_applies rx url meth row)
    \<longleftrightarrow> (r_enabled (rule_of row) \<and> rule_hits rx url meth (rule_of row))"
    and "r_priority (rule_of row) = rr_priority row" "r_id (rule_of row) = rr_id row"
proof -
  note j = rules_okD(1) [OF assms]
  then obtain ms where ms: "json_strings (rr_methods row) = Some ms" by blast
  have "rr_enabled row \<in> {0, 1}" using assms by (auto simp: db_ok_def rules_ok_def)
  then show "(rr_enabled row = 1 \<and> row_applies rx url meth row)
    \<longleftrightarrow> (r_enabled (rule_of row) \<and> rule_hits rx url meth (rule_of row))"
    using j by (auto simp: row_applies_def rule_hits_def row_simps ms)
  show "r_priority (rule_of row) = rr_priority row" "r_id (rule_of row) = rr_id row"
    using j by (simp_all add: row_simps)
qed

lemma find_map_set:
  "(\<And>x. x \<in> set xs \<Longrightarrow> P (f x) = Q x) \<Longrightarrow> find P (map f xs) = map_option f (find Q xs)"
  by (induction xs) auto

lemma match_rule_list:
  assumes "db_ok d"
  shows "match_rule rx d url meth None
    = find (\<lambda>r. r_enabled r \<and> rule_hits rx url meth r) (map rule_of (order_desc rr_priority (t_rules d)))"
proof -
  have "find (\<lambda>r. r_enabled r \<and> rule_hits rx url meth r) (map rule_of (order_desc rr_priority (t_rules d)))
    = map_option rule_of (find (\<lambda>row. rr_enabled row = 1 \<and> in_scope None row \<and> row_applies rx url meth row)
        (order_desc rr_priority (t_rules d)))"
    by (rule find_map_set) (use rule_of_hits(1) [OF assms] in \<open>auto simp: in_scope_def\<close>)
  then show ?thesis using match_rule_find [OF assms, of rx url meth None] by simp
qed

lemma list_rules_shape:
  assumes "db_ok d"
  shows "sorted_wrt (\<lambda>a b. r_priority b \<le> r_priority a) (map rule_of (order_desc rr_priority (t_rules d)))"
    and "distinct (map r_id (map rule_of (order_desc rr_priority (t_rules d))))"
proof -
  have "sorted_wrt (\<lambda>a b. rr_priority b \<le> rr_priority a) (order_desc rr_priority (t_rules d))"
    by (rule order_desc_sorted)
  then show "sorted_wrt (\<lambda>a b. r_priority b \<le> r_priority a) (map rule_of (order_desc rr_priority (t_rules d)))"
    unfolding sorted_wrt_map
    by (rule sorted_wrt_mono_rel [rotated]) (simp add: rule_of_hits(2) [OF assms])
  have ids: "map r_id (map rule_of (order_desc rr_priority (t_rules d))) = map rr_id (order_desc rr_priority (t_rules d))"
    by (simp add: rule_of_hits(3) [OF assms])
  show "distinct (map r_id (map rule_of (order_desc rr_priority (t_rules d))))"
    unfolding ids by (rule distinct_order_desc [OF table_ok_distinct [OF rules_table_ok [OF assms]]])
qed

lemma get_rule_list:
  assumes "db_ok d"
  shows "get_rule d (Some i) = Inr (find (\<lambda>r. r_id r = i) (map rule_of (order_desc rr_priority (t_rules d))))"
proof -
  let ?rs = "order_desc rr_priority (t_rules d)"
  have t: "distinct (map rr_id ?rs)"
    by (rule distinct_order_desc [OF table_ok_distinct [OF rules_table_ok [OF assms]]])
  have "find (\<lambda>row. rr_id row = i) ?rs = find (\<lambda>row. rr_id row = i) (t_rules d)"
  proof (cases "find (\<lambda>row. rr_id row = i) (t_rules d)")
    case None
    then have "find (\<lambda>row. rr_id row = i) ?rs = None" by (simp add: find_None_iff)
    with None show ?thesis by simp
  next
    case (Some row)
    then have "rr_id row = i" "row \<in> set ?rs" by (auto dest: find_SomeD)
    with find_unique_key [OF t, of row] Some show ?thesis by simp
  qed
  then show ?thesis
    using find_map_set [of ?rs "\<lambda>r. r_id r = i" rule_of "\<lambda>row. rr_id row = i"] rule_of_hits(3) [OF assms]
    by (simp add: get_rule_ok [OF assms] row_by_id_def)
qed

interpretation sqlite: rule_reader
  "\<lambda>d. list_rules d None" get_rule "\<lambda>rx d url meth. match_rule rx d url meth None"
  r_id r_priority r_enabled rule_hits db_ok
proof unfold_locales
  fix d rs i rx url meth
  assume d: "db_ok d"
  show "\<exists>rs. list_rules d None = Inr rs \<and> sorted_wrt (\<lambda>a b. r_priority b \<le> r_priority a) rs \<and> distinct (map r_id rs)"
    using list_rules_ok [OF d] list_rules_shape [OF d] by simp
  assume "list_rules d None = Inr rs"
  then have rs: "rs = map rule_of (order_desc rr_priority (t_rules d))" by (simp add: list_rules_ok [OF d])
  show "get_rule d (Some i) = Inr (find (\<lambda>r. r_id r = i) rs)"
    unfolding rs by (rule get_rule_list [OF d])
  show "match_rule rx d url meth None = find (\<lambda>r. r_enabled r \<and> rule_hits rx url meth r) rs"
    unfolding rs by (rule match_rule_list [OF d])
qed

interpretation jsonfile: rule_reader file_list file_get file_match
  r_id r_priority r_enabled file_hits file_ordered
  by unfold_locales (auto simp: file_list_def file_get_def file_ordered_def file_match_find)

text \<open>The rule \<open>create\<close> returns: what the body gives, the defaults of the code elsewhere.\<close>

definition created_rule :: "int \<Rightarrow> rule_input \<Rightarrow> string \<Rightarrow> string \<Rightarrow> string \<Rightarrow> rule" where
  "created_rule i inp name pattern action =
     \<lparr>r_id = i, r_name = name, r_url_pattern = pattern, r_methods = or_else (ri_methods inp) [],
      r_action = action, r_priority = or_else (ri_priority inp) 0, r_agent_id = ri_agent_id inp,
      r_log_request_body = or_else (ri_log_request_body inp) ''full'',
      r_log_response_body = or_else (ri_log_response_body inp) ''full'',
      r_default_behavior = ri_default_behavior inp, r_enabled = or_else (ri_enabled inp) True,
      r_hit_count = 0, r_hit_count_today = 0, r_hit_count_date = None, r_policy_id = ri_policy_id inp\<rparr>"

lemma rule_of_new_row: "rule_of (new_rule_row i inp name pattern action) = created_rule i inp name pattern action"
  by (simp add: rule_of_def deserialize_def new_rule_row_def created_rule_def)

lemma created_ids [simp]:
  "r_id (created_rule i inp name pattern action) = i" "rr_id (new_rule_row i inp name pattern action) = i"
  by (simp_all add: created_rule_def new_rule_row_def)

lemma create_rule_Inr:
  assumes "db_ok d" "create_rule d inp = Inr (d', res)"
  obtains name pattern action where
    "ri_name inp = Some name" "ri_url_pattern inp = Some pattern" "ri_action inp = Some action" "db_ok d'"
    "d' = d\<lparr>t_rules := t_rules d @ [new_rule_row (seq_rules d + 1) inp name pattern action],
           seq_rules := seq_rules d + 1\<rparr>"
    "res = Some (created_rule (seq_rules d + 1) inp name pattern action)"
proof -
  from assms(2) obtain i where ins: "insert_rule d inp = Inr (d', i)" and got: "get_rule d' (Some i) = Inr res"
    by (auto simp: create_rule_def split: sum.splits)
  note ok = insert_rule_ok [OF assms(1) ins]
  from ok(3) obtain name pattern action where
    f: "ri_name inp = Some name" "ri_url_pattern inp = Some pattern" "ri_action inp = Some action"
    and d': "d' = d\<lparr>t_rules := t_rules d @ [new_rule_row i inp name pattern action], seq_rules := i\<rparr>" by blast
  have "row_by_id rr_id (t_rules d') (Some i) = Some (new_rule_row i inp name pattern action)"
    unfolding d' ok(2) using row_by_id_new [OF rules_table_ok [OF assms(1)]] by (simp add: new_rule_row_def)
  with got have "res = Some (created_rule i inp name pattern action)"
    unfolding get_rule_ok [OF ok(1)] by (simp add: rule_of_new_row)
  with f ok d' show thesis using that by blast
qed

lemma create_rule_lookup:
  assumes "db_ok d" "create_rule d inp = Inr (d', res)"
  shows "\<exists>r. res = Some r \<and> r_id r = seq_rules d + 1 \<and> get_rule d (Some (r_id r)) = Inr None
    \<and> get_rule d' (Some (r_id r)) = Inr (Some r) \<and> (\<forall>j. j \<noteq> Some (r_id r) \<longrightarrow> get_rule d' j = get_rule d j)"
  using assms
proof (rule create_rule_Inr)
  fix name pattern action
  assume ok: "db_ok d'" and res: "res = Some (created_rule (seq_rules d + 1) inp name pattern action)"
    and d': "d' = d\<lparr>t_rules := t_rules d @ [new_rule_row (seq_rules d + 1) inp name pattern action],
           seq_rules := seq_rules d + 1\<rparr>"
  note t = rules_table_ok [OF assms(1)]
  have "row_by_id rr_id (t_rules d) (Some (seq_rules d + 1)) = None"
    using table_ok_new_key [OF t] by (simp add: row_by_id_def find_None_iff image_iff) metis
  moreover define row where "row = new_rule_row (seq_rules d + 1) inp name pattern action"
  moreover have "get_rule d' j = Inr (map_option rule_of (row_by_id rr_id (t_rules d @ [row]) j))" for j
    unfolding get_rule_ok [OF ok] by (simp add: d' row_def)
  ultimately show ?thesis
    using row_by_id_new [OF t, of row] row_by_id_append_old [OF t, of row]
    by (simp add: res get_rule_ok [OF assms(1)] rule_of_new_row)
qed

lemma delete_rule_lookup:
  "db_ok d \<Longrightarrow> get_rule (delete_rule d i) j = (if i = j then Inr None else get_rule d j)"
  using delete_rule_ok [of d i]
  by (auto simp: get_rule_ok delete_rule_def row_by_id_delete_where)

interpretation sqlite_store: rule_store
  "\<lambda>d. list_rules d None" get_rule "\<lambda>rx d url meth. match_rule rx d url meth None"
  r_id r_priority r_enabled rule_hits db_ok create_rule delete_rule
proof unfold_locales
  fix d inp d' res i
  assume d: "db_ok d"
  show "db_ok (delete_rule d i) \<and> (\<forall>j. get_rule (delete_rule d i) j = (if i = j then Inr None else get_rule d j))"
    using delete_rule_ok [OF d] delete_rule_lookup [OF d] by blast
  assume c: "create_rule d inp = Inr (d', res)"
  from create_rule_ok [OF d c] create_rule_lookup [OF d c]
  show "db_ok d' \<and> (\<exists>r. res = Some r \<and> get_rule d (Some (r_id r)) = Inr None
      \<and> get_rule d' (Some (r_id r)) = Inr (Some r)
      \<and> (\<forall>j. j \<noteq> r_id r \<longrightarrow> get_rule d' (Some j) = get_rule d (Some j)))" by auto
qed

section \<open>Properties\<close>

text \<open>
  \<open>match\<close> decides by priority: it returns an enabled rule whose pattern and methods match the
  request, no enabled matching rule of the table has a higher priority, and among those of the same
  priority it is the one created first; it returns null exactly when no enabled rule matches.
\<close>

theorem match_highest_priority:
  assumes "db_ok d"
  shows "case match_rule rx d url meth None of
      None \<Rightarrow> \<forall>row \<in> set (t_rules d). \<not> (rr_enabled row = 1 \<and> row_applies rx url meth row)
    | Some r \<Rightarrow> \<exists>row \<in> set (t_rules d). r = rule_of row \<and> rr_enabled row = 1 \<and> row_applies rx url meth row
        \<and> (\<forall>q \<in> set (t_rules d). rr_enabled q = 1 \<and> row_applies rx url meth q \<longrightarrow>
             rr_priority q < rr_priority row \<or> rr_priority q = rr_priority row \<and> rr_id row \<le> rr_id q)"
proof -
  let ?P = "\<lambda>row. rr_enabled row = 1 \<and> in_scope None row \<and> row_applies rx url meth row"
  have ids: "sorted_wrt (<) (map rr_id (t_rules d))" using rules_table_ok [OF assms] by (simp add: table_ok_def)
  show ?thesis
  proof (cases "find ?P (order_desc rr_priority (t_rules d))")
    case None
    then have "match_rule rx d url meth None = None" by (simp add: match_rule_find [OF assms])
    with None show ?thesis by (auto simp: find_None_iff in_scope_def)
  next
    case (Some row)
    then have "match_rule rx d url meth None = Some (rule_of row)" by (simp add: match_rule_find [OF assms])
    moreover from Some have "row \<in> set (t_rules d)" "?P row" by (auto dest: find_SomeD)
    ultimately show ?thesis using find_order_desc [OF ids Some] by (auto simp: in_scope_def)
  qed
qed

text \<open>
  \<open>create\<close> on every branch: a missing name, pattern or action, an action or default behaviour
  outside its enumeration, and a policy that does not exist are errors of the database and store
  nothing; otherwise the rule is stored under a new id with the defaults (all methods, priority 0,
  full body logging, enabled, no hits) and is what \<open>get\<close> then finds, every other rule unchanged.
\<close>

theorem create_rule_spec:
  assumes "db_ok d"
  shows "case create_rule d inp of
      Inl e \<Rightarrow> (ri_name inp = None \<or> ri_url_pattern inp = None \<or> ri_action inp = None) \<and> e = Sqlite NotNull
        \<or> (the (ri_action inp) \<notin> {''allow'', ''deny''}
            \<or> ri_default_behavior inp \<notin> {None, Some ''deny'', Some ''hold'', Some ''queue''}) \<and> e = Sqlite Check
        \<or> \<not> fk (policy_exists d) (ri_policy_id inp) \<and> e = Sqlite ForeignKey
    | Inr (d', res) \<Rightarrow> db_ok d' \<and>
        (\<exists>name pattern action r. ri_name inp = Some name \<and> ri_url_pattern inp = Some pattern
          \<and> ri_action inp = Some action \<and> res = Some r
          \<and> r = created_rule (seq_rules d + 1) inp name pattern action
          \<and> get_rule d (Some (r_id r)) = Inr None \<and> get_rule d' (Some (r_id r)) = Inr (Some r)
          \<and> (\<forall>j. j \<noteq> Some (r_id r) \<longrightarrow> get_rule d' j = get_rule d j))"
proof (cases "create_rule d inp")
  case (Inl e)
  show ?thesis
  proof (cases "insert_rule d inp")
    case (Inr x)
    then obtain d' i where ins: "insert_rule d inp = Inr (d', i)" by (cases x) auto
    with Inl get_rule_ok [OF insert_rule_ok(1) [OF assms ins]] have False
      by (simp add: create_rule_def split: sum.splits)
    then show ?thesis ..
  next
    case ins: (Inl e')
    with Inl have "e' = e" by (simp add: create_rule_def)
    with ins Inl show ?thesis
      by (auto simp: insert_rule_def Let_def rule_check_def new_rule_row_def split: option.splits if_splits)
  qed
next
  case (Inr x)
  then obtain d' res where c: "create_rule d inp = Inr (d', res)" by (cases x) auto
  from create_rule_Inr [OF assms c] obtain name pattern action where
    f: "ri_name inp = Some name" "ri_url_pattern inp = Some pattern" "ri_action inp = Some action" "db_ok d'"
      "res = Some (created_rule (seq_rules d + 1) inp name pattern action)" by metis
  with create_rule_lookup [OF assms c] show ?thesis by (auto simp: c)
qed

text \<open>
  \<open>delete\<close> removes the rule and only the rule: \<open>get\<close> no longer finds it, every other rule is as
  before, \<open>match\<close> never returns it again, and the log keeps every entry (the entries that named the
  rule name none).
\<close>

theorem delete_rule_spec:
  assumes "db_ok d"
  shows "db_ok (delete_rule d (Some i))
    \<and> (\<forall>j. get_rule (delete_rule d (Some i)) j = (if j = Some i then Inr None else get_rule d j))
    \<and> (\<forall>rx url meth r. match_rule rx (delete_rule d (Some i)) url meth None = Some r \<longrightarrow> r_id r \<noteq> i)
    \<and> map lr_id (t_log (delete_rule d (Some i))) = map lr_id (t_log d)
    \<and> (\<forall>l \<in> set (t_log (delete_rule d (Some i))). lr_rule_id l \<noteq> Some i)"
proof (intro conjI)
  show "db_ok (delete_rule d (Some i))" by (rule delete_rule_ok [OF assms])
  show "\<forall>j. get_rule (delete_rule d (Some i)) j = (if j = Some i then Inr None else get_rule d j)"
    by (simp add: delete_rule_lookup [OF assms])
  show "\<forall>rx url meth r. match_rule rx (delete_rule d (Some i)) url meth None = Some r \<longrightarrow> r_id r \<noteq> i"
    using sqlite_store.deleted_never_matches [OF assms] by blast
  show "map lr_id (t_log (delete_rule d (Some i))) = map lr_id (t_log d)"
    by (simp add: delete_rule_def clear_rule_refs_ids)
  show "\<forall>l \<in> set (t_log (delete_rule d (Some i))). lr_rule_id l \<noteq> Some i"
  proof (cases "row_by_id rr_id (t_rules d) (Some i)")
    case None
    then have "i \<notin> rr_id ` set (t_rules d)" by (rule row_by_id_NoneD)
    with None assms show ?thesis by (auto simp: delete_rule_def db_ok_def log_ok_def rule_exists_def)
  qed (auto simp: delete_rule_def dest: clear_rule_refs_none [rotated])
qed

text \<open>What a change asks for, read off a row or off a rule.\<close>

fun change_key :: "rule_change \<Rightarrow> string" where
  "change_key ChId = ''id''"
| "change_key (ChName _) = ''name''"
| "change_key (ChUrlPattern _) = ''url_pattern''"
| "change_key (ChMethods _) = ''methods''"
| "change_key (ChAction _) = ''action''"
| "change_key (ChPriority _) = ''priority''"
| "change_key (ChAgentId _) = ''agent_id''"
| "change_key (ChLogRequestBody _) = ''log_request_body''"
| "change_key (ChLogResponseBody _) = ''log_response_body''"
| "change_key (ChDefaultBehavior _) = ''default_behavior''"
| "change_key (ChEnabled _) = ''enabled''"
| "change_key (ChHitCount _) = ''hit_count''"
| "change_key (ChHitCountToday _) = ''hit_count_today''"
| "change_key (ChHitCountDate _) = ''hit_count_date''"
| "change_key (ChPolicyId _) = ''policy_id''"
| "change_key (ChOther k) = ''?'' @ k"

fun shows_change :: "rule_change \<Rightarrow> rule \<Rightarrow> bool" where
  "shows_change ChId r = True"
| "shows_change (ChName v) r = (v = Some (r_name r))"
| "shows_change (ChUrlPattern v) r = (v = Some (r_url_pattern r))"
| "shows_change (ChMethods ms) r = (ms = r_methods r)"
| "shows_change (ChAction v) r = (v = Some (r_action r))"
| "shows_change (ChPriority v) r = (v = Some (r_priority r))"
| "shows_change (ChAgentId v) r = (v = r_agent_id r)"
| "shows_change (ChLogRequestBody v) r = (v = Some (r_log_request_body r))"
| "shows_change (ChLogResponseBody v) r = (v = Some (r_log_response_body r))"
| "shows_change (ChDefaultBehavior v) r = (v = r_default_behavior r)"
| "shows_change (ChEnabled b) r = (b = r_enabled r)"
| "shows_change (ChHitCount v) r = (v = Some (r_hit_count r))"
| "shows_change (ChHitCountToday v) r = (v = Some (r_hit_count_today r))"
| "shows_change (ChHitCountDate v) r = (v = r_hit_count_date r)"
| "shows_change (ChPolicyId v) r = (v = r_policy_id r)"
| "shows_change (ChOther k) r = False"

lemma rule_of_eq:
  "json_strings (rr_methods row) = Some ms \<Longrightarrow> rule_of row =
          \<lparr>r_id = rr_id row, r_name = rr_name row, r_url_pattern = rr_url_pattern row, r_methods = ms,
           r_action = rr_action row, r_priority = rr_priority row, r_agent_id = rr_agent_id row,
           r_log_request_body = rr_log_request_body row, r_log_response_body = rr_log_response_body row,
           r_default_behavior = rr_default_behavior row, r_enabled = (rr_enabled row \<noteq> 0),
           r_hit_count = rr_hit_count row, r_hit_count_today = rr_hit_count_today row,
           r_hit_count_date = rr_hit_count_date row, r_policy_id = rr_policy_id row\<rparr>"
  by (simp add: rule_of_def deserialize_def)

lemma apply_change_shows:
  assumes "apply_change c row = Inr row'" "json_strings (rr_methods row) = Some ms"
  shows "shows_change c (rule_of row')"
  using assms by (cases c) (auto simp: set_col_def rule_of_eq split: option.splits if_splits)

lemma apply_change_frame:
  assumes "apply_change c row = Inr row'" "json_strings (rr_methods row) = Some ms"
    and "change_key k \<noteq> change_key c" "shows_change k (rule_of row)"
  shows "shows_change k (rule_of row')"
  using assms
  by (cases c; clarsimp simp: set_col_def split: option.splits; cases k; simp add: rule_of_eq)

lemma apply_changes_frame:
  assumes "apply_changes cs row = Inr row'" "json_strings (rr_methods row) \<noteq> None" "rr_enabled row \<in> {0, 1}"
    and "change_key k \<notin> change_key ` set cs" "shows_change k (rule_of row)"
  shows "shows_change k (rule_of row')"
  using assms
proof (induction cs arbitrary: row)
  case (Cons c cs)
  then obtain row1 where r1: "apply_change c row = Inr row1" "apply_changes cs row1 = Inr row'"
    by (auto split: sum.splits)
  obtain ms where ms: "json_strings (rr_methods row) = Some ms" using Cons.prems by blast
  have "shows_change k (rule_of row1)"
    using apply_change_frame [OF r1(1) ms] Cons.prems by simp
  with Cons.IH [OF r1(2)] apply_change_keeps [OF r1(1)] Cons.prems show ?case by simp
qed simp

lemma apply_changes_shows:
  assumes "apply_changes cs row = Inr row'" "json_strings (rr_methods row) \<noteq> None" "rr_enabled row \<in> {0, 1}"
    and "distinct (map change_key cs)" "c \<in> set cs"
  shows "shows_change c (rule_of row')"
  using assms
proof (induction cs arbitrary: row)
  case (Cons c0 cs)
  then obtain row1 where r1: "apply_change c0 row = Inr row1" "apply_changes cs row1 = Inr row'"
    by (auto split: sum.splits)
  obtain ms where ms: "json_strings (rr_methods row) = Some ms" using Cons.prems by blast
  have k1: "json_strings (rr_methods row1) \<noteq> None" "rr_enabled row1 \<in> {0, 1}"
    using apply_change_keeps [OF r1(1)] Cons.prems by auto
  show ?case
  proof (cases "c = c0")
    case True
    then show ?thesis
      using apply_changes_frame [OF r1(2) k1, of c0] apply_change_shows [OF r1(1) ms] Cons.prems by simp
  next
    case False
    then show ?thesis using Cons.IH [OF r1(2) k1] Cons.prems by simp
  qed
qed simp

text \<open>
  \<open>update\<close> merges: when it returns a rule, that rule keeps its id, shows every value the body
  gives (an \<open>id\<close> in the body is ignored), keeps every column the body does not name, is what \<open>get\<close>
  then finds, and no other rule changes.
\<close>

theorem update_rule_merges:
  assumes "db_ok d" "update_rule d i changes = Inr (d', Some r')" "distinct (map change_key changes)"
  shows "db_ok d' \<and> get_rule d' i = Inr (Some r') \<and> (\<forall>j. j \<noteq> i \<longrightarrow> get_rule d' j = get_rule d j)
    \<and> (\<exists>r. get_rule d i = Inr (Some r) \<and> r_id r' = r_id r
        \<and> (\<forall>c \<in> set changes. shows_change c r')
        \<and> (\<forall>k. change_key k \<notin> change_key ` set changes \<longrightarrow> shows_change k r \<longrightarrow> shows_change k r'))"
  using assms(1,2)
proof (cases rule: update_rule_Inr)
  case (2 row row')
  note row = row_by_id_SomeD [OF 2(1)]
  note j = rules_okD(1) [OF assms(1) conjunct1 [OF row]]
  have en: "rr_enabled row \<in> {0, 1}" using assms(1) row by (auto simp: db_ok_def rules_ok_def)
  have same: "\<And>r. Some (rr_id r) = i \<Longrightarrow> rr_id row' = rr_id r" using 2(2,4) by simp
  have got: "get_rule d' k = Inr (map_option rule_of (map_option (if i = k then \<lambda>_. row' else id)
      (row_by_id rr_id (t_rules d) k)))" for k
    unfolding get_rule_ok [OF 2(6)] unfolding 2(5)
    by (simp add: row_by_id_update_where [where key = rr_id and i = i and f = "\<lambda>_. row'", OF same])
  have r': "r' = rule_of row'" using 2(7) by simp
  have d1: "distinct (map change_key (filter (\<lambda>c. c \<noteq> ChId) changes))"
    using assms(3) by (simp add: distinct_map_filter)
  note shw = apply_changes_shows [OF 2(3) j en d1] and frm = apply_changes_frame [OF 2(3) j en]
  have "\<forall>c \<in> set changes. shows_change c r'"
  proof
    fix c assume "c \<in> set changes"
    then show "shows_change c r'" using shw [of c] r' by (cases "c = ChId") auto
  qed
  moreover have "\<forall>k. change_key k \<notin> change_key ` set changes \<longrightarrow> shows_change k (rule_of row) \<longrightarrow> shows_change k r'"
    using frm r' by auto
  moreover have "r_id r' = r_id (rule_of row)"
    using 2(4) rule_of_hits(3) [OF assms(1) conjunct1 [OF row]] apply_changes_keeps [OF 2(3) j en] r'
    by (simp add: row_simps)
  moreover have "get_rule d' i = Inr (Some r')" "\<forall>k. k \<noteq> i \<longrightarrow> get_rule d' k = get_rule d k"
    using got 2(1) by (auto simp: r' get_rule_ok [OF assms(1)] option.map_id)
  moreover have "get_rule d i = Inr (Some (rule_of row))"
    using 2(1) by (simp add: get_rule_ok [OF assms(1)])
  ultimately show ?thesis using 2(6) by blast
qed simp

lemma hits_row:
  "rr_hit_count (foldl (\<lambda>r c. hit c r) row cs) = rr_hit_count row + int (length cs)"
  "rr_hit_count_date (foldl (\<lambda>r c. hit c r) row cs)
     = (if cs = [] then rr_hit_count_date row else Some (date_now (last cs)))"
  "rr_hit_count_today (foldl (\<lambda>r c. hit c r) row cs)
     = (if \<forall>c \<in> set cs. rr_hit_count_date row = Some (date_now c) then rr_hit_count_today row + int (length cs)
        else int (length (takeWhile (\<lambda>c. date_now c = date_now (last cs)) (rev cs))))"
proof (induction cs rule: rev_induct)
  case (snoc c cs)
  show "rr_hit_count (foldl (\<lambda>r c. hit c r) row (cs @ [c])) = rr_hit_count row + int (length (cs @ [c]))"
    using snoc by (simp add: hit_def)
  show "rr_hit_count_date (foldl (\<lambda>r c. hit c r) row (cs @ [c]))
     = (if cs @ [c] = [] then rr_hit_count_date row else Some (date_now (last (cs @ [c]))))"
    by (simp add: hit_def)
  show "rr_hit_count_today (foldl (\<lambda>r c. hit c r) row (cs @ [c]))
     = (if \<forall>c \<in> set (cs @ [c]). rr_hit_count_date row = Some (date_now c)
        then rr_hit_count_today row + int (length (cs @ [c]))
        else int (length (takeWhile (\<lambda>d. date_now d = date_now (last (cs @ [c]))) (rev (cs @ [c])))))"
  proof (cases cs rule: rev_cases)
    case (snoc ys y)
    then show ?thesis using \<open>rr_hit_count_date (foldl (\<lambda>r c. hit c r) row cs) = _\<close>
        \<open>rr_hit_count_today (foldl (\<lambda>r c. hit c r) row cs) = _\<close>
      by (auto simp: hit_def)
  qed (simp add: hit_def)
qed simp_all

lemma increments_row:
  "t_rules (foldl (\<lambda>d c. increment_hit_count c d i) d cs)
     = update_where rr_id i (\<lambda>row. foldl (\<lambda>r c. hit c r) row cs) (t_rules d)"
proof (induction cs arbitrary: d)
  case (Cons c cs)
  have "rr_id (hit c r) = rr_id r" for r by (simp add: hit_def)
  then have "update_where rr_id i (\<lambda>row. foldl (\<lambda>r c. hit c r) row cs) (t_rules (increment_hit_count c d i))
      = update_where rr_id i (\<lambda>row. foldl (\<lambda>r c. hit c r) row (c # cs)) (t_rules d)"
    by (simp add: increment_hit_count_def update_where_def)
  with Cons.IH [of "increment_hit_count c d i"] show ?case by simp
qed (simp add: update_where_def map_idI)

lemma increments_ok: "db_ok d \<Longrightarrow> db_ok (foldl (\<lambda>d c. increment_hit_count c d i) d cs)"
  by (induction cs arbitrary: d) (simp_all add: increment_hit_count_ok)

lemma hits_row_id: "rr_id (foldl (\<lambda>r c. hit c r) row cs) = rr_id row"
  "rr_methods (foldl (\<lambda>r c. hit c r) row cs) = rr_methods row"
  by (induction cs arbitrary: row) (simp_all add: hit_def)

text \<open>
  The hit counters: after any sequence of matches of a rule (at the clocks \<open>cs\<close>) its total has
  grown by their number, its date is that of the last one, and the daily count is the number of
  matches since the date last changed (added to the stored one while the date is still the same).
\<close>

theorem hit_counters:
  assumes "db_ok d" "get_rule d (Some i) = Inr (Some r)" "cs \<noteq> []"
  shows "\<exists>r'. get_rule (foldl (\<lambda>d c. increment_hit_count c d (Some i)) d cs) (Some i) = Inr (Some r')
    \<and> r_hit_count r' = r_hit_count r + int (length cs)
    \<and> r_hit_count_date r' = Some (date_now (last cs))
    \<and> r_hit_count_today r' =
        (if \<forall>c \<in> set cs. r_hit_count_date r = Some (date_now c) then r_hit_count_today r + int (length cs)
         else int (length (takeWhile (\<lambda>c. date_now c = date_now (last cs)) (rev cs))))"
proof -
  from assms(2) obtain row where row: "row_by_id rr_id (t_rules d) (Some i) = Some row" "r = rule_of row"
    by (auto simp: get_rule_ok [OF assms(1)])
  with rules_okD(1) [OF assms(1)] obtain ms where ms: "json_strings (rr_methods row) = Some ms"
    by (blast dest: row_by_id_SomeD)
  have "get_rule (foldl (\<lambda>d c. increment_hit_count c d (Some i)) d cs) (Some i)
      = Inr (Some (rule_of (foldl (\<lambda>r c. hit c r) row cs)))"
    unfolding get_rule_ok [OF increments_ok [OF assms(1)]] increments_row
    by (simp add: row_by_id_update_where hits_row_id row)
  with assms(3) ms row(2) show ?thesis
    by (simp add: rule_of_eq hits_row_id hits_row)
qed

section \<open>The two stores agree\<close>

text \<open>
  The same rule set kept in a file or created one by one over the API.
\<close>

definition entry_input :: "file_entry \<Rightarrow> rule_input" where
  "entry_input e =
     \<lparr>ri_name = Some (or_else (fe_name e) []), ri_url_pattern = Some (fe_url_pattern e),
      ri_methods = fe_methods e, ri_action = Some (fe_action e), ri_priority = fe_priority e,
      ri_agent_id = fe_agent_id e, ri_log_request_body = fe_log_request_body e,
      ri_log_response_body = fe_log_response_body e, ri_default_behavior = fe_default_behavior e,
      ri_enabled = fe_enabled e, ri_policy_id = None\<rparr>"

fun create_all :: "db \<Rightarrow> rule_input list \<Rightarrow> js_error + db" where
  "create_all d [] = Inr d"
| "create_all d (inp # inps) =
     (case create_rule d inp of Inl e \<Rightarrow> Inl e | Inr (d', _) \<Rightarrow> create_all d' inps)"

definition entry_row :: "nat \<times> file_entry \<Rightarrow> rule_row" where
  "entry_row ie = new_rule_row (int (fst ie) + 1) (entry_input (snd ie))
     (or_else (fe_name (snd ie)) []) (fe_url_pattern (snd ie)) (fe_action (snd ie))"

lemma create_all_rows:
  assumes "db_ok d" "seq_rules d = int k" "create_all d (map entry_input es) = Inr d'"
  shows "db_ok d' \<and> t_rules d' = t_rules d @ map entry_row (enumerate k es)"
  using assms
proof (induction es arbitrary: d k)
  case (Cons e es)
  from Cons.prems(3) obtain d1 res where c: "create_rule d (entry_input e) = Inr (d1, res)"
    and rest: "create_all d1 (map entry_input es) = Inr d'" by (auto split: sum.splits)
  from create_rule_Inr [OF Cons.prems(1) c] obtain name pattern action where
    f: "ri_name (entry_input e) = Some name" "ri_url_pattern (entry_input e) = Some pattern"
      "ri_action (entry_input e) = Some action" "db_ok d1"
    and d1: "d1 = d\<lparr>t_rules := t_rules d @ [new_rule_row (seq_rules d + 1) (entry_input e) name pattern action],
           seq_rules := seq_rules d + 1\<rparr>" by metis
  have "seq_rules d1 = int (Suc k)" using Cons.prems(2) by (simp add: d1)
  from Cons.IH [OF f(4) this rest] f d1 Cons.prems(2) show ?case
    by (simp add: entry_row_def) (auto simp: entry_input_def)
qed simp

lemma insort_key_map: "insort_key f (g x) (map g xs) = map g (insort_key (\<lambda>y. f (g y)) x xs)"
  by (induction xs) auto

lemma order_desc_map: "order_desc key (map g xs) = map g (order_desc (\<lambda>x. key (g x)) xs)"
  by (induction xs) (simp_all add: order_desc_def insort_key_map)

lemma entry_row_rule: "base_rule.truncate (rule_of (entry_row ie)) = entry_rule ie"
  by (cases ie) (auto simp: entry_row_def rule_of_new_row created_rule_def entry_rule_def entry_input_def
      base_rule.truncate_def or_else_def split: option.splits)

lemma find_map_fun: "find P (map f xs) = map_option f (find (\<lambda>x. P (f x)) xs)"
  by (induction xs) auto

text \<open>
  C40: A rule set means the same in file mode and in database mode: when no rule lists the method
  \<open>*\<close>, creating the entries of the file one by one in an empty database and matching there gives, for
  every request, the very rule (id included) that the file store matches.
\<close>

theorem file_and_database_agree:
  assumes "create_all empty_db (map entry_input entries) = Inr d"
    and "reload_rules (Inr (Some entries)) = Inr rules"
    and "\<forall>e \<in> set entries. ''*'' \<notin> set (or_else (fe_methods e) [])"
  shows "map_option base_rule.truncate (match_rule rx d url meth None) = file_match rx rules url meth"
proof -
  from create_all_rows [OF empty_db_ok _ assms(1), of 0]
  have d: "db_ok d" "t_rules d = map entry_row (enumerate 0 entries)" by (simp_all add: empty_db_def)
  let ?rows = "order_desc rr_priority (t_rules d)"
  have prio: "r_priority (base_rule.truncate (rule_of (entry_row ie))) = rr_priority (entry_row ie)" for ie
    unfolding entry_row_def rule_of_new_row
    by (simp add: created_rule_def new_rule_row_def base_rule.truncate_def)
  have rules: "rules = map (\<lambda>row. base_rule.truncate (rule_of row)) ?rows"
    using assms(2) prio
    by (simp add: reload_rules_def d(2) order_desc_map comp_def entry_row_rule)
  have same: "(r_enabled (base_rule.truncate (rule_of row)) \<and> file_hits rx url meth (base_rule.truncate (rule_of row)))
      = (r_enabled (rule_of row) \<and> rule_hits rx url meth (rule_of row))" if "row \<in> set ?rows" for row
  proof -
    from that d(2) obtain ie where ie: "row = entry_row ie" "ie \<in> set (enumerate 0 entries)" by auto
    then have "snd ie \<in> set entries" by (auto simp: in_set_enumerate_eq) (metis nth_mem)
    then have "''*'' \<notin> set (r_methods (rule_of row))"
      using assms(3) by (simp add: ie entry_row_def rule_of_new_row created_rule_def entry_input_def)
    then show ?thesis
      by (auto simp: file_hits_def rule_hits_def method_hits_def base_rule.truncate_def)
  qed
  have "map_option base_rule.truncate (match_rule rx d url meth None)
      = map_option (\<lambda>row. base_rule.truncate (rule_of row))
          (find (\<lambda>row. r_enabled (rule_of row) \<and> rule_hits rx url meth (rule_of row)) ?rows)"
    unfolding match_rule_list [OF d(1)] find_map_fun by (simp add: option.map_comp comp_def)
  also have "\<dots> = file_match rx rules url meth"
    unfolding file_match_find rules find_map_fun
    by (rule arg_cong [OF find_cong_mem]) (simp add: same)
  finally show ?thesis .
qed

section \<open>The properties at concrete inputs\<close>

definition sample_input :: rule_input where
  "sample_input =
     \<lparr>ri_name = Some ''r'', ri_url_pattern = Some ''x'', ri_methods = Some [''GET''], ri_action = Some ''deny'',
      ri_priority = Some 5, ri_agent_id = None, ri_log_request_body = None, ri_log_response_body = None,
      ri_default_behavior = None, ri_enabled = None, ri_policy_id = None\<rparr>"

text \<open>An engine for patterns without metacharacters: equality of the whole text.\<close>

definition literal_rx :: regex where
  "literal_rx p u = Some (p = u)"

definition one_rule_db :: db where
  "one_rule_db = empty_db\<lparr>t_rules := [sample_rule], seq_rules := 1\<rparr>"

lemma one_rule_db_ok: "db_ok one_rule_db"
  using sample_file_ok by (simp add: file_ok_def sample_file_def one_rule_db_def)

lemma sample_rule_of:
  "rule_of sample_rule = created_rule 1 (sample_input\<lparr>ri_methods := None, ri_priority := None, ri_action := None\<rparr>)
     ''r'' ''x'' ''allow''"
  using sample_methods by (simp add: rule_of_eq created_rule_def sample_input_def sample_rule_def)

theorem match_highest_priority_witness:
  "\<exists>row \<in> set (t_rules one_rule_db). match_rule literal_rx one_rule_db ''x'' ''GET'' None = Some (rule_of row)"
proof -
  have "row_applies literal_rx ''x'' ''GET'' sample_rule"
    using sample_methods by (simp add: row_applies_def literal_rx_def sample_rule_def method_hits_def)
  then show ?thesis
    using match_highest_priority [OF one_rule_db_ok, of literal_rx "''x''" "''GET''"]
    by (auto simp: one_rule_db_def sample_rule_def split: option.splits)
qed

theorem create_rule_spec_witness:
  "\<exists>d' r. create_rule one_rule_db sample_input = Inr (d', Some r) \<and> r_id r = 2 \<and> r_enabled r
     \<and> get_rule d' (Some 2) = Inr (Some r)"
  using create_rule_spec [OF one_rule_db_ok, of sample_input]
  by (auto simp: sample_input_def one_rule_db_def created_rule_def split: sum.splits)

theorem delete_rule_spec_witness:
  "get_rule (delete_rule one_rule_db (Some 1)) (Some 1) = Inr None"
  using delete_rule_spec [OF one_rule_db_ok, of 1] by simp

lemma sample_update:
  "update_rule one_rule_db (Some 1) [ChId, ChEnabled False] =
     Inr (one_rule_db\<lparr>t_rules := [sample_rule\<lparr>rr_enabled := 0\<rparr>]\<rparr>, Some (rule_of (sample_rule\<lparr>rr_enabled := 0\<rparr>)))"
  using sample_methods
  by (simp add: update_rule_def one_rule_db_def row_by_id_def run_rule_update_def unknown_columns_def
      rule_check_def get_rule_def update_where_def sample_rule_def deserialize_ok)

theorem update_rule_merges_witness:
  "\<exists>d' r'. update_rule one_rule_db (Some 1) [ChId, ChEnabled False] = Inr (d', Some r')
     \<and> \<not> r_enabled r' \<and> get_rule d' (Some 1) = Inr (Some r')"
  using update_rule_merges [OF one_rule_db_ok sample_update] sample_update by auto

theorem hit_counters_witness:
  "\<exists>r'. get_rule (foldl (\<lambda>d c. increment_hit_count c d (Some 1)) one_rule_db [sample_clock, sample_clock]) (Some 1)
      = Inr (Some r') \<and> r_hit_count r' = 2 \<and> r_hit_count_today r' = 2"
proof -
  have "get_rule one_rule_db (Some 1) = Inr (Some (rule_of sample_rule))"
    using get_rule_ok [OF one_rule_db_ok] by (simp add: one_rule_db_def row_by_id_def sample_rule_def)
  from hit_counters [OF one_rule_db_ok this, of "[sample_clock, sample_clock]"] show ?thesis
    unfolding sample_rule_of by (auto simp: created_rule_def sample_input_def)
qed

definition sample_entry :: file_entry where
  "sample_entry =
     \<lparr>fe_name = None, fe_url_pattern = ''x'', fe_methods = None, fe_action = ''allow'', fe_priority = None,
      fe_agent_id = None, fe_log_request_body = None, fe_log_response_body = None, fe_default_behavior = None,
      fe_enabled = None\<rparr>"

lemma sample_import: "\<exists>d. create_all empty_db (map entry_input [sample_entry]) = Inr d"
proof -
  have "\<exists>d' r. create_rule empty_db (entry_input sample_entry) = Inr (d', r)"
    using create_rule_spec [OF empty_db_ok, of "entry_input sample_entry"]
    by (auto simp: entry_input_def sample_entry_def split: sum.splits)
  then show ?thesis by auto
qed

theorem file_and_database_agree_witness:
  "\<exists>d. create_all empty_db (map entry_input [sample_entry]) = Inr d
     \<and> map_option base_rule.truncate (match_rule literal_rx d ''x'' ''GET'' None) = Some (entry_rule (0, sample_entry))"
proof -
  from sample_import obtain d where d: "create_all empty_db (map entry_input [sample_entry]) = Inr d" by blast
  have "reload_rules (Inr (Some [sample_entry])) = Inr [entry_rule (0, sample_entry)]"
    by (simp add: reload_rules_def order_desc_def)
  from file_and_database_agree [OF d this, of literal_rx "''x''" "''GET''"] d show ?thesis
    by (auto simp: sample_entry_def entry_rule_def literal_rx_def)
qed

end
