(* ===== verification/Log_Dao.thy ===== *)
theory Log_Dao
  imports Rules_Dao
begin

text \<open>
  The request log \<open>dao/sqlite/request-log.js\<close>: insertion, the dynamic filter query with its paging,
  SQLite's LIKE, and the cleanup by timestamp. Timestamps are compared as text, the way SQLite
  compares them.
\<close>

section \<open>Insertion\<close>

record log_entry =
  le_method :: "string option"
  le_url :: "string option"
  le_request_headers :: "string option"
  le_request_body_ref :: "string option"
  le_response_status :: "int option"
  le_response_headers :: "string option"
  le_response_body_ref :: "string option"
  le_duration_ms :: "int option"
  le_rule_id :: "int option"
  le_decision :: "string option"
  le_agent_id :: "string option"
  le_mode :: "string option"

definition new_log_row :: "sql_clock \<Rightarrow> int \<Rightarrow> log_entry \<Rightarrow> string \<Rightarrow> string \<Rightarrow> string \<Rightarrow> log_row" where
  "new_log_row c i e meth url decision =
     \<lparr>lr_id = i, lr_timestamp = datetime_now c, lr_method = meth, lr_url = url,
      lr_request_headers = le_request_headers e, lr_request_body_ref = le_request_body_ref e,
      lr_response_status = le_response_status e, lr_response_headers = le_response_headers e,
      lr_response_body_ref = le_response_body_ref e, lr_duration_ms = le_duration_ms e,
      lr_rule_id = le_rule_id e, lr_decision = decision, lr_agent_id = le_agent_id e,
      lr_mode = Some (or_else (le_mode e) ''proxy'')\<rparr>"

definition get_log :: "db \<Rightarrow> int option \<Rightarrow> log_row option" where
  "get_log d i = row_by_id lr_id (t_log d) i"

definition insert_log :: "sql_clock \<Rightarrow> db \<Rightarrow> log_entry \<Rightarrow> js_error + db \<times> log_row option" where
  "insert_log c d e =
     (case (le_method e, le_url e, le_decision e) of
        (Some meth, Some url, Some decision) \<Rightarrow>
          (let i = seq_log d + 1; row = new_log_row c i e meth url decision in
           if \<not> log_check row then Inl (Sqlite Check)
           else if \<not> fk (rule_exists d) (lr_rule_id row) then Inl (Sqlite ForeignKey)
           else (let d' = d\<lparr>t_log := t_log d @ [row], seq_log := i\<rparr> in Inr (d', get_log d' (Some i))))
      | _ \<Rightarrow> Inl (Sqlite NotNull))"

section \<open>LIKE\<close>

text \<open>
  SQLite's LIKE: \<open>%\<close> stands for any text, \<open>_\<close> for one character (a UTF-8 sequence), every other
  character for itself, ASCII letters regardless of case.
\<close>

definition lower :: "char \<Rightarrow> nat" where
  "lower c = (let n = of_char c in if 65 \<le> n \<and> n \<le> 90 then n + 32 else n)"

definition continuation :: "char \<Rightarrow> bool" where
  "continuation c \<longleftrightarrow> 128 \<le> (of_char c :: nat) \<and> (of_char c :: nat) < 192"

fun sql_like :: "string \<Rightarrow> string \<Rightarrow> bool" where
  "sql_like [] s = (s = [])"
| "sql_like (p # ps) s =
     (if p = CHR ''%'' then sql_like ps s \<or> (case s of [] \<Rightarrow> False | c # cs \<Rightarrow> sql_like (p # ps) cs)
      else
        (case s of
           [] \<Rightarrow> False
         | c # cs \<Rightarrow>
             if p = CHR ''_'' then sql_like ps (dropWhile continuation cs)
             else lower p = lower c \<and> sql_like ps cs))"

section \<open>The filter query\<close>

record log_filter =
  lf_method :: "string option"
  lf_decision :: "string option"
  lf_url :: "string option"
  lf_from :: "string option"
  lf_to :: "string option"
  lf_agent_id :: "string option"
  lf_mode :: "string option"
  lf_limit :: "int option"
  lf_offset :: "int option"

text \<open>A filter that is undefined or the empty text adds no condition.\<close>

definition cond :: "string option \<Rightarrow> (string \<Rightarrow> bool) \<Rightarrow> bool" where
  "cond v p = (case v of None \<Rightarrow> True | Some x \<Rightarrow> x = [] \<or> p x)"

definition filter_row :: "log_filter \<Rightarrow> log_row \<Rightarrow> bool" where
  "filter_row f r \<longleftrightarrow>
     cond (lf_method f) (\<lambda>x. lr_method r = x) \<and>
     cond (lf_decision f) (\<lambda>x. lr_decision r = x) \<and>
     cond (lf_url f) (\<lambda>x. sql_like (''%'' @ x @ ''%'') (lr_url r)) \<and>
     cond (lf_from f) (\<lambda>x. x \<le> lr_timestamp r) \<and>
     cond (lf_to f) (\<lambda>x. lr_timestamp r \<le> x) \<and>
     cond (lf_agent_id f) (\<lambda>x. lr_agent_id r = Some x) \<and>
     cond (lf_mode f) (\<lambda>x. lr_mode r = Some x)"

text \<open>\<open>LIMIT l OFFSET o\<close>: a negative limit is no limit, a negative offset is 0.\<close>

definition sql_page :: "int \<Rightarrow> int \<Rightarrow> 'a list \<Rightarrow> 'a list" where
  "sql_page l off xs = (let ys = drop (nat off) xs in if l < 0 then ys else take (nat l) ys)"

definition query_log :: "db \<Rightarrow> log_filter \<Rightarrow> log_row list" where
  "query_log d f =
     sql_page (or_else (lf_limit f) 50) (or_else (lf_offset f) 0)
       (order_desc lr_id (filter (filter_row f) (t_log d)))"

section \<open>Cleanup\<close>

text \<open>A \<open>Date\<close> (milliseconds) is turned into text by \<open>toISOString\<close>, the parameter \<open>to_iso\<close>.\<close>

datatype cutoff = CutText string | CutDate int

definition cutoff_text :: "(int \<Rightarrow> string) \<Rightarrow> cutoff \<Rightarrow> string" where
  "cutoff_text to_iso limit_ts = (case limit_ts of CutText t \<Rightarrow> t | CutDate ms \<Rightarrow> to_iso ms)"

definition cleanup_log :: "(int \<Rightarrow> string) \<Rightarrow> db \<Rightarrow> cutoff \<Rightarrow> js_error + db \<times> nat" where
  "cleanup_log to_iso d limit_ts =
     (let old = (\<lambda>r. lr_timestamp r < cutoff_text to_iso limit_ts) in
      if \<exists>q \<in> set (t_queue d). \<exists>r \<in> set (t_log d). old r \<and> lr_id r = aq_request_log_id q
      then Inl (Sqlite ForeignKey)
      else Inr (d\<lparr>t_log := filter (\<lambda>r. \<not> old r) (t_log d)\<rparr>, length (filter old (t_log d))))"

section \<open>The invariant\<close>

lemma log_table_ok: "db_ok d \<Longrightarrow> table_ok lr_id (seq_log d) (t_log d)"
  by (simp add: db_ok_def log_ok_def)

lemma new_log_row_simps [simp]:
  "lr_id (new_log_row c i e m u dec) = i" "lr_decision (new_log_row c i e m u dec) = dec"
  "lr_rule_id (new_log_row c i e m u dec) = le_rule_id e" "lr_method (new_log_row c i e m u dec) = m"
  "lr_url (new_log_row c i e m u dec) = u" "lr_agent_id (new_log_row c i e m u dec) = le_agent_id e"
  "lr_mode (new_log_row c i e m u dec) = Some (or_else (le_mode e) ''proxy'')"
  "lr_timestamp (new_log_row c i e m u dec) = datetime_now c"
  by (simp_all add: new_log_row_def)

lemma insert_log_Inr:
  assumes "db_ok d" "insert_log c d e = Inr (d', res)"
  shows "\<exists>m u dec. le_method e = Some m \<and> le_url e = Some u \<and> le_decision e = Some dec
    \<and> dec \<in> {''allowed'', ''denied'', ''held'', ''queued''} \<and> fk (rule_exists d) (le_rule_id e)
    \<and> res = Some (new_log_row c (seq_log d + 1) e m u dec)
    \<and> d' = d\<lparr>t_log := t_log d @ [new_log_row c (seq_log d + 1) e m u dec], seq_log := seq_log d + 1\<rparr>
    \<and> db_ok d'"
proof -
  from assms(2) obtain m u dec where
    f: "le_method e = Some m" "le_url e = Some u" "le_decision e = Some dec"
    and chk: "log_check (new_log_row c (seq_log d + 1) e m u dec)" and fkr: "fk (rule_exists d) (le_rule_id e)"
    and d': "d' = d\<lparr>t_log := t_log d @ [new_log_row c (seq_log d + 1) e m u dec], seq_log := seq_log d + 1\<rparr>"
    and res: "res = get_log d' (Some (seq_log d + 1))"
    by (auto simp: insert_log_def Let_def split: option.splits if_splits)
  have "db_ok d'"
    unfolding d'
    by (rule db_ok_set_log [OF assms(1) table_ok_insert [OF log_table_ok [OF assms(1)]]])
      (use assms(1) chk fkr in \<open>auto simp: db_ok_def log_ok_def\<close>)
  moreover have "res = Some (new_log_row c (seq_log d + 1) e m u dec)"
    using row_by_id_new [OF log_table_ok [OF assms(1)], of "new_log_row c (seq_log d + 1) e m u dec"]
    by (simp add: res d' get_log_def)
  ultimately show ?thesis using f chk fkr d' by (auto simp: log_check_def)
qed

lemma insert_log_ok: "db_ok d \<Longrightarrow> insert_log c d e = Inr (d', res) \<Longrightarrow> db_ok d'"
  using insert_log_Inr by blast

lemma cleanup_log_ok:
  assumes "db_ok d" "cleanup_log to_iso d limit_ts = Inr (d', n)"
  shows "db_ok d'"
proof -
  define ls where "ls = filter (\<lambda>r. \<not> lr_timestamp r < cutoff_text to_iso limit_ts) (t_log d)"
  from assms(2) have d': "d' = d\<lparr>t_log := ls\<rparr>"
    and free: "\<And>q r. q \<in> set (t_queue d) \<Longrightarrow> r \<in> set (t_log d) \<Longrightarrow> lr_timestamp r < cutoff_text to_iso limit_ts \<Longrightarrow>
      lr_id r \<noteq> aq_request_log_id q"
    by (auto simp: cleanup_log_def Let_def ls_def split: if_splits)
  have "log_exists d' (aq_request_log_id q)" if "q \<in> set (t_queue d)" for q
  proof -
    from assms(1) that obtain r where "r \<in> set (t_log d)" "lr_id r = aq_request_log_id q"
      by (auto simp: db_ok_def queue_ok_def log_exists_def)
    with free [OF that] show ?thesis by (force simp: log_exists_def d' ls_def)
  qed
  then have "queue_ok d'" using assms(1) by (simp add: db_ok_def queue_ok_def d')
  moreover have "log_ok d'"
    using assms(1) by (auto simp: db_ok_def log_ok_def d' ls_def table_ok_filter exists_defs)
  ultimately show ?thesis
    using assms(1) by (simp add: db_ok_def rules_ok_def agents_ok_def policies_ok_def edges_ok_def
        assignments_ok_def exists_defs d')
qed

section \<open>Properties\<close>

text \<open>
  \<open>insert\<close> on every branch: a missing method, URL or decision, an unknown decision and a rule that
  does not exist (any more) are errors; otherwise the entry is stored under a new id, stamped with the
  current time and with mode \<open>proxy\<close> unless another is given, and is what \<open>getById\<close> then finds.
\<close>

theorem insert_log_spec:
  assumes "db_ok d"
  shows "case insert_log c d e of
      Inl err \<Rightarrow> (le_method e = None \<or> le_url e = None \<or> le_decision e = None) \<and> err = Sqlite NotNull
        \<or> the (le_decision e) \<notin> {''allowed'', ''denied'', ''held'', ''queued''} \<and> err = Sqlite Check
        \<or> \<not> fk (rule_exists d) (le_rule_id e) \<and> err = Sqlite ForeignKey
    | Inr (d', res) \<Rightarrow> db_ok d' \<and> (\<exists>r. res = Some r \<and> get_log d' (Some (lr_id r)) = Some r
        \<and> get_log d (Some (lr_id r)) = None \<and> t_log d' = t_log d @ [r]
        \<and> Some (lr_method r) = le_method e \<and> Some (lr_url r) = le_url e \<and> Some (lr_decision r) = le_decision e
        \<and> lr_agent_id r = le_agent_id e \<and> lr_rule_id r = le_rule_id e \<and> lr_timestamp r = datetime_now c
        \<and> lr_mode r = Some (or_else (le_mode e) ''proxy''))"
proof (cases "insert_log c d e")
  case (Inl err)
  then show ?thesis
    by (auto simp: insert_log_def Let_def log_check_def split: option.splits if_splits)
next
  case (Inr x)
  then obtain d' res where i: "insert_log c d e = Inr (d', res)" by (cases x) auto
  from insert_log_Inr [OF assms i] obtain m u dec where
    f: "le_method e = Some m" "le_url e = Some u" "le_decision e = Some dec" "db_ok d'"
      "res = Some (new_log_row c (seq_log d + 1) e m u dec)"
      "d' = d\<lparr>t_log := t_log d @ [new_log_row c (seq_log d + 1) e m u dec], seq_log := seq_log d + 1\<rparr>" by blast
  have "get_log d (Some (seq_log d + 1)) = None"
    using table_ok_new_key [OF log_table_ok [OF assms]]
    by (simp add: get_log_def row_by_id_def find_None_iff image_iff) metis
  moreover have "get_log d' (Some (seq_log d + 1)) = Some (new_log_row c (seq_log d + 1) e m u dec)"
    using row_by_id_new [OF log_table_ok [OF assms], of "new_log_row c (seq_log d + 1) e m u dec"]
    by (simp add: f(6) get_log_def)
  ultimately show ?thesis using f by (simp add: i)
qed

definition page_filter :: "log_filter \<Rightarrow> nat \<Rightarrow> nat \<Rightarrow> log_filter" where
  "page_filter f psize k = f\<lparr>lf_limit := Some (int psize), lf_offset := Some (int (k * psize))\<rparr>"

lemma pages_concat: "concat (map (\<lambda>k. take n (drop (k * n) xs)) [0..<m]) = take (m * n) xs"
  by (induction m) (simp_all add: take_add [symmetric] add.commute)

lemma filter_row_page [simp]: "filter_row (page_filter f psize k) = filter_row f"
  by (simp add: fun_eq_iff filter_row_def page_filter_def)

lemma insort_key_last: "\<forall>y \<in> set ys. f y < f x \<Longrightarrow> insort_key f x ys = ys @ [x]"
  by (induction ys) auto

lemma order_desc_rev: "sorted_wrt (<) (map key rows) \<Longrightarrow> order_desc key rows = rev rows"
  by (induction rows) (simp_all add: order_desc_def insort_key_last)

lemma query_page:
  assumes "db_ok d"
  shows "query_log d (page_filter f psize k) = take psize (drop (k * psize) (rev (filter (filter_row f) (t_log d))))"
proof -
  have "order_desc lr_id (filter (filter_row f) (t_log d)) = rev (filter (filter_row f) (t_log d))"
    using log_table_ok [OF assms] by (intro order_desc_rev) (simp add: table_ok_def sorted_wrt_filter_map)
  then show ?thesis
    by (simp add: query_log_def sql_page_def Let_def) (simp add: page_filter_def nat_mult_distrib)
qed

text \<open>
  Paging neither loses nor repeats an entry: the pages of \<open>limit\<close> entries at offsets 0, limit,
  2*limit, ... of one filter, put together, are all entries the filter accepts, each once, the newest
  (highest id) first.
\<close>

theorem log_pages_complete:
  assumes "db_ok d" "length (t_log d) \<le> m * psize"
  shows "concat (map (\<lambda>k. query_log d (page_filter f psize k)) [0..<m]) = rev (filter (filter_row f) (t_log d))"
proof -
  have "length (filter (filter_row f) (t_log d)) \<le> m * psize" using assms(2) length_filter_le le_trans by blast
  then show ?thesis by (simp add: query_page [OF assms(1)] pages_concat)
qed

lemma like_any: "sql_like [CHR ''%''] s"
  by (induction s) simp_all

lemma like_percent: "sql_like (CHR ''%'' # ps) s \<longleftrightarrow> (\<exists>a b. s = a @ b \<and> sql_like ps b)"
proof (induction s)
  case (Cons c cs)
  show ?case
  proof
    assume "sql_like (CHR ''%'' # ps) (c # cs)"
    then consider "sql_like ps (c # cs)" | "sql_like (CHR ''%'' # ps) cs" by auto
    then show "\<exists>a b. c # cs = a @ b \<and> sql_like ps b"
    proof cases
      case 1
      then show ?thesis by (intro exI [of _ "[]"] exI [of _ "c # cs"]) simp
    next
      case 2
      with Cons.IH obtain a b where "cs = a @ b" "sql_like ps b" by blast
      then show ?thesis by (intro exI [of _ "c # a"] exI [of _ b]) simp
    qed
  next
    assume "\<exists>a b. c # cs = a @ b \<and> sql_like ps b"
    then obtain a b where ab: "c # cs = a @ b" "sql_like ps b" by blast
    show "sql_like (CHR ''%'' # ps) (c # cs)"
    proof (cases a)
      case Nil
      with ab show ?thesis by simp
    next
      case (Cons x a')
      with ab Cons.IH show ?thesis by auto
    qed
  qed
qed simp

lemma like_literal:
  "CHR ''%'' \<notin> set x \<Longrightarrow> CHR ''_'' \<notin> set x \<Longrightarrow>
     sql_like (x @ ''%'') s \<longleftrightarrow> (\<exists>m b. s = m @ b \<and> map lower m = map lower x)"
proof (induction x arbitrary: s)
  case Nil
  show ?case using like_any by auto
next
  case (Cons p ps)
  have pn: "p \<noteq> CHR ''%''" "p \<noteq> CHR ''_''" using Cons.prems by auto
  show ?case
  proof (cases s)
    case (Cons c cs)
    have "sql_like ((p # ps) @ ''%'') s \<longleftrightarrow> lower p = lower c \<and> (\<exists>m b. cs = m @ b \<and> map lower m = map lower ps)"
      using Cons Cons.IH [of cs] Cons.prems pn by simp
    also have "\<dots> \<longleftrightarrow> (\<exists>m b. s = m @ b \<and> map lower m = map lower (p # ps))"
    proof
      assume "lower p = lower c \<and> (\<exists>m b. cs = m @ b \<and> map lower m = map lower ps)"
      then obtain m b where "lower p = lower c" "cs = m @ b" "map lower m = map lower ps" by blast
      then show "\<exists>m b. s = m @ b \<and> map lower m = map lower (p # ps)"
        by (intro exI [of _ "c # m"] exI [of _ b]) (simp add: Cons)
    next
      assume "\<exists>m b. s = m @ b \<and> map lower m = map lower (p # ps)"
      then show "lower p = lower c \<and> (\<exists>m b. cs = m @ b \<and> map lower m = map lower ps)"
        by (auto simp: Cons map_eq_Cons_conv) blast
    qed
    finally show ?thesis .
  qed (use Cons.prems in auto)
qed

text \<open>
  The \<open>url\<close> filter of a query is a substring search that ignores the case of ASCII letters,
  as long as the searched text has no \<open>%\<close> and no \<open>_\<close>.
\<close>

theorem url_filter_is_substring:
  assumes "lf_url f = Some x" "CHR ''%'' \<notin> set x" "CHR ''_'' \<notin> set x" "filter_row f r"
  shows "\<exists>a m b. lr_url r = a @ m @ b \<and> map lower m = map lower x"
proof (cases "x = []")
  case True
  then show ?thesis by (intro exI [of _ "lr_url r"] exI [of _ "[]"]) simp
next
  case False
  with assms(1,4) have "sql_like (''%'' @ x @ ''%'') (lr_url r)" by (simp add: filter_row_def cond_def)
  then have "sql_like (CHR ''%'' # (x @ ''%'')) (lr_url r)" by simp
  then obtain a s where a: "lr_url r = a @ s" "sql_like (x @ ''%'') s" unfolding like_percent by blast
  from a(2) obtain m b where "s = m @ b" "map lower m = map lower x"
    unfolding like_literal [OF assms(2,3)] by blast
  with a(1) show ?thesis by blast
qed

text \<open>
  The text is put into the LIKE pattern unescaped, so \<open>_\<close> in it is a wildcard: the search for
  \<open>a_b\<close>, documented as a substring match, also returns the entry whose URL is \<open>axb\<close>.
\<close>

theorem url_filter_wildcard:
  "sql_like (''%'' @ ''a_b'' @ ''%'') ''axb''"
  by code_simp

lemma append_less_same: "D @ x < D @ (y :: string) \<longleftrightarrow> x < y"
  by (induction D) simp_all

text \<open>
  Cleanup compares text of two formats. Entries are stamped \<open>YYYY-MM-DD HH:MM:SS\<close> while a \<open>Date\<close> is
  passed as \<open>YYYY-MM-DDTHH:MM:SS.sssZ\<close>: whatever its time of day, an entry of the day of the cutoff is
  deleted as older, as long as no approval refers to an entry being deleted.
\<close>

theorem cleanup_deletes_same_day:
  assumes "to_iso ms = day @ ''T'' @ cut_time" "lr_timestamp r = day @ '' '' @ entry_time"
    and "cleanup_log to_iso d (CutDate ms) = Inr (d', n)"
  shows "r \<notin> set (t_log d')"
proof -
  have "'' '' @ entry_time < ''T'' @ cut_time" by simp
  then have "lr_timestamp r < cutoff_text to_iso (CutDate ms)"
    unfolding assms(2) cutoff_text_def by (simp add: assms(1) append_less_same)
  with assms(3) show ?thesis by (auto simp: cleanup_log_def Let_def split: if_splits)
qed

text \<open>
  Cleanup is all or nothing: it either removes exactly the entries whose timestamp text precedes the
  cutoff, counting them, or, when one of these is referred to by an approval (pending or not), removes
  nothing and fails on the foreign key.
\<close>

theorem cleanup_spec:
  assumes "db_ok d"
  shows "case cleanup_log to_iso d c of
      Inl e \<Rightarrow> e = Sqlite ForeignKey
        \<and> (\<exists>q \<in> set (t_queue d). \<exists>r \<in> set (t_log d). lr_id r = aq_request_log_id q \<and> lr_timestamp r < cutoff_text to_iso c)
    | Inr (d', n) \<Rightarrow> db_ok d' \<and> t_log d' = filter (\<lambda>r. cutoff_text to_iso c \<le> lr_timestamp r) (t_log d)
        \<and> n + length (t_log d') = length (t_log d) \<and> t_queue d' = t_queue d"
proof (cases "cleanup_log to_iso d c")
  case (Inl e)
  then show ?thesis by (auto simp: cleanup_log_def Let_def split: if_splits)
next
  case (Inr x)
  then obtain d' n where x: "cleanup_log to_iso d c = Inr (d', n)" by (cases x) auto
  have "length (filter (\<lambda>r. lr_timestamp r < cutoff_text to_iso c) (t_log d))
      + length (filter (\<lambda>r. \<not> lr_timestamp r < cutoff_text to_iso c) (t_log d)) = length (t_log d)"
    by (rule sum_length_filter_compl)
  with cleanup_log_ok [OF assms x] x show ?thesis
    by (auto simp: cleanup_log_def Let_def not_less split: if_splits)
qed

section \<open>The properties at concrete inputs\<close>

definition sample_entry_log :: log_entry where
  "sample_entry_log =
     \<lparr>le_method = Some ''GET'', le_url = Some ''u'', le_request_headers = None, le_request_body_ref = None,
      le_response_status = Some 200, le_response_headers = None, le_response_body_ref = None,
      le_duration_ms = None, le_rule_id = None, le_decision = Some ''allowed'', le_agent_id = None, le_mode = None\<rparr>"

definition no_filter :: log_filter where
  "no_filter =
     \<lparr>lf_method = None, lf_decision = None, lf_url = None, lf_from = None, lf_to = None, lf_agent_id = None,
      lf_mode = None, lf_limit = None, lf_offset = None\<rparr>"

theorem insert_log_spec_witness:
  "\<exists>d' r. insert_log sample_clock empty_db sample_entry_log = Inr (d', Some r) \<and> lr_mode r = Some ''proxy''"
  using insert_log_spec [OF empty_db_ok, of sample_entry_log sample_clock]
  by (auto simp: sample_entry_log_def split: sum.splits)

definition sample_log_row :: log_row where
  "sample_log_row = new_log_row sample_clock 1 sample_entry_log ''GET'' ''AxB'' ''allowed''"

definition log_db :: db where
  "log_db = empty_db\<lparr>t_log := [sample_log_row\<lparr>lr_timestamp := ''2024-05-01 23:00:00''\<rparr>], seq_log := 1\<rparr>"

lemma log_db_ok: "db_ok log_db"
  by (simp add: db_ok_defs exists_defs empty_db_def table_ok_def log_db_def sample_log_row_def new_log_row_def
      log_check_def sample_entry_log_def acyclic_def)

theorem log_pages_complete_witness:
  "concat (map (\<lambda>k. query_log log_db (page_filter no_filter 1 k)) [0..<2]) = t_log log_db"
proof -
  have "length (t_log log_db) \<le> 2 * 1" by (simp add: log_db_def)
  from log_pages_complete [OF log_db_ok this, of no_filter] show ?thesis
    by (simp add: log_db_def filter_row_def no_filter_def cond_def)
qed

theorem url_filter_is_substring_witness:
  "\<exists>a m b. lr_url sample_log_row = a @ m @ b \<and> map lower m = map lower ''xb''"
proof -
  have "sql_like (''%'' @ ''xb'' @ ''%'') ''AxB''" by code_simp
  then have "filter_row (no_filter\<lparr>lf_url := Some ''xb''\<rparr>) sample_log_row"
    by (simp add: filter_row_def no_filter_def cond_def sample_log_row_def)
  then show ?thesis
    using url_filter_is_substring [of "no_filter\<lparr>lf_url := Some ''xb''\<rparr>" "''xb''" sample_log_row] by simp
qed

theorem cleanup_deletes_same_day_witness:
  "\<exists>d' n. cleanup_log (\<lambda>_. ''2024-05-01T10:00:00.000Z'') log_db (CutDate 0) = Inr (d', n)
     \<and> sample_log_row\<lparr>lr_timestamp := ''2024-05-01 23:00:00''\<rparr> \<notin> set (t_log d')"
proof -
  have "\<exists>d' n. cleanup_log (\<lambda>_. ''2024-05-01T10:00:00.000Z'') log_db (CutDate 0) = Inr (d', n)"
    by (simp add: cleanup_log_def Let_def log_db_def empty_db_def)
  then show ?thesis
    using cleanup_deletes_same_day [of "\<lambda>_. ''2024-05-01T10:00:00.000Z''" 0 "''2024-05-01''" "''10:00:00.000Z''"
        "sample_log_row\<lparr>lr_timestamp := ''2024-05-01 23:00:00''\<rparr>" "''23:00:00''" log_db]
    by auto
qed

theorem cleanup_spec_witness:
  "\<exists>d'. cleanup_log (\<lambda>_. []) log_db (CutText ''2025'') = Inr (d', 1) \<and> db_ok d'"
proof -
  have "\<exists>d'. cleanup_log (\<lambda>_. []) log_db (CutText ''2025'') = Inr (d', 1)"
    by (simp add: cleanup_log_def Let_def log_db_def empty_db_def cutoff_text_def less_char_def)
  then show ?thesis using cleanup_spec [OF log_db_ok, of "\<lambda>_. []" "CutText ''2025''"] by auto
qed

end
