(* ===== verification/Approval_Dao.thy ===== *)
theory Approval_Dao
  imports Log_Dao
begin

text \<open>
  The approval queue \<open>dao/sqlite/approval-queue.js\<close>: entries are enqueued as \<open>pending\<close>, resolved
  by hand or expired, and never change again. The three writing operations are the steps of a
  transition relation whose reachable states are characterised.
\<close>

section \<open>Operations\<close>

record approval_entry =
  ae_request_log_id :: "int option"
  ae_ipc_msg_id :: "string option"
  ae_suggested_pattern :: "string option"
  ae_suggested_methods :: "string list option"

definition get_approval :: "db \<Rightarrow> int option \<Rightarrow> approval_row option" where
  "get_approval d i = row_by_id aq_id (t_queue d) i"

definition new_approval_row :: "sql_clock \<Rightarrow> int \<Rightarrow> approval_entry \<Rightarrow> int \<Rightarrow> approval_row" where
  "new_approval_row c i e log_id =
     \<lparr>aq_id = i, aq_request_log_id = log_id, aq_ipc_msg_id = ae_ipc_msg_id e, aq_status = ''pending'',
      aq_created_at = datetime_now c, aq_resolved_at = None, aq_resolved_by = None, aq_create_rule = 0,
      aq_suggested_pattern = ae_suggested_pattern e,
      aq_suggested_methods = map_option strings_json (ae_suggested_methods e)\<rparr>"

definition enqueue :: "sql_clock \<Rightarrow> db \<Rightarrow> approval_entry \<Rightarrow> js_error + db \<times> approval_row option" where
  "enqueue c d e =
     (case ae_request_log_id e of
        None \<Rightarrow> Inl (Sqlite NotNull)
      | Some log_id \<Rightarrow>
          if \<not> log_exists d log_id then Inl (Sqlite ForeignKey)
          else
            (let i = seq_queue d + 1;
                 d' = d\<lparr>t_queue := t_queue d @ [new_approval_row c i e log_id], seq_queue := i\<rparr>
             in Inr (d', get_approval d' (Some i))))"

record resolution =
  re_action :: "string option"
  re_resolved_by :: "string option"
  re_create_rule :: bool

text \<open>\<open>statusMap[action.action] ?? action.action\<close>.\<close>

definition resolved_status :: "string option \<Rightarrow> string option" where
  "resolved_status a =
     (if a = Some ''approve'' then Some ''approved''
      else if a = Some ''reject'' then Some ''rejected''
      else a)"

definition resolved_row :: "sql_clock \<Rightarrow> string \<Rightarrow> resolution \<Rightarrow> approval_row \<Rightarrow> approval_row" where
  "resolved_row c status a row = row\<lparr>
     aq_status := status, aq_resolved_at := Some (datetime_now c), aq_resolved_by := re_resolved_by a,
     aq_create_rule := (if re_create_rule a then 1 else 0)\<rparr>"

definition resolve :: "sql_clock \<Rightarrow> db \<Rightarrow> int option \<Rightarrow> resolution \<Rightarrow> js_error + db \<times> approval_row option" where
  "resolve c d i a =
     (case row_by_id aq_id (t_queue d) i of
        None \<Rightarrow> Inr (d, None)
      | Some row \<Rightarrow>
          if aq_status row \<noteq> ''pending'' then Inr (d, None)
          else
            (case resolved_status (re_action a) of
               None \<Rightarrow> Inl (Sqlite NotNull)
             | Some status \<Rightarrow>
                 if \<not> approval_check (resolved_row c status a row) then Inl (Sqlite Check)
                 else
                   (let d' = d\<lparr>t_queue := update_where aq_id i (resolved_row c status a) (t_queue d)\<rparr>
                    in Inr (d', get_approval d' i))))"

text \<open>\<open>listPending\<close>: the row, joined with the method and URL of its log entry, oldest first.\<close>

definition list_pending :: "db \<Rightarrow> (approval_row \<times> (string \<times> string) option) list" where
  "list_pending d =
     map (\<lambda>a. (a, map_option (\<lambda>l. (lr_method l, lr_url l)) (row_by_id lr_id (t_log d) (Some (aq_request_log_id a)))))
       (sort_key aq_created_at (filter (\<lambda>a. aq_status a = ''pending'') (t_queue d)))"

definition stale :: "sql_clock \<Rightarrow> int \<Rightarrow> approval_row \<Rightarrow> bool" where
  "stale c ttl row \<longleftrightarrow> aq_status row = ''pending'' \<and> aq_created_at row < datetime_ago c ttl"

definition expired_row :: "sql_clock \<Rightarrow> approval_row \<Rightarrow> approval_row" where
  "expired_row c row = row\<lparr>
     aq_status := ''rejected'', aq_resolved_at := Some (datetime_now c), aq_resolved_by := Some ''system:expired''\<rparr>"

definition expire_stale :: "sql_clock \<Rightarrow> db \<Rightarrow> int \<Rightarrow> db \<times> nat" where
  "expire_stale c d ttl =
     (d\<lparr>t_queue := map (\<lambda>row. if stale c ttl row then expired_row c row else row) (t_queue d)\<rparr>,
      length (filter (stale c ttl) (t_queue d)))"

section \<open>The invariant\<close>

lemma queue_table_ok: "db_ok d \<Longrightarrow> table_ok aq_id (seq_queue d) (t_queue d)"
  by (simp add: db_ok_def queue_ok_def)

lemma enqueue_Inr:
  assumes "db_ok d" "enqueue c d e = Inr (d', res)"
  shows "\<exists>log_id. ae_request_log_id e = Some log_id \<and> log_exists d log_id
    \<and> res = Some (new_approval_row c (seq_queue d + 1) e log_id)
    \<and> t_queue d' = t_queue d @ [new_approval_row c (seq_queue d + 1) e log_id] \<and> db_ok d'"
proof -
  from assms(2) obtain log_id where
    l: "ae_request_log_id e = Some log_id" "log_exists d log_id"
    and d': "d' = d\<lparr>t_queue := t_queue d @ [new_approval_row c (seq_queue d + 1) e log_id], seq_queue := seq_queue d + 1\<rparr>"
    and res: "res = get_approval d' (Some (seq_queue d + 1))"
    by (auto simp: enqueue_def Let_def split: option.splits if_splits)
  let ?row = "new_approval_row c (seq_queue d + 1) e log_id"
  have key: "aq_id ?row = seq_queue d + 1" by (simp add: new_approval_row_def)
  have "db_ok d'"
    unfolding d' by (rule db_ok_set_queue [OF assms(1) table_ok_insert [OF queue_table_ok [OF assms(1)] key]])
      (use assms(1) l in \<open>auto simp: db_ok_def queue_ok_def new_approval_row_def approval_check_def split: option.splits\<close>)
  moreover have "res = Some ?row"
    using row_by_id_new [OF queue_table_ok [OF assms(1)] key] by (simp add: res d' get_approval_def)
  ultimately show ?thesis using l by (simp add: d')
qed

lemma resolve_Inr:
  assumes "db_ok d" "resolve c d i a = Inr (d', res)"
  obtains "res = None" "d' = d" "\<And>row. row_by_id aq_id (t_queue d) i = Some row \<Longrightarrow> aq_status row \<noteq> ''pending''"
  | row status where "row_by_id aq_id (t_queue d) i = Some row" "aq_status row = ''pending''"
      "resolved_status (re_action a) = Some status" "status \<in> {''pending'', ''approved'', ''rejected''}"
      "d' = d\<lparr>t_queue := update_where aq_id i (resolved_row c status a) (t_queue d)\<rparr>"
      "res = Some (resolved_row c status a row)" "db_ok d'"
proof (cases "\<exists>row. row_by_id aq_id (t_queue d) i = Some row \<and> aq_status row = ''pending''")
  case False
  then have n: "\<And>row. row_by_id aq_id (t_queue d) i = Some row \<Longrightarrow> aq_status row \<noteq> ''pending''" by blast
  then have "res = None" "d' = d" using assms(2) by (auto simp: resolve_def split: option.splits if_splits)
  with n show ?thesis using that(1) by blast
next
  case True
  then obtain row where row: "row_by_id aq_id (t_queue d) i = Some row" "aq_status row = ''pending''" by blast
  from assms(2) row obtain status where
    st: "resolved_status (re_action a) = Some status" "approval_check (resolved_row c status a row)"
    and d': "d' = d\<lparr>t_queue := update_where aq_id i (resolved_row c status a) (t_queue d)\<rparr>"
    and res: "res = get_approval d' i"
    by (auto simp: resolve_def Let_def split: option.splits if_splits)
  have key: "\<And>r. Some (aq_id r) = i \<Longrightarrow> aq_id (resolved_row c status a r) = aq_id r" by (simp add: resolved_row_def)
  have stv: "status \<in> {''pending'', ''approved'', ''rejected''}"
    using st(2) by (simp add: approval_check_def resolved_row_def)
  have "db_ok (d\<lparr>t_queue := update_where aq_id i (resolved_row c status a) (t_queue d), seq_queue := seq_queue d\<rparr>)"
    by (rule db_ok_set_queue [OF assms(1) table_ok_update_where [OF queue_table_ok [OF assms(1)] key]])
      (use assms(1) stv in \<open>auto simp: db_ok_def queue_ok_def resolved_row_def approval_check_def dest!: in_update_where\<close>)
  then have "db_ok d'" by (simp add: d')
  moreover have "res = Some (resolved_row c status a row)"
    by (simp add: res get_approval_def d' row_by_id_update_where [where key = aq_id and i = i and f = "resolved_row c status a", OF key] row)
  ultimately show ?thesis using that(2) [OF row st(1) stv d'] by blast
qed

lemma expire_stale_ok:
  assumes "db_ok d"
  shows "db_ok (fst (expire_stale c d ttl))"
proof -
  let ?qs = "map (\<lambda>row. if stale c ttl row then expired_row c row else row) (t_queue d)"
  have "db_ok (d\<lparr>t_queue := ?qs, seq_queue := seq_queue d\<rparr>)"
    by (rule db_ok_set_queue [OF assms table_ok_map [OF queue_table_ok [OF assms]]])
      (use assms in \<open>auto simp: db_ok_def queue_ok_def expired_row_def approval_check_def split: if_splits\<close>)
  then show ?thesis by (simp add: expire_stale_def)
qed

section \<open>The life of an entry\<close>

text \<open>
  A step of the queue, with the clock of the moment. A resolution whose action is neither of the
  documented verbs would be refused, or (the text \<open>pending\<close>) keep the entry pending.
\<close>

inductive queue_step :: "db \<Rightarrow> db \<Rightarrow> bool" where
  step_enqueue: "enqueue c d e = Inr (d', res) \<Longrightarrow> queue_step d d'"
| step_resolve: "resolve c d i a = Inr (d', res) \<Longrightarrow> queue_step d d'"
| step_expire: "queue_step d (fst (expire_stale c d ttl))"

inductive_cases queue_stepE: "queue_step d d'"

definition evolves :: "approval_row \<Rightarrow> approval_row \<Rightarrow> bool" where
  "evolves r r' \<longleftrightarrow>
     r' = r \<or>
     aq_status r = ''pending'' \<and> aq_id r' = aq_id r \<and> aq_request_log_id r' = aq_request_log_id r
     \<and> aq_ipc_msg_id r' = aq_ipc_msg_id r \<and> aq_created_at r' = aq_created_at r
     \<and> aq_suggested_pattern r' = aq_suggested_pattern r \<and> aq_suggested_methods r' = aq_suggested_methods r
     \<and> aq_resolved_at r' \<noteq> None"

lemma evolves_trans: "evolves r r' \<Longrightarrow> evolves r' r'' \<Longrightarrow> evolves r r''"
  by (auto simp: evolves_def)

lemma queue_step_ok: "queue_step d d' \<Longrightarrow> db_ok d \<Longrightarrow> db_ok d'"
  by (erule queue_stepE) (auto dest: enqueue_Inr elim: resolve_Inr intro: expire_stale_ok)

lemma update_where_hit: "r \<in> set rows \<Longrightarrow> Some (key r) = i \<Longrightarrow> f r \<in> set (update_where key i f rows)"
  by (force simp: update_where_def)

lemma update_where_miss: "r \<in> set rows \<Longrightarrow> Some (key r) \<noteq> i \<Longrightarrow> r \<in> set (update_where key i f rows)"
  by (force simp: update_where_def)

lemma resolved_row_evolves: "aq_status r = ''pending'' \<Longrightarrow> evolves r (resolved_row c status a r)"
  by (simp add: evolves_def resolved_row_def)

lemma queue_step_evolves:
  assumes "queue_step d d'" "db_ok d" "r \<in> set (t_queue d)"
  shows "\<exists>r' \<in> set (t_queue d'). evolves r r'"
  using assms(1)
proof cases
  case (step_enqueue c e res)
  with enqueue_Inr [OF assms(2)] assms(3) show ?thesis by (fastforce simp: evolves_def)
next
  case (step_resolve c i a res)
  from assms(2) step_resolve show ?thesis
  proof (cases rule: resolve_Inr)
    case 1
    with assms(3) show ?thesis by (auto simp: evolves_def)
  next
    case (2 row status)
    show ?thesis
    proof (cases "Some (aq_id r) = i")
      case True
      with row_by_id_mem [OF queue_table_ok [OF assms(2)] assms(3)] 2(1) have "row = r" by simp
      then have "evolves r (resolved_row c status a r)" using 2(2) resolved_row_evolves by simp
      moreover have "resolved_row c status a r \<in> set (t_queue d')"
        using update_where_hit [where key = aq_id and f = "resolved_row c status a", OF assms(3) True] 2(5) by simp
      ultimately show ?thesis by blast
    next
      case False
      have "r \<in> set (t_queue d')" using update_where_miss [where key = aq_id and f = "resolved_row c status a", OF assms(3) False] 2(5) by simp
      then show ?thesis by (auto simp: evolves_def)
    qed
  qed
next
  case (step_expire c ttl)
  let ?f = "\<lambda>row. if stale c ttl row then expired_row c row else row"
  have "?f r \<in> set (t_queue d')" using assms(3) step_expire by (auto simp: expire_stale_def)
  moreover have "evolves r (?f r)" by (auto simp: evolves_def stale_def expired_row_def)
  ultimately show ?thesis by blast
qed

lemma queue_steps:
  assumes "queue_step\<^sup>*\<^sup>* d d'" "db_ok d"
  shows "db_ok d' \<and> (\<forall>r \<in> set (t_queue d). \<exists>r' \<in> set (t_queue d'). evolves r r')"
  using assms
proof (induction rule: rtranclp_induct)
  case base
  then show ?case by (auto simp: evolves_def)
next
  case (step y z)
  then have y: "db_ok y" "\<forall>r \<in> set (t_queue d). \<exists>r' \<in> set (t_queue y). evolves r r'" by auto
  show ?case
  proof (intro conjI ballI)
    show "db_ok z" using queue_step_ok [OF step.hyps(2) y(1)] .
    fix r assume "r \<in> set (t_queue d)"
    with y(2) obtain r' where r': "r' \<in> set (t_queue y)" "evolves r r'" by blast
    from queue_step_evolves [OF step.hyps(2) y(1) r'(1)] r'(2) show "\<exists>r' \<in> set (t_queue z). evolves r r'"
      using evolves_trans by blast
  qed
qed

section \<open>Properties\<close>

text \<open>
  C13: An entry of the queue lives one life: after any sequence of enqueues, resolutions and expirations
  every entry is still there with its log entry, its message id and its suggestion, and an entry that
  was not pending any more is exactly what it was.
\<close>

theorem approvals_are_final:
  assumes "db_ok d" "queue_step\<^sup>*\<^sup>* d d'" "r \<in> set (t_queue d)"
  shows "db_ok d' \<and> (\<exists>r' \<in> set (t_queue d'). aq_id r' = aq_id r \<and> aq_request_log_id r' = aq_request_log_id r
      \<and> aq_ipc_msg_id r' = aq_ipc_msg_id r \<and> aq_suggested_pattern r' = aq_suggested_pattern r
      \<and> (aq_status r \<noteq> ''pending'' \<longrightarrow> r' = r))"
  using queue_steps [OF assms(2,1)] assms(3) by (fastforce simp: evolves_def)

text \<open>
  No request is answered twice: once \<open>resolve\<close> has approved or rejected an entry, every later
  \<open>resolve\<close> of it, with any action, after any sequence of queue operations, returns null and changes
  nothing.
\<close>

theorem resolve_at_most_once:
  assumes "db_ok d" "resolve c d i a = Inr (d1, Some r)" "re_action a \<noteq> Some ''pending''"
    and "queue_step\<^sup>*\<^sup>* d1 d2"
  shows "aq_status r \<in> {''approved'', ''rejected''} \<and> resolve c' d2 i a' = Inr (d2, None)"
  using assms(1,2)
proof (cases rule: resolve_Inr)
  case (2 row status)
  have r: "r = resolved_row c status a row" using 2(6) by simp
  have st: "aq_status r \<in> {''approved'', ''rejected''}"
    using 2(3,4) assms(3) by (auto simp: r resolved_row_def resolved_status_def split: if_splits)
  from 2(1) have i: "i = Some (aq_id row)" "row \<in> set (t_queue d)" by (auto dest: row_by_id_SomeD)
  have "r \<in> set (t_queue d1)" using i update_where_hit [of row "t_queue d" aq_id] by (simp add: 2(5) r)
  with queue_steps [OF assms(4) 2(7)] st have d2: "db_ok d2" "r \<in> set (t_queue d2)"
    by (auto simp: evolves_def)
  have "i = Some (aq_id r)" using i by (simp add: r resolved_row_def)
  with row_by_id_mem [OF queue_table_ok [OF d2(1)] d2(2)] st show ?thesis
    by (auto simp: resolve_def)
qed simp

text \<open>
  Expiry rejects exactly the entries that are pending and older than the hold timeout, marked
  \<open>system:expired\<close>, returns their number, and leaves every other entry alone.
\<close>

theorem expire_stale_spec:
  assumes "db_ok d"
  shows "db_ok (fst (expire_stale c d ttl))
    \<and> snd (expire_stale c d ttl) = card {r \<in> set (t_queue d). aq_status r = ''pending'' \<and> aq_created_at r < datetime_ago c ttl}
    \<and> (\<forall>r \<in> set (t_queue d). get_approval (fst (expire_stale c d ttl)) (Some (aq_id r))
        = Some (if aq_status r = ''pending'' \<and> aq_created_at r < datetime_ago c ttl
                then r\<lparr>aq_status := ''rejected'', aq_resolved_at := Some (datetime_now c), aq_resolved_by := Some ''system:expired''\<rparr>
                else r))"
proof (intro conjI ballI)
  show "db_ok (fst (expire_stale c d ttl))" by (rule expire_stale_ok [OF assms])
  have "distinct (t_queue d)" using table_ok_distinct [OF queue_table_ok [OF assms]] by (simp add: distinct_map)
  then have "length (filter (stale c ttl) (t_queue d)) = card (set (filter (stale c ttl) (t_queue d)))"
    by (simp add: distinct_length_filter Int_def conj_commute)
  then show "snd (expire_stale c d ttl) = card {r \<in> set (t_queue d). aq_status r = ''pending'' \<and> aq_created_at r < datetime_ago c ttl}"
    by (simp add: expire_stale_def stale_def)
  fix r assume r: "r \<in> set (t_queue d)"
  let ?f = "\<lambda>row. if stale c ttl row then expired_row c row else row"
  have "row_by_id aq_id (map ?f (t_queue d)) (Some (aq_id r)) = map_option ?f (row_by_id aq_id (t_queue d) (Some (aq_id r)))"
    by (rule row_by_id_map) (simp add: expired_row_def)
  with row_by_id_mem [OF queue_table_ok [OF assms] r]
  show "get_approval (fst (expire_stale c d ttl)) (Some (aq_id r))
      = Some (if aq_status r = ''pending'' \<and> aq_created_at r < datetime_ago c ttl
              then r\<lparr>aq_status := ''rejected'', aq_resolved_at := Some (datetime_now c), aq_resolved_by := Some ''system:expired''\<rparr>
              else r)"
    by (simp add: get_approval_def expire_stale_def stale_def expired_row_def)
qed

text \<open>
  \<open>listPending\<close> shows every pending entry once, in the order of creation, each with the method and
  URL of the request it is about.
\<close>

theorem list_pending_spec:
  assumes "db_ok d"
  shows "set (map fst (list_pending d)) = {r \<in> set (t_queue d). aq_status r = ''pending''}
    \<and> distinct (map (\<lambda>e. aq_id (fst e)) (list_pending d))
    \<and> sorted (map (\<lambda>e. aq_created_at (fst e)) (list_pending d))
    \<and> (\<forall>(r, req) \<in> set (list_pending d). \<exists>l \<in> set (t_log d). lr_id l = aq_request_log_id r \<and> req = Some (lr_method l, lr_url l))"
proof (intro conjI)
  have fst_eq: "map fst (list_pending d) = sort_key aq_created_at (filter (\<lambda>a. aq_status a = ''pending'') (t_queue d))"
    by (simp add: list_pending_def comp_def)
  then show "set (map fst (list_pending d)) = {r \<in> set (t_queue d). aq_status r = ''pending''}" by auto
  have "map (\<lambda>e. aq_created_at (fst e)) (list_pending d) = map aq_created_at (map fst (list_pending d))" by simp
  then show "sorted (map (\<lambda>e. aq_created_at (fst e)) (list_pending d))" unfolding fst_eq by simp
  have "map (\<lambda>e. aq_id (fst e)) (list_pending d) = map aq_id (map fst (list_pending d))" by simp
  then show "distinct (map (\<lambda>e. aq_id (fst e)) (list_pending d))"
    unfolding fst_eq using table_ok_distinct [OF queue_table_ok [OF assms]] by (auto simp: distinct_map inj_on_def)
  show "\<forall>(r, req) \<in> set (list_pending d). \<exists>l \<in> set (t_log d). lr_id l = aq_request_log_id r \<and> req = Some (lr_method l, lr_url l)"
  proof
    fix e assume e: "e \<in> set (list_pending d)"
    then obtain r where r: "r \<in> set (t_queue d)"
      "e = (r, map_option (\<lambda>l. (lr_method l, lr_url l)) (row_by_id lr_id (t_log d) (Some (aq_request_log_id r))))"
      by (auto simp: list_pending_def)
    from assms r(1) obtain l where l: "l \<in> set (t_log d)" "lr_id l = aq_request_log_id r"
      by (auto simp: db_ok_def queue_ok_def log_exists_def)
    with row_by_id_mem [OF log_table_ok [OF assms] l(1)] r(2)
    show "case e of (r, req) \<Rightarrow> \<exists>l \<in> set (t_log d). lr_id l = aq_request_log_id r \<and> req = Some (lr_method l, lr_url l)"
      by auto
  qed
qed

section \<open>The properties at concrete inputs\<close>

definition sample_request :: approval_entry where
  "sample_request =
     \<lparr>ae_request_log_id = Some 1, ae_ipc_msg_id = Some ''m'', ae_suggested_pattern = Some ''x'',
      ae_suggested_methods = Some [''GET'']\<rparr>"

definition pending_row :: approval_row where
  "pending_row = new_approval_row (sample_clock\<lparr>clk_datetime := \<lambda>_. ''2024-05-01 23:00:00''\<rparr>) 1 sample_request 1"

definition queue_db :: db where
  "queue_db = log_db\<lparr>t_queue := [pending_row], seq_queue := 1\<rparr>"

lemma queue_db_ok: "db_ok queue_db"
  by (simp add: db_ok_defs exists_defs empty_db_def table_ok_def log_db_def queue_db_def sample_log_row_def
      new_log_row_def log_check_def sample_entry_log_def acyclic_def pending_row_def new_approval_row_def
      approval_check_def sample_request_def)

definition approve :: resolution where
  "approve = \<lparr>re_action = Some ''approve'', re_resolved_by = Some ''api'', re_create_rule = False\<rparr>"

lemma queue_db_pending: "row_by_id aq_id (t_queue queue_db) (Some 1) = Some pending_row" "aq_status pending_row = ''pending''"
  by (simp_all add: row_by_id_def queue_db_def pending_row_def new_approval_row_def)

lemma queue_db_approve: "\<exists>d1 r. resolve sample_clock queue_db (Some 1) approve = Inr (d1, Some r)"
  using queue_db_pending
  by (simp add: resolve_def approve_def resolved_status_def approval_check_def Let_def get_approval_def
      row_by_id_update_where resolved_row_def)

theorem approvals_are_final_witness:
  "\<exists>d1. queue_step queue_db d1 \<and> db_ok d1 \<and> (\<exists>r' \<in> set (t_queue d1). aq_id r' = 1)"
proof -
  from queue_db_approve obtain d1 r where s: "resolve sample_clock queue_db (Some 1) approve = Inr (d1, Some r)" by blast
  then have q: "queue_step queue_db d1" by (rule step_resolve)
  have "pending_row \<in> set (t_queue queue_db)" by (simp add: queue_db_def)
  from approvals_are_final [OF queue_db_ok r_into_rtranclp [of queue_step, OF q] this] q show ?thesis
    by (auto simp: pending_row_def new_approval_row_def)
qed

theorem resolve_at_most_once_witness:
  "\<exists>d1 r. resolve sample_clock queue_db (Some 1) approve = Inr (d1, Some r)
     \<and> resolve sample_clock d1 (Some 1) (approve\<lparr>re_action := Some ''reject''\<rparr>) = Inr (d1, None)"
proof -
  from queue_db_approve obtain d1 r where s: "resolve sample_clock queue_db (Some 1) approve = Inr (d1, Some r)" by blast
  have "re_action approve \<noteq> Some ''pending''" by (simp add: approve_def)
  from resolve_at_most_once [OF queue_db_ok s this rtranclp.rtrancl_refl] s show ?thesis by blast
qed

theorem expire_stale_spec_witness:
  "\<exists>r. get_approval (fst (expire_stale (sample_clock\<lparr>clk_datetime := \<lambda>_. ''2024-05-02 00:00:00''\<rparr>) queue_db 60)) (Some 1) = Some r
     \<and> aq_status r = ''rejected'' \<and> aq_resolved_by r = Some ''system:expired''"
proof -
  let ?c = "sample_clock\<lparr>clk_datetime := \<lambda>_. ''2024-05-02 00:00:00''\<rparr>"
  have "pending_row \<in> set (t_queue queue_db)" "aq_id pending_row = 1"
    "aq_created_at pending_row < datetime_ago ?c 60"
    by (simp_all add: queue_db_def pending_row_def new_approval_row_def datetime_now_def datetime_ago_def less_char_def)
  then show ?thesis
    using expire_stale_spec [OF queue_db_ok, of ?c 60] queue_db_pending(2) by auto
qed

theorem list_pending_spec_witness:
  "set (map fst (list_pending queue_db)) = {pending_row}"
proof -
  have "{r \<in> set (t_queue queue_db). aq_status r = ''pending''} = {pending_row}"
    using queue_db_pending(2) by (auto simp: queue_db_def)
  with list_pending_spec [OF queue_db_ok] show ?thesis by blast
qed

end
