(* ===== verification/Policies_Dao.thy ===== *)
theory Policies_Dao
  imports Rules_Dao "HOL-Library.Multiset"
begin

text \<open>
  The policy store \<open>dao/sqlite/policies.js\<close>: policies, their sub-policy edges, their assignment to
  agents, and the two recursive queries over the edges. A recursive common table expression with
  UNION ALL is SQLite's queue: the first row is taken, handed to the outer SELECT, and its
  successors are appended; it ends when the queue is empty, so on a cyclic table it does not end.
  The walks are \<open>partial_function (option)\<close>, with \<open>None\<close> for a query that does not return.

  Ids come from \<open>Number(...)\<close> or from a request body: \<open>None\<close> is NaN, null or undefined, all bound
  as NULL.
\<close>

section \<open>Policies\<close>

record policy =
  p_id :: int
  p_name :: string
  p_description :: string
  p_created_at :: string

definition deserialize_policy :: "policy_row \<Rightarrow> policy" where
  "deserialize_policy row =
     \<lparr>p_id = pr_id row, p_name = pr_name row, p_description = or_else (pr_description row) [],
      p_created_at = pr_created_at row\<rparr>"

lemma deserialize_policy_simps [simp]:
  "p_id (deserialize_policy row) = pr_id row" "p_name (deserialize_policy row) = pr_name row"
  by (simp_all add: deserialize_policy_def)

text \<open>\<open>ORDER BY id\<close> is rowid order.\<close>

definition list_policies :: "db \<Rightarrow> policy list" where
  "list_policies d = map deserialize_policy (t_policies d)"

definition get_policy :: "db \<Rightarrow> int option \<Rightarrow> policy option" where
  "get_policy d i = map_option deserialize_policy (row_by_id pr_id (t_policies d) i)"

definition new_policy_row :: "sql_clock \<Rightarrow> int \<Rightarrow> string \<Rightarrow> string option \<Rightarrow> policy_row" where
  "new_policy_row c i name description =
     \<lparr>pr_id = i, pr_name = name, pr_description = Some (or_else description []),
      pr_created_at = datetime_now c\<rparr>"

definition create_policy ::
  "sql_clock \<Rightarrow> db \<Rightarrow> string option \<Rightarrow> string option \<Rightarrow> js_error + db \<times> policy option" where
  "create_policy c d name description =
     (case name of
        None \<Rightarrow> Inl (Sqlite NotNull)
      | Some n \<Rightarrow>
          if n \<in> pr_name ` set (t_policies d) then Inl (Sqlite Unique)
          else
            (let i = seq_policies d + 1;
                 d' = d\<lparr>t_policies := t_policies d @ [new_policy_row c i n description], seq_policies := i\<rparr>
             in Inr (d', get_policy d' (Some i))))"

datatype policy_change =
    PcId
  | PcCreatedAt
  | PcName "string option"
  | PcDescription "string option"
  | PcOther string

fun apply_policy_change :: "policy_change \<Rightarrow> policy_row \<Rightarrow> js_error + policy_row" where
  "apply_policy_change PcId row = Inr row"
| "apply_policy_change PcCreatedAt row = Inr row"
| "apply_policy_change (PcName v) row =
     (case v of None \<Rightarrow> Inl (Sqlite NotNull) | Some n \<Rightarrow> Inr (row\<lparr>pr_name := n\<rparr>))"
| "apply_policy_change (PcDescription v) row = Inr (row\<lparr>pr_description := v\<rparr>)"
| "apply_policy_change (PcOther k) row = Inl (Sqlite (NoSuchColumn k))"

fun apply_policy_changes :: "policy_change list \<Rightarrow> policy_row \<Rightarrow> js_error + policy_row" where
  "apply_policy_changes [] row = Inr row"
| "apply_policy_changes (c # cs) row =
     (case apply_policy_change c row of Inl e \<Rightarrow> Inl e | Inr row' \<Rightarrow> apply_policy_changes cs row')"

definition unknown_policy_columns :: "policy_change list \<Rightarrow> string list" where
  "unknown_policy_columns cs = concat (map (\<lambda>c. case c of PcOther k \<Rightarrow> [k] | _ \<Rightarrow> []) cs)"

definition run_policy_update ::
  "db \<Rightarrow> int option \<Rightarrow> policy_change list \<Rightarrow> policy_row \<Rightarrow> js_error + db" where
  "run_policy_update d i cols row =
     (if unknown_policy_columns cols \<noteq> [] then Inl (Sqlite (NoSuchColumn (hd (unknown_policy_columns cols))))
      else
        (case apply_policy_changes cols row of
           Inl e \<Rightarrow> Inl e
         | Inr row' \<Rightarrow>
             if \<exists>q \<in> set (t_policies d). pr_id q \<noteq> pr_id row \<and> pr_name q = pr_name row'
             then Inl (Sqlite Unique)
             else Inr (d\<lparr>t_policies := update_where pr_id i (\<lambda>_. row') (t_policies d)\<rparr>)))"

definition update_policy :: "db \<Rightarrow> int option \<Rightarrow> policy_change list \<Rightarrow> js_error + db \<times> policy option" where
  "update_policy d i changes =
     (case row_by_id pr_id (t_policies d) i of
        None \<Rightarrow> Inr (d, None)
      | Some row \<Rightarrow>
          (let cols = filter (\<lambda>c. c \<noteq> PcId \<and> c \<noteq> PcCreatedAt) changes in
           (case (if cols \<noteq> [] then run_policy_update d i cols row else Inr d) of
              Inl e \<Rightarrow> Inl e
            | Inr d' \<Rightarrow> Inr (d', get_policy d' i))))"

text \<open>
  \<open>delete\<close>: the edges and assignments of the policy go with it (ON DELETE CASCADE), its rules stay
  without a policy (ON DELETE SET NULL).
\<close>

definition clear_policy_refs :: "int option \<Rightarrow> rule_row list \<Rightarrow> rule_row list" where
  "clear_policy_refs i = map (\<lambda>r. if rr_policy_id r = i then r\<lparr>rr_policy_id := None\<rparr> else r)"

definition delete_policy :: "db \<Rightarrow> int option \<Rightarrow> db" where
  "delete_policy d i =
     (if row_by_id pr_id (t_policies d) i = None then d
      else d\<lparr>t_children := filter (\<lambda>(p, c). Some p \<noteq> i \<and> Some c \<noteq> i) (t_children d),
             t_agent_policies := filter (\<lambda>(a, p). Some p \<noteq> i) (t_agent_policies d),
             t_rules := clear_policy_refs i (t_rules d),
             t_policies := delete_where pr_id i (t_policies d)\<rparr>)"

section \<open>Sub-policies\<close>

definition parents_of :: "(int \<times> int) list \<Rightarrow> int \<Rightarrow> int list" where
  "parents_of es x = map fst (filter (\<lambda>(p, c). c = x) es)"

definition children_ids :: "(int \<times> int) list \<Rightarrow> int \<Rightarrow> int list" where
  "children_ids es x = map snd (filter (\<lambda>(p, c). p = x) es)"

text \<open>
  \<open>cycleCheck.get(parentId, childId)\<close>: the ancestors of the first argument are enumerated until one
  equals the second.
\<close>

partial_function (option) walk_ancestors :: "(int \<times> int) list \<Rightarrow> int option \<Rightarrow> int list \<Rightarrow> bool option" where
  "walk_ancestors es target queue =
     (case queue of
        [] \<Rightarrow> Some False
      | x # rest \<Rightarrow>
          if target = Some x then Some True else walk_ancestors es target (rest @ parents_of es x))"

definition cycle_check :: "db \<Rightarrow> int option \<Rightarrow> int option \<Rightarrow> bool option" where
  "cycle_check d start target =
     walk_ancestors (t_children d) target (case start of None \<Rightarrow> [] | Some x \<Rightarrow> parents_of (t_children d) x)"

definition insert_child :: "db \<Rightarrow> int option \<Rightarrow> int option \<Rightarrow> js_error + db" where
  "insert_child d parent child =
     (case (parent, child) of
        (Some p, Some c) \<Rightarrow>
          if p = c then Inl (Sqlite Check)
          else if (p, c) \<in> set (t_children d) then Inl (Sqlite Unique)
          else if \<not> policy_exists d p \<or> \<not> policy_exists d c then Inl (Sqlite ForeignKey)
          else Inr (d\<lparr>t_children := t_children d @ [(p, c)]\<rparr>)
      | _ \<Rightarrow> Inl (Sqlite NotNull))"

definition add_child :: "db \<Rightarrow> int option \<Rightarrow> int option \<Rightarrow> (js_error + db) option" where
  "add_child d parent child =
     (if parent \<noteq> None \<and> parent = child then Some (Inl CycleSelf)
      else
        (case cycle_check d parent child of
           None \<Rightarrow> None
         | Some found \<Rightarrow> Some (if found then Inl CycleLoop else insert_child d parent child)))"

definition remove_child :: "db \<Rightarrow> int option \<Rightarrow> int option \<Rightarrow> db" where
  "remove_child d parent child =
     d\<lparr>t_children := filter (\<lambda>(p, c). \<not> (Some p = parent \<and> Some c = child)) (t_children d)\<rparr>"

text \<open>The join has no ORDER BY; the model lists the children by id.\<close>

definition get_children :: "db \<Rightarrow> int option \<Rightarrow> policy list" where
  "get_children d parent =
     map deserialize_policy
       (filter (\<lambda>row. \<exists>(p, c) \<in> set (t_children d). Some p = parent \<and> c = pr_id row) (t_policies d))"

definition get_tree :: "db \<Rightarrow> (policy \<times> policy list) list" where
  "get_tree d =
     (let child_ids = snd ` set (t_children d);
          roots = filter (\<lambda>p. p_id p \<notin> child_ids) (list_policies d)
      in map (\<lambda>root. (root, get_children d (Some (p_id root)))) roots)"

section \<open>Assignment to agents\<close>

definition get_policy_agents :: "db \<Rightarrow> int option \<Rightarrow> (int \<times> string) list" where
  "get_policy_agents d i =
     map (\<lambda>a. (ar_id a, ar_name a))
       (filter (\<lambda>a. \<exists>(x, p) \<in> set (t_agent_policies d). x = ar_id a \<and> Some p = i) (t_agents d))"

text \<open>INSERT OR IGNORE skips a NULL or a duplicate; a foreign key is not ignored.\<close>

definition assign_to_agent :: "db \<Rightarrow> int option \<Rightarrow> int option \<Rightarrow> js_error + db" where
  "assign_to_agent d pol agent =
     (case (agent, pol) of
        (Some a, Some p) \<Rightarrow>
          if (a, p) \<in> set (t_agent_policies d) then Inr d
          else if \<not> agent_exists d a \<or> \<not> policy_exists d p then Inl (Sqlite ForeignKey)
          else Inr (d\<lparr>t_agent_policies := t_agent_policies d @ [(a, p)]\<rparr>)
      | _ \<Rightarrow> Inr d)"

definition unassign_from_agent :: "db \<Rightarrow> int option \<Rightarrow> int option \<Rightarrow> db" where
  "unassign_from_agent d pol agent =
     d\<lparr>t_agent_policies := filter (\<lambda>(a, p). \<not> (Some a = agent \<and> Some p = pol)) (t_agent_policies d)\<rparr>"

definition get_agent_policies :: "db \<Rightarrow> int option \<Rightarrow> policy list" where
  "get_agent_policies d agent =
     map deserialize_policy
       (filter (\<lambda>row. \<exists>(a, p) \<in> set (t_agent_policies d). Some a = agent \<and> p = pr_id row) (t_policies d))"

section \<open>The rules of an agent\<close>

partial_function (option) walk_descendants :: "(int \<times> int) list \<Rightarrow> int list \<Rightarrow> int list \<Rightarrow> int list option" where
  "walk_descendants es queue seen =
     (case queue of
        [] \<Rightarrow> Some seen
      | x # rest \<Rightarrow> walk_descendants es (rest @ children_ids es x) (if x \<in> set seen then seen else seen @ [x]))"

definition resolve_policy_ids :: "db \<Rightarrow> int option \<Rightarrow> int list option" where
  "resolve_policy_ids d agent =
     walk_descendants (t_children d)
       (map snd (filter (\<lambda>(a, p). Some a = agent) (t_agent_policies d))) []"

definition action_rank :: "rule_row \<Rightarrow> int" where
  "action_rank row = (if rr_action row = ''allow'' then 0 else if rr_action row = ''deny'' then 1 else 2)"

definition resolve_agent_rules :: "db \<Rightarrow> int option \<Rightarrow> (js_error + rule list) option" where
  "resolve_agent_rules d agent =
     (case resolve_policy_ids d agent of
        None \<Rightarrow> None
      | Some ids \<Rightarrow> Some
          (if ids = [] then Inr []
           else map_result deserialize
             (order_desc rr_priority
               (sort_key action_rank
                 (filter (\<lambda>row. (\<exists>i \<in> set ids. rr_policy_id row = Some i) \<and> rr_enabled row = 1) (t_rules d))))))"

section \<open>Walks over a graph without cycles end\<close>

text \<open>
  A work list whose elements are replaced by their successors: induction on the multiset of what
  is queued, along the successor relation.
\<close>

lemma worklist_induct [consumes 1, case_names empty step]:
  assumes wf: "wf {(y, x). y \<in> set (succ x)}"
    and empty: "P []"
    and step: "\<And>x rest. P (rest @ succ x) \<Longrightarrow> P (x # rest)"
  shows "P queue"
proof -
  let ?r = "{(y, x). y \<in> set (succ x)}"
  have "\<forall>queue. M = mset queue \<longrightarrow> P queue" for M
  proof (rule wf_induct [OF wf_mult [OF wf]])
    fix M assume ih: "\<forall>N. (N, M) \<in> mult ?r \<longrightarrow> (\<forall>queue. N = mset queue \<longrightarrow> P queue)"
    show "\<forall>queue. M = mset queue \<longrightarrow> P queue"
    proof (intro allI impI)
      fix queue assume M: "M = mset queue"
      show "P queue"
      proof (cases queue)
        case (Cons x rest)
        have "(mset rest + mset (succ x), mset rest + {#x#}) \<in> mult ?r"
          by (rule one_step_implies_mult) auto
        then have "(mset (rest @ succ x), M) \<in> mult ?r" by (simp add: M Cons)
        with ih have "P (rest @ succ x)" by blast
        then show ?thesis unfolding Cons by (rule step)
      qed (simp add: empty)
    qed
  qed
  then show ?thesis by blast
qed

lemma parents_of_set: "set (parents_of es x) = {p. (p, x) \<in> set es}"
  by (force simp: parents_of_def)

lemma children_ids_set: "set (children_ids es x) = {c. (x, c) \<in> set es}"
  by (force simp: children_ids_def)

lemma wf_parents: "acyclic (set es) \<Longrightarrow> wf {(y, x). y \<in> set (parents_of es x)}"
  using finite_acyclic_wf [of "set es"] by (simp add: parents_of_set)

lemma wf_children: "acyclic (set es) \<Longrightarrow> wf {(y, x). y \<in> set (children_ids es x)}"
proof -
  assume "acyclic (set es)"
  then have "wf ((set es)\<inverse>)" by (simp add: finite_acyclic_wf_converse)
  moreover have "{(y, x). y \<in> set (children_ids es x)} = (set es)\<inverse>" by (auto simp: children_ids_set)
  ultimately show ?thesis by simp
qed

lemma walk_ancestors_result:
  assumes "acyclic (set es)"
  shows "walk_ancestors es target queue
    = Some (\<exists>x \<in> set queue. \<exists>y. target = Some y \<and> (y, x) \<in> (set es)\<^sup>*)"
  using wf_parents [OF assms]
proof (induction queue rule: worklist_induct)
  case empty
  show ?case by (simp add: walk_ancestors.simps)
next
  case (step x rest)
  have up: "(y, x) \<in> (set es)\<^sup>* \<longleftrightarrow> y = x \<or> (\<exists>p \<in> set (parents_of es x). (y, p) \<in> (set es)\<^sup>*)" for y
    by (auto simp: parents_of_set elim: rtranclE intro: rtrancl_into_rtrancl)
  show ?case
  proof (cases "target = Some x")
    case True
    then show ?thesis by (subst walk_ancestors.simps) auto
  next
    case False
    then have "walk_ancestors es target (x # rest) = walk_ancestors es target (rest @ parents_of es x)"
      by (subst walk_ancestors.simps) simp
    also have "\<dots> = Some (\<exists>z \<in> set (x # rest). \<exists>y. target = Some y \<and> (y, z) \<in> (set es)\<^sup>*)"
      unfolding step by (rule arg_cong [where f = Some]) (use up False in auto)
    finally show ?thesis .
  qed
qed

lemma cycle_check_result:
  assumes "acyclic (set (t_children d))"
  shows "cycle_check d (Some parent) (Some child) = Some ((child, parent) \<in> (set (t_children d))\<^sup>+)"
proof -
  have "(child, parent) \<in> (set (t_children d))\<^sup>+ \<longleftrightarrow>
      (\<exists>x \<in> set (parents_of (t_children d) parent). (child, x) \<in> (set (t_children d))\<^sup>*)"
    by (auto simp: parents_of_set elim: tranclE intro: rtrancl_into_trancl1 trancl_into_rtrancl)
  then show ?thesis by (simp add: cycle_check_def walk_ancestors_result [OF assms])
qed

lemma cycle_check_returns: "acyclic (set (t_children d)) \<Longrightarrow> \<exists>b. cycle_check d p c = Some b"
  by (simp add: cycle_check_def walk_ancestors_result)

lemma walk_descendants_result:
  assumes "acyclic (set es)" "distinct seen"
  shows "\<exists>ids. walk_descendants es queue seen = Some ids \<and> distinct ids
    \<and> set ids = set seen \<union> (set es)\<^sup>* `` set queue"
  using wf_children [OF assms(1)] assms(2)
proof (induction queue arbitrary: seen rule: worklist_induct)
  case empty
  then show ?case by (simp add: walk_descendants.simps)
next
  case (step x rest)
  have down: "(x, z) \<in> (set es)\<^sup>* \<longleftrightarrow> z = x \<or> (\<exists>y \<in> set (children_ids es x). (y, z) \<in> (set es)\<^sup>*)" for z
    by (auto simp: children_ids_set elim: converse_rtranclE intro: converse_rtrancl_into_rtrancl)
  let ?seen = "if x \<in> set seen then seen else seen @ [x]"
  have "distinct ?seen" using step.prems by simp
  from step.IH [OF this] obtain ids where ids:
    "walk_descendants es (rest @ children_ids es x) ?seen = Some ids" "distinct ids"
    "set ids = set ?seen \<union> (set es)\<^sup>* `` set (rest @ children_ids es x)" by blast
  have "walk_descendants es (x # rest) seen = Some ids"
    using ids(1) by (subst walk_descendants.simps) simp
  moreover have "set ids = set seen \<union> (set es)\<^sup>* `` set (x # rest)"
    unfolding ids(3) using down by auto
  ultimately show ?case using ids(2) by blast
qed

lemma edges_acyclic: "db_ok d \<Longrightarrow> acyclic (set (t_children d))"
  by (simp add: db_ok_def edges_ok_def)

text \<open>The policies an agent has: those assigned to it and all their sub-policies.\<close>

definition agent_policy_set :: "db \<Rightarrow> int \<Rightarrow> int set" where
  "agent_policy_set d agent = (set (t_children d))\<^sup>* `` {p. (agent, p) \<in> set (t_agent_policies d)}"

lemma resolve_policy_ids_result:
  assumes "db_ok d"
  shows "\<exists>ids. resolve_policy_ids d (Some agent) = Some ids \<and> distinct ids \<and> set ids = agent_policy_set d agent"
proof -
  have "set (map snd (filter (\<lambda>(a, p). Some a = Some agent) (t_agent_policies d)))
      = {p. (agent, p) \<in> set (t_agent_policies d)}" by force
  with walk_descendants_result [OF edges_acyclic [OF assms], of "[]"
      "map snd (filter (\<lambda>(a, p). Some a = Some agent) (t_agent_policies d))"]
  show ?thesis by (simp add: resolve_policy_ids_def agent_policy_set_def)
qed

section \<open>Every write keeps the invariant\<close>

lemma policies_table_ok: "db_ok d \<Longrightarrow> table_ok pr_id (seq_policies d) (t_policies d)"
  by (simp add: db_ok_def policies_ok_def)

lemma policy_names: "db_ok d \<Longrightarrow> distinct (map pr_name (t_policies d))"
  by (simp add: db_ok_def policies_ok_def)

lemma create_policy_ok:
  assumes "db_ok d" "create_policy c d name description = Inr (d', res)"
  shows "db_ok d'"
proof -
  from assms(2) obtain row where row: "pr_id row = seq_policies d + 1" "pr_name row \<notin> pr_name ` set (t_policies d)"
    and d': "d' = d\<lparr>t_policies := t_policies d @ [row], seq_policies := seq_policies d + 1\<rparr>"
    by (auto simp: create_policy_def Let_def new_policy_row_def split: option.splits if_splits
        intro!: that [of "new_policy_row c (seq_policies d + 1) (the name) description"])
  show ?thesis
    unfolding d' by (rule db_ok_set_policies [OF assms(1) table_ok_insert [OF policies_table_ok [OF assms(1)] row(1)]])
      (use row policy_names [OF assms(1)] in auto)
qed

lemma apply_policy_changes_id: "apply_policy_changes cs row = Inr row' \<Longrightarrow> pr_id row' = pr_id row"
proof (induction cs arbitrary: row)
  case (Cons c cs)
  then obtain r where r: "apply_policy_change c row = Inr r" "apply_policy_changes cs r = Inr row'"
    by (auto split: sum.splits)
  from r(1) have "pr_id r = pr_id row" by (cases c) (auto split: option.splits)
  with Cons.IH [OF r(2)] show ?case by simp
qed simp

lemma map_update_where:
  "map g (update_where key i (\<lambda>_. row) rows) = map (\<lambda>r. if Some (key r) = i then g row else g r) rows"
  by (simp add: update_where_def comp_def if_distrib)

lemma rename_distinct:
  assumes "distinct (map key rows)" "distinct (map g rows)" "\<forall>q \<in> set rows. key q \<noteq> k \<longrightarrow> g q \<noteq> n"
  shows "distinct (map (\<lambda>r. if Some (key r) = Some k then n else g r) rows)"
  using assms by (induction rows) (auto simp: image_iff split: if_splits)

lemma update_policy_ok:
  assumes "db_ok d" "update_policy d i changes = Inr (d', res)"
  shows "db_ok d'"
proof (cases "row_by_id pr_id (t_policies d) i")
  case None
  with assms show ?thesis by (simp add: update_policy_def)
next
  case (Some row)
  note mem = row_by_id_SomeD [OF Some]
  let ?cols = "filter (\<lambda>c. c \<noteq> PcId \<and> c \<noteq> PcCreatedAt) changes"
  show ?thesis
  proof (cases "?cols = []")
    case True
    with assms Some show ?thesis by (auto simp: update_policy_def)
  next
    case False
    with assms(2) Some have "run_policy_update d i ?cols row = Inr d'"
      by (auto simp: update_policy_def Let_def split: sum.splits)
    then obtain row' where row': "apply_policy_changes ?cols row = Inr row'"
      and uniq: "\<forall>q \<in> set (t_policies d). pr_id q \<noteq> pr_id row \<longrightarrow> pr_name q \<noteq> pr_name row'"
      and d': "d' = d\<lparr>t_policies := update_where pr_id i (\<lambda>_. row') (t_policies d)\<rparr>"
      by (auto simp: run_policy_update_def split: if_splits sum.splits)
    have id': "pr_id row' = pr_id row" by (rule apply_policy_changes_id [OF row'])
    then have same: "\<And>r. Some (pr_id r) = i \<Longrightarrow> pr_id row' = pr_id r" using mem by simp
    have "db_ok (d\<lparr>t_policies := update_where pr_id i (\<lambda>_. row') (t_policies d), seq_policies := seq_policies d\<rparr>)"
    proof (rule db_ok_set_policies [OF assms(1)])
      show "table_ok pr_id (seq_policies d) (update_where pr_id i (\<lambda>_. row') (t_policies d))"
        by (rule table_ok_update_where [OF policies_table_ok [OF assms(1)] same])
      show "distinct (map pr_name (update_where pr_id i (\<lambda>_. row') (t_policies d)))"
        unfolding map_update_where conjunct2 [OF mem]
        by (rule rename_distinct [OF table_ok_distinct [OF policies_table_ok [OF assms(1)]] policy_names [OF assms(1)] uniq])
      show "pr_id ` set (t_policies d) \<subseteq> pr_id ` set (update_where pr_id i (\<lambda>_. row') (t_policies d))"
        using update_where_key_set [where key = pr_id and i = i and f = "\<lambda>_. row'", OF same] by blast
    qed
    then show ?thesis by (simp add: d')
  qed
qed

lemma insert_child_ok:
  assumes "db_ok d" "insert_child d (Some p) (Some c) = Inr d'" "(c, p) \<notin> (set (t_children d))\<^sup>+"
  shows "db_ok d'"
proof -
  from assms(2) have pc: "p \<noteq> c" "(p, c) \<notin> set (t_children d)" "policy_exists d p" "policy_exists d c"
    and d': "d' = d\<lparr>t_children := t_children d @ [(p, c)]\<rparr>"
    by (auto simp: insert_child_def split: if_splits)
  have "(c, p) \<notin> (set (t_children d))\<^sup>*" using assms(3) pc(1) by (auto simp: rtrancl_eq_or_trancl)
  then have acyc: "acyclic (set (t_children d @ [(p, c)]))"
    using edges_acyclic [OF assms(1)] by simp
  show ?thesis
    unfolding d' by (rule db_ok_set_children [OF assms(1) _ _ acyc])
      (use pc assms(1) in \<open>auto simp: db_ok_def edges_ok_def\<close>)
qed

lemma insert_child_Inr: "insert_child d p c = Inr d' \<Longrightarrow> \<exists>p' c'. p = Some p' \<and> c = Some c'"
  by (auto simp: insert_child_def split: option.splits)

lemma add_child_ok: "db_ok d \<Longrightarrow> add_child d p c = Some (Inr d') \<Longrightarrow> db_ok d'"
proof -
  assume d: "db_ok d" and a: "add_child d p c = Some (Inr d')"
  from a have cyc: "cycle_check d p c = Some False" and ins: "insert_child d p c = Inr d'"
    by (auto simp: add_child_def split: option.splits if_splits)
  from insert_child_Inr [OF ins] obtain p' c' where pc: "p = Some p'" "c = Some c'" by blast
  with cyc have "(c', p') \<notin> (set (t_children d))\<^sup>+" by (simp add: cycle_check_result [OF edges_acyclic [OF d]])
  with insert_child_ok [OF d, of p' c' d'] ins pc show ?thesis by simp
qed

lemma remove_child_ok: "db_ok d \<Longrightarrow> db_ok (remove_child d p c)"
  unfolding remove_child_def
  by (rule db_ok_set_children) (auto simp: db_ok_def edges_ok_def intro: acyclic_subset)

lemma assign_to_agent_ok: "db_ok d \<Longrightarrow> assign_to_agent d p a = Inr d' \<Longrightarrow> db_ok d'"
  by (auto simp: assign_to_agent_def split: option.splits if_splits intro!: db_ok_set_assignments)
    (auto simp: db_ok_def assignments_ok_def)

lemma unassign_from_agent_ok: "db_ok d \<Longrightarrow> db_ok (unassign_from_agent d p a)"
  unfolding unassign_from_agent_def
  by (rule db_ok_set_assignments) (auto simp: db_ok_def assignments_ok_def)

lemma db_ok_drop_policy:
  assumes e: "db_ok e" and nc: "\<And>p c. (p, c) \<in> set (t_children e) \<Longrightarrow> p \<noteq> k \<and> c \<noteq> k"
    and na: "\<And>a p. (a, p) \<in> set (t_agent_policies e) \<Longrightarrow> p \<noteq> k"
    and nr: "\<And>r. r \<in> set (t_rules e) \<Longrightarrow> rr_policy_id r \<noteq> Some k"
  shows "db_ok (e\<lparr>t_policies := delete_where pr_id (Some k) (t_policies e)\<rparr>)"
proof -
  define ps where "ps = delete_where pr_id (Some k) (t_policies e)"
  have keys: "pr_id ` set ps = pr_id ` set (t_policies e) - {k}"
    by (simp add: ps_def delete_where_key_set)
  have "fk (\<lambda>x. x \<in> pr_id ` set ps) (rr_policy_id r)" if "r \<in> set (t_rules e)" for r
    using e nr [OF that] that unfolding keys
    by (cases "rr_policy_id r") (auto simp: db_ok_def rules_ok_def policy_exists_def)
  then have "rules_ok (e\<lparr>t_policies := ps\<rparr>)"
    using e by (simp add: db_ok_def rules_ok_def exists_defs)
  moreover have "edges_ok (e\<lparr>t_policies := ps\<rparr>)"
    using e nc by (auto simp: db_ok_def edges_ok_def exists_defs keys)
  moreover have "assignments_ok (e\<lparr>t_policies := ps\<rparr>)"
    using e na by (auto simp: db_ok_def assignments_ok_def exists_defs keys)
  moreover have "policies_ok (e\<lparr>t_policies := ps\<rparr>)"
    using e by (simp add: db_ok_def policies_ok_def ps_def delete_where_def table_ok_filter distinct_map_filter)
  ultimately show ?thesis
    using e unfolding ps_def [symmetric]
    by (simp add: db_ok_def log_ok_def queue_ok_def agents_ok_def exists_defs)
qed

lemma in_clear_policy_refs:
  assumes "r \<in> set (clear_policy_refs i rs)"
  shows "r \<in> set rs \<and> rr_policy_id r \<noteq> i \<or> (\<exists>r0 \<in> set rs. rr_policy_id r0 = i \<and> r = r0\<lparr>rr_policy_id := None\<rparr>)"
  using assms by (auto simp: clear_policy_refs_def)

lemma clear_policy_refs_none: "r \<in> set (clear_policy_refs (Some k) rs) \<Longrightarrow> rr_policy_id r \<noteq> Some k"
  by (auto dest: in_clear_policy_refs)

lemma clear_policy_refs_ok:
  assumes "db_ok d"
  shows "db_ok (d\<lparr>t_rules := clear_policy_refs i (t_rules d)\<rparr>)"
proof -
  have ids: "map rr_id (clear_policy_refs i (t_rules d)) = map rr_id (t_rules d)"
    by (simp add: clear_policy_refs_def)
  have "db_ok (d\<lparr>t_rules := clear_policy_refs i (t_rules d), seq_rules := seq_rules d\<rparr>)"
  proof (rule db_ok_set_rules [OF assms])
    show "table_ok rr_id (seq_rules d) (clear_policy_refs i (t_rules d))"
      unfolding clear_policy_refs_def by (rule table_ok_map [OF rules_table_ok [OF assms]]) simp
    show "rr_id ` set (t_rules d) \<subseteq> rr_id ` set (clear_policy_refs i (t_rules d))"
      using ids by (metis list.set_map order_refl)
  qed (use assms in \<open>auto simp: db_ok_def rules_ok_def rule_check_def dest!: in_clear_policy_refs\<close>)
  then show ?thesis by simp
qed

lemma delete_policy_ok:
  assumes "db_ok d"
  shows "db_ok (delete_policy d i)"
proof (cases "row_by_id pr_id (t_policies d) i")
  case (Some prow)
  then obtain k where k: "i = Some k" by (cases i) auto
  define es where "es = filter (\<lambda>(p, c). Some p \<noteq> i \<and> Some c \<noteq> i) (t_children d)"
  define asg where "asg = filter (\<lambda>(a, p). Some p \<noteq> i) (t_agent_policies d)"
  have d1: "db_ok (d\<lparr>t_children := es\<rparr>)"
    by (rule db_ok_set_children [OF assms])
      (use assms in \<open>auto simp: es_def db_ok_def edges_ok_def intro: acyclic_subset\<close>)
  have d2: "db_ok (d\<lparr>t_children := es, t_agent_policies := asg\<rparr>)"
    by (rule db_ok_set_assignments [OF d1])
      (use assms in \<open>auto simp: asg_def db_ok_def assignments_ok_def exists_defs\<close>)
  have d3: "db_ok (d\<lparr>t_children := es, t_agent_policies := asg, t_rules := clear_policy_refs i (t_rules d)\<rparr>)"
    using clear_policy_refs_ok [OF d2, of i] by simp
  define e where "e = d\<lparr>t_children := es, t_agent_policies := asg, t_rules := clear_policy_refs i (t_rules d)\<rparr>"
  have "db_ok (e\<lparr>t_policies := delete_where pr_id (Some k) (t_policies e)\<rparr>)"
  proof (rule db_ok_drop_policy [OF d3 [folded e_def]])
    show "\<And>p c. (p, c) \<in> set (t_children e) \<Longrightarrow> p \<noteq> k \<and> c \<noteq> k"
      and "\<And>a p. (a, p) \<in> set (t_agent_policies e) \<Longrightarrow> p \<noteq> k" by (auto simp: e_def es_def asg_def k)
    show "\<And>r. r \<in> set (t_rules e) \<Longrightarrow> rr_policy_id r \<noteq> Some k"
      using clear_policy_refs_none by (simp add: e_def k)
  qed
  then have "db_ok (d\<lparr>t_children := es, t_agent_policies := asg, t_rules := clear_policy_refs i (t_rules d),
      t_policies := delete_where pr_id (Some k) (t_policies d)\<rparr>)" by (simp add: e_def)
  then show ?thesis using assms by (simp add: delete_policy_def k es_def asg_def)
qed (simp add: delete_policy_def assms)

lemma get_policy_create:
  assumes "db_ok d" "create_policy c d (Some n) description = Inr (d', res)"
  shows "res = Some \<lparr>p_id = seq_policies d + 1, p_name = n, p_description = or_else description [],
      p_created_at = datetime_now c\<rparr>"
    "t_policies d' = t_policies d @ [new_policy_row c (seq_policies d + 1) n description]"
  using assms(2) row_by_id_new [OF policies_table_ok [OF assms(1)], of "new_policy_row c (seq_policies d + 1) n description"]
  by (auto simp: create_policy_def get_policy_def Let_def deserialize_policy_def new_policy_row_def split: if_splits)

section \<open>Properties\<close>

text \<open>
  C14: \<open>addChild\<close> always returns, and decides exactly: a policy is not its own child, an edge that
  would close a cycle (the child already has the parent among its sub-policies, at any depth) is
  refused, as are a duplicate and a policy that does not exist; every other edge is stored, and the
  policy graph stays without cycles.
\<close>

theorem add_child_spec:
  assumes "db_ok d"
  shows "add_child d (Some p) (Some c) = Some
      (if p = c then Inl CycleSelf
       else if (c, p) \<in> (set (t_children d))\<^sup>+ then Inl CycleLoop
       else if (p, c) \<in> set (t_children d) then Inl (Sqlite Unique)
       else if \<not> policy_exists d p \<or> \<not> policy_exists d c then Inl (Sqlite ForeignKey)
       else Inr (d\<lparr>t_children := t_children d @ [(p, c)]\<rparr>))
    \<and> (\<forall>d'. add_child d (Some p) (Some c) = Some (Inr d') \<longrightarrow> db_ok d' \<and> acyclic (set (t_children d')))"
proof
  show "\<forall>d'. add_child d (Some p) (Some c) = Some (Inr d') \<longrightarrow> db_ok d' \<and> acyclic (set (t_children d'))"
    using add_child_ok [OF assms, of "Some p" "Some c"] edges_acyclic by blast
qed (simp add: add_child_def cycle_check_result [OF edges_acyclic [OF assms]] insert_child_def)

lemma map_result_mem:
  "(\<And>x. x \<in> set xs \<Longrightarrow> deserialize x = Inr (rule_of x)) \<Longrightarrow> map_result deserialize xs = Inr (map rule_of xs)"
  by (rule map_result_Inr)

definition agent_rows :: "db \<Rightarrow> int \<Rightarrow> rule_row list" where
  "agent_rows d agent =
     filter (\<lambda>row. (\<exists>p \<in> agent_policy_set d agent. rr_policy_id row = Some p) \<and> rr_enabled row = 1) (t_rules d)"

lemma resolve_agent_rules_result:
  assumes "db_ok d"
  shows "resolve_agent_rules d (Some agent)
    = Some (Inr (map rule_of (order_desc rr_priority (sort_key action_rank (agent_rows d agent)))))"
proof -
  from resolve_policy_ids_result [OF assms, of agent] obtain ids where
    ids: "resolve_policy_ids d (Some agent) = Some ids" "set ids = agent_policy_set d agent" by blast
  have "map_result deserialize (order_desc rr_priority (sort_key action_rank (agent_rows d agent)))
      = Inr (map rule_of (order_desc rr_priority (sort_key action_rank (agent_rows d agent))))"
    by (rule map_result_mem) (use rules_okD(4) [OF assms] in \<open>auto simp: agent_rows_def\<close>)
  moreover have "agent_rows d agent = []" if "ids = []" using ids(2) that by (simp add: agent_rows_def)
  ultimately show ?thesis
    by (auto simp: resolve_agent_rules_def ids agent_rows_def order_desc_def)
qed

text \<open>
  C2: \<open>resolveAgentRules\<close> always returns, with exactly the enabled rules of the policies assigned to
  the agent and of all their sub-policies, each once, in descending priority, and among rules of the
  same priority the allowing ones first.
\<close>

theorem resolve_agent_rules_spec:
  assumes "db_ok d"
  shows "\<exists>rs. resolve_agent_rules d (Some agent) = Some (Inr rs)
    \<and> set rs = rule_of ` {row \<in> set (t_rules d). rr_enabled row = 1
          \<and> (\<exists>q p. (agent, q) \<in> set (t_agent_policies d) \<and> (q, p) \<in> (set (t_children d))\<^sup>*
               \<and> rr_policy_id row = Some p)}
    \<and> distinct (map r_id rs)
    \<and> sorted_wrt (\<lambda>r s. r_priority s < r_priority r
          \<or> r_priority s = r_priority r \<and> (r_action r = ''allow'' \<or> r_action s = ''deny'')) rs"
proof -
  let ?rows = "order_desc rr_priority (sort_key action_rank (agent_rows d agent))"
  have sub: "set ?rows \<subseteq> set (t_rules d)" by (auto simp: agent_rows_def)
  have mem: "set ?rows = {row \<in> set (t_rules d). rr_enabled row = 1
      \<and> (\<exists>q p. (agent, q) \<in> set (t_agent_policies d) \<and> (q, p) \<in> (set (t_children d))\<^sup>* \<and> rr_policy_id row = Some p)}"
    by (auto simp: agent_rows_def agent_policy_set_def)
  have keys: "map r_id (map rule_of ?rows) = map rr_id ?rows"
    using sub rule_of_hits(3) [OF assms] by auto
  have ids: "distinct (map r_id (map rule_of ?rows))"
    unfolding keys
    by (rule distinct_order_desc)
      (use table_ok_distinct [OF table_ok_filter [OF rules_table_ok [OF assms]]] in \<open>simp add: agent_rows_def distinct_map\<close>)
  have "sorted_wrt (\<lambda>x y. rr_priority y < rr_priority x \<or> rr_priority y = rr_priority x \<and> action_rank x \<le> action_rank y) ?rows"
    by (rule order_desc_by_key) simp
  then have srt: "sorted_wrt (\<lambda>r s. r_priority s < r_priority r
      \<or> r_priority s = r_priority r \<and> (r_action r = ''allow'' \<or> r_action s = ''deny'')) (map rule_of ?rows)"
    unfolding sorted_wrt_map
  proof (rule sorted_wrt_mono_rel [rotated])
    fix x y assume "x \<in> set ?rows" "y \<in> set ?rows"
      and r: "rr_priority y < rr_priority x \<or> rr_priority y = rr_priority x \<and> action_rank x \<le> action_rank y"
    then have m: "x \<in> set (t_rules d)" "y \<in> set (t_rules d)" using sub by auto
    note jx = rules_okD(1,2) [OF assms m(1)] and jy = rules_okD(1,2) [OF assms m(2)]
    from r jx jy show "r_priority (rule_of y) < r_priority (rule_of x)
        \<or> r_priority (rule_of y) = r_priority (rule_of x) \<and> (r_action (rule_of x) = ''allow'' \<or> r_action (rule_of y) = ''deny'')"
      by (auto simp: row_simps action_rank_def rule_check_def split: if_splits)
  qed
  have "set (map rule_of ?rows) = rule_of ` {row \<in> set (t_rules d). rr_enabled row = 1
      \<and> (\<exists>q p. (agent, q) \<in> set (t_agent_policies d) \<and> (q, p) \<in> (set (t_children d))\<^sup>* \<and> rr_policy_id row = Some p)}"
    unfolding set_map mem ..
  then show ?thesis
    unfolding resolve_agent_rules_result [OF assms]
    using ids srt by blast
qed

lemma walk_descendants_loops:
  assumes "walk_descendants es queue seen = Some ids" "x \<in> set queue" "(x, c) \<in> (set es)\<^sup>*" "(c, c) \<in> (set es)\<^sup>+"
  shows False
proof -
  define hits where "hits es queue \<longleftrightarrow> (\<exists>x \<in> set queue. \<exists>c. (x, c) \<in> (set es)\<^sup>* \<and> (c, c) \<in> (set es)\<^sup>+)"
    for es and queue :: "int list"
  have "\<not> hits es queue"
    using assms(1)
  proof (rule walk_descendants.raw_induct [where P = "\<lambda>es queue seen ids. \<not> hits es queue", rotated])
    fix walk :: "(int \<times> int) list \<Rightarrow> int list \<Rightarrow> int list \<Rightarrow> int list option" and es queue seen ids
    assume ih: "\<And>es queue seen ids. walk es queue seen = Some ids \<Longrightarrow> \<not> hits es queue"
      and eq: "(case queue of [] \<Rightarrow> Some seen
        | x # rest \<Rightarrow> walk es (rest @ children_ids es x) (if x \<in> set seen then seen else seen @ [x])) = Some ids"
    show "\<not> hits es queue"
    proof (cases queue)
      case (Cons x rest)
      with eq have "walk es (rest @ children_ids es x) (if x \<in> set seen then seen else seen @ [x]) = Some ids" by simp
      note none = ih [OF this]
      show ?thesis
      proof
        assume "hits es queue"
        then obtain y c where y: "y \<in> set queue" "(y, c) \<in> (set es)\<^sup>*" "(c, c) \<in> (set es)\<^sup>+"
          by (auto simp: hits_def)
        have "(y, c) \<in> (set es)\<^sup>+" using y(2,3) by (auto simp: rtrancl_eq_or_trancl intro: trancl_trans)
        then obtain z where z: "(y, z) \<in> set es" "(z, c) \<in> (set es)\<^sup>*" by (meson tranclD)
        have "\<exists>u \<in> set (rest @ children_ids es x). (u, c) \<in> (set es)\<^sup>*"
        proof (cases "y = x")
          case True
          with z show ?thesis by (auto simp: children_ids_set)
        next
          case False
          with y Cons show ?thesis by auto
        qed
        with none y(3) show False by (auto simp: hits_def)
      qed
    qed (simp add: hits_def)
  qed
  with assms(2-4) show False by (auto simp: hits_def)
qed

text \<open>
  Why the guard matters: over a table that does contain a cycle below a policy of the agent the
  recursive query (UNION ALL, which keeps duplicates) never returns.
\<close>

theorem resolve_diverges_on_cycle:
  assumes "(agent, p) \<in> set (t_agent_policies d)" "(p, c) \<in> (set (t_children d))\<^sup>*" "(c, c) \<in> (set (t_children d))\<^sup>+"
  shows "resolve_agent_rules d (Some agent) = None"
proof -
  let ?start = "map snd (filter (\<lambda>(a, p). Some a = Some agent) (t_agent_policies d))"
  have "p \<in> set ?start" using assms(1) by force
  then have "walk_descendants (t_children d) ?start [] \<noteq> Some ids" for ids
    using walk_descendants_loops [OF _ _ assms(2,3)] by blast
  then have "resolve_policy_ids d (Some agent) = None"
    unfolding resolve_policy_ids_def by (cases "walk_descendants (t_children d) ?start []") simp_all
  then show ?thesis by (simp add: resolve_agent_rules_def)
qed

text \<open>
  Deleting a policy: the edges through it and its assignments are gone, so no path of the graph
  that is left was not there before.
\<close>

lemma delete_policy_edges:
  "set (t_children (delete_policy d (Some i))) \<subseteq> set (t_children d)"
  "set (t_agent_policies (delete_policy d (Some i))) \<subseteq> set (t_agent_policies d)"
  by (auto simp: delete_policy_def)

lemma delete_policy_rows:
  assumes "r \<in> set (t_rules (delete_policy d (Some i)))"
  shows "\<exists>r0 \<in> set (t_rules d). (rr_policy_id r = None \<or> r = r0)
    \<and> r\<lparr>rr_policy_id := None\<rparr> = r0\<lparr>rr_policy_id := None\<rparr>"
  using assms by (auto simp: delete_policy_def split: if_splits dest!: in_clear_policy_refs)

lemma agent_policy_set_mono:
  "set (t_children e) \<subseteq> set (t_children d) \<Longrightarrow> set (t_agent_policies e) \<subseteq> set (t_agent_policies d) \<Longrightarrow>
     agent_policy_set e a \<subseteq> agent_policy_set d a"
  unfolding agent_policy_set_def using rtrancl_mono by blast

lemma resolve_ids:
  assumes "db_ok d" "resolve_agent_rules d (Some agent) = Some (Inr rs)"
  shows "r_id ` set rs = rr_id ` set (agent_rows d agent)"
proof -
  have rs: "rs = map rule_of (order_desc rr_priority (sort_key action_rank (agent_rows d agent)))"
    using assms(2) unfolding resolve_agent_rules_result [OF assms(1)] by simp
  have "r_id (rule_of row) = rr_id row" if "row \<in> set (agent_rows d agent)" for row
    using that rule_of_hits(3) [OF assms(1)] by (auto simp: agent_rows_def)
  then show ?thesis unfolding rs by (force simp: image_image)
qed

text \<open>
  Deleting a policy removes that policy alone and keeps every rule (those of the policy have none
  afterwards); it gives no agent a rule it did not have, and an agent no longer has the policy.
\<close>

theorem delete_policy_spec:
  assumes "db_ok d"
  shows "db_ok (delete_policy d (Some i))
    \<and> (\<forall>j. get_policy (delete_policy d (Some i)) j = (if j = Some i then None else get_policy d j))
    \<and> map rr_id (t_rules (delete_policy d (Some i))) = map rr_id (t_rules d)
    \<and> (\<forall>agent. i \<notin> agent_policy_set (delete_policy d (Some i)) agent)
    \<and> (\<forall>agent rs rs'. resolve_agent_rules d (Some agent) = Some (Inr rs) \<longrightarrow>
         resolve_agent_rules (delete_policy d (Some i)) (Some agent) = Some (Inr rs') \<longrightarrow>
         r_id ` set rs' \<subseteq> r_id ` set rs)"
proof (intro conjI allI impI)
  let ?e = "delete_policy d (Some i)"
  show ok: "db_ok ?e" by (rule delete_policy_ok [OF assms])
  show "get_policy ?e j = (if j = Some i then None else get_policy d j)" for j
    by (auto simp: get_policy_def delete_policy_def row_by_id_delete_where)
  show "map rr_id (t_rules ?e) = map rr_id (t_rules d)"
    by (simp add: delete_policy_def clear_policy_refs_def)
  have gone: "\<not> policy_exists ?e i"
  proof (cases "row_by_id pr_id (t_policies d) (Some i)")
    case None
    then show ?thesis using row_by_id_NoneD [OF None] by (simp add: delete_policy_def policy_exists_def)
  qed (auto simp: delete_policy_def policy_exists_def delete_where_def)
  show "i \<notin> agent_policy_set ?e agent" for agent
  proof
    assume "i \<in> agent_policy_set ?e agent"
    then obtain p where p: "(agent, p) \<in> set (t_agent_policies ?e)" "(p, i) \<in> (set (t_children ?e))\<^sup>*"
      by (auto simp: agent_policy_set_def)
    from p(2) have "policy_exists ?e i"
    proof (cases rule: rtranclE)
      case base
      with p(1) ok show ?thesis by (auto simp: db_ok_def assignments_ok_def)
    next
      case (step y)
      with ok show ?thesis by (auto simp: db_ok_def edges_ok_def)
    qed
    with gone show False ..
  qed
  fix agent rs rs'
  assume r: "resolve_agent_rules d (Some agent) = Some (Inr rs)" "resolve_agent_rules ?e (Some agent) = Some (Inr rs')"
  have "rr_id row \<in> rr_id ` set (agent_rows d agent)" if "row \<in> set (agent_rows ?e agent)" for row
  proof -
    from that obtain p where row: "row \<in> set (t_rules ?e)" "p \<in> agent_policy_set ?e agent"
        "rr_policy_id row = Some p" "rr_enabled row = 1" by (auto simp: agent_rows_def)
    from delete_policy_rows [OF row(1)] row(3) have "row \<in> set (t_rules d)" by auto
    moreover have "p \<in> agent_policy_set d agent"
      using agent_policy_set_mono [OF delete_policy_edges] row(2) by blast
    ultimately show ?thesis using row by (auto simp: agent_rows_def)
  qed
  then show "r_id ` set rs' \<subseteq> r_id ` set rs"
    unfolding resolve_ids [OF assms r(1)] resolve_ids [OF ok r(2)] by blast
qed

text \<open>
  Assigning a policy gives the agent that policy and all its sub-policies and changes no other
  agent; assigning it again changes nothing; unassigning it (when it was not assigned before) takes
  back exactly what was given.
\<close>

theorem assign_spec:
  assumes "db_ok d" "agent_exists d a" "policy_exists d p"
  shows "\<exists>d'. assign_to_agent d (Some p) (Some a) = Inr d' \<and> db_ok d'
    \<and> agent_policy_set d' a = agent_policy_set d a \<union> (set (t_children d))\<^sup>* `` {p}
    \<and> (\<forall>b. b \<noteq> a \<longrightarrow> agent_policy_set d' b = agent_policy_set d b)
    \<and> assign_to_agent d' (Some p) (Some a) = Inr d'
    \<and> ((a, p) \<notin> set (t_agent_policies d) \<longrightarrow> unassign_from_agent d' (Some p) (Some a) = d)"
proof (cases "(a, p) \<in> set (t_agent_policies d)")
  case True
  then have "assign_to_agent d (Some p) (Some a) = Inr d" by (simp add: assign_to_agent_def)
  with True assms(1) show ?thesis by (auto simp: agent_policy_set_def)
next
  case False
  define d' where "d' = d\<lparr>t_agent_policies := t_agent_policies d @ [(a, p)]\<rparr>"
  have a: "assign_to_agent d (Some p) (Some a) = Inr d'"
    using False assms by (simp add: assign_to_agent_def d'_def)
  have same: "filter (\<lambda>(x, q). \<not> (Some x = Some a \<and> Some q = Some p)) (t_agent_policies d) = t_agent_policies d"
    using False by (auto simp: filter_id_conv)
  have "unassign_from_agent d' (Some p) (Some a) = d"
    using same by (simp add: unassign_from_agent_def d'_def)
  moreover have "assign_to_agent d' (Some p) (Some a) = Inr d'"
    by (simp add: assign_to_agent_def d'_def)
  moreover have "agent_policy_set d' a = agent_policy_set d a \<union> (set (t_children d))\<^sup>* `` {p}"
    "\<forall>b. b \<noteq> a \<longrightarrow> agent_policy_set d' b = agent_policy_set d b"
    by (auto simp: agent_policy_set_def d'_def)
  ultimately show ?thesis using a assign_to_agent_ok [OF assms(1) a] by blast
qed

lemma root_above:
  assumes "acyclic r" "finite r"
  shows "\<exists>root. (root, x) \<in> r\<^sup>* \<and> (\<forall>y. (y, root) \<notin> r)"
proof -
  have wf: "wf r" using assms by (rule finite_acyclic_wf [rotated])
  show ?thesis
  proof (induction x rule: wf_induct [OF wf])
    case (1 x)
    show ?case
    proof (cases "\<exists>y. (y, x) \<in> r")
      case True
      then obtain y where y: "(y, x) \<in> r" by blast
      with 1 obtain root where "(root, y) \<in> r\<^sup>*" "\<forall>z. (z, root) \<notin> r" by blast
      with y show ?thesis by (meson rtrancl_into_rtrancl)
    qed blast
  qed
qed

lemma get_tree_roots:
  "(root, kids) \<in> set (get_tree d) \<longleftrightarrow>
     root \<in> set (list_policies d) \<and> (\<forall>q. (q, p_id root) \<notin> set (t_children d))
     \<and> kids = get_children d (Some (p_id root))"
  by (auto simp: get_tree_def Let_def image_iff)

text \<open>
  The tree starts where the graph does: its roots are exactly the policies that are no one's
  child, each with its direct children, and every policy of the store is a root or below one.
\<close>

theorem get_tree_spec:
  assumes "db_ok d"
  shows "(\<forall>root kids. (root, kids) \<in> set (get_tree d) \<longleftrightarrow>
       root \<in> set (list_policies d) \<and> (\<forall>q. (q, p_id root) \<notin> set (t_children d))
       \<and> kids = get_children d (Some (p_id root)))
    \<and> (\<forall>q \<in> set (list_policies d). \<exists>(root, kids) \<in> set (get_tree d). (p_id root, p_id q) \<in> (set (t_children d))\<^sup>*)
    \<and> (\<forall>parent. set (map p_id (get_children d (Some parent))) = {c. (parent, c) \<in> set (t_children d)})"
proof (intro conjI)
  show "\<forall>root kids. (root, kids) \<in> set (get_tree d) \<longleftrightarrow>
       root \<in> set (list_policies d) \<and> (\<forall>q. (q, p_id root) \<notin> set (t_children d))
       \<and> kids = get_children d (Some (p_id root))"
    using get_tree_roots by blast
  have ex: "policy_exists d p \<and> policy_exists d c" if "(p, c) \<in> set (t_children d)" for p c
    using assms that by (auto simp: db_ok_def edges_ok_def)
  show "\<forall>parent. set (map p_id (get_children d (Some parent))) = {c. (parent, c) \<in> set (t_children d)}"
    using ex by (fastforce simp: get_children_def policy_exists_def image_iff)
  show "\<forall>q \<in> set (list_policies d). \<exists>(root, kids) \<in> set (get_tree d). (p_id root, p_id q) \<in> (set (t_children d))\<^sup>*"
  proof
    fix q assume q: "q \<in> set (list_policies d)"
    from root_above [OF edges_acyclic [OF assms], of "p_id q"] obtain k where
      k: "(k, p_id q) \<in> (set (t_children d))\<^sup>*" "\<forall>y. (y, k) \<notin> set (t_children d)" by auto
    have "policy_exists d k"
      using k(1)
    proof (cases rule: converse_rtranclE)
      case base
      with q show ?thesis by (auto simp: list_policies_def policy_exists_def)
    qed (use ex in blast)
    then have "\<exists>root \<in> set (list_policies d). p_id root = k"
      by (auto simp: list_policies_def policy_exists_def)
    then obtain root where "root \<in> set (list_policies d)" "p_id root = k" by blast
    with k have "(root, get_children d (Some (p_id root))) \<in> set (get_tree d)"
      unfolding get_tree_roots by simp
    with k \<open>p_id root = k\<close> show "\<exists>(root, kids) \<in> set (get_tree d). (p_id root, p_id q) \<in> (set (t_children d))\<^sup>*"
      by blast
  qed
qed

section \<open>The properties at concrete inputs\<close>

text \<open>Two policies, the second below the first; the agent has the first, the rule is in the second.\<close>

definition sample_agent :: agent_row where
  "sample_agent =
     \<lparr>ar_id = 1, ar_name = ''a'', ar_token_hash = ''h'', ar_enabled = 1, ar_request_count = 0,
      ar_created_at = ''t'', ar_description = [], ar_ip_address = None\<rparr>"

definition tree_db :: db where
  "tree_db = empty_db\<lparr>
     t_rules := [sample_rule\<lparr>rr_policy_id := Some 2\<rparr>], seq_rules := 1,
     t_agents := [sample_agent], seq_agents := 1,
     t_policies := [new_policy_row sample_clock 1 ''p'' None, new_policy_row sample_clock 2 ''q'' None],
     seq_policies := 2, t_children := [(1, 2)], t_agent_policies := [(1, 1)]\<rparr>"

lemma tree_db_ok: "db_ok tree_db"
  using sample_methods acyclic_insert [of 1 "2 :: int" "{}"]
  by (simp add: db_ok_defs exists_defs empty_db_def table_ok_def tree_db_def sample_agent_def sample_rule_def
      rule_check_def new_policy_row_def) (simp add: acyclic_def)

theorem add_child_spec_witness:
  "add_child tree_db (Some 2) (Some 1) = Some (Inl CycleLoop) \<and> add_child tree_db (Some 1) (Some 1) = Some (Inl CycleSelf)"
proof -
  have "(1, 2) \<in> (set (t_children tree_db))\<^sup>+" by (simp add: tree_db_def r_into_trancl)
  then show ?thesis
    using add_child_spec [OF tree_db_ok, of 2 1] add_child_spec [OF tree_db_ok, of 1 1] by simp
qed

theorem resolve_agent_rules_spec_witness:
  "\<exists>rs. resolve_agent_rules tree_db (Some 1) = Some (Inr rs) \<and> r_id ` set rs = {1}"
proof -
  have path: "(1, 2) \<in> (set (t_children tree_db))\<^sup>*" by (simp add: tree_db_def r_into_rtrancl)
  from resolve_agent_rules_spec [OF tree_db_ok, of 1] obtain rs where
    rs: "resolve_agent_rules tree_db (Some 1) = Some (Inr rs)"
    "set rs = rule_of ` {row \<in> set (t_rules tree_db). rr_enabled row = 1
          \<and> (\<exists>q p. (1, q) \<in> set (t_agent_policies tree_db) \<and> (q, p) \<in> (set (t_children tree_db))\<^sup>*
               \<and> rr_policy_id row = Some p)}" by blast
  have "{row \<in> set (t_rules tree_db). rr_enabled row = 1
          \<and> (\<exists>q p. (1, q) \<in> set (t_agent_policies tree_db) \<and> (q, p) \<in> (set (t_children tree_db))\<^sup>*
               \<and> rr_policy_id row = Some p)} = {sample_rule\<lparr>rr_policy_id := Some 2\<rparr>}"
    using path by (auto simp: tree_db_def sample_rule_def)
  moreover have "r_id (rule_of (sample_rule\<lparr>rr_policy_id := Some 2\<rparr>)) = 1"
    using sample_methods by (simp add: row_simps sample_rule_def)
  ultimately show ?thesis using rs by simp
qed

theorem resolve_diverges_on_cycle_witness:
  "resolve_agent_rules (tree_db\<lparr>t_children := [(1, 2), (2, 1)]\<rparr>) (Some 1) = None"
proof (rule resolve_diverges_on_cycle)
  show "(1, 1) \<in> set (t_agent_policies (tree_db\<lparr>t_children := [(1, 2), (2, 1)]\<rparr>))"
    by (simp add: tree_db_def)
  show "(1, 1) \<in> (set (t_children (tree_db\<lparr>t_children := [(1, 2), (2, 1)]\<rparr>)))\<^sup>*" by simp
  have "(1, 2) \<in> (set [(1, 2), (2, 1 :: int)])\<^sup>+" by (simp add: r_into_trancl)
  moreover have "(2, 1) \<in> (set [(1, 2), (2, 1 :: int)])\<^sup>+" by (simp add: r_into_trancl)
  ultimately have "(1, 1) \<in> (set [(1, 2), (2, 1 :: int)])\<^sup>+" by (rule trancl_trans)
  then show "(1, 1) \<in> (set (t_children (tree_db\<lparr>t_children := [(1, 2), (2, 1)]\<rparr>)))\<^sup>+" by simp
qed

theorem delete_policy_spec_witness:
  "get_policy (delete_policy tree_db (Some 1)) (Some 1) = None
   \<and> 1 \<notin> agent_policy_set (delete_policy tree_db (Some 1)) 1"
  using delete_policy_spec [OF tree_db_ok, of 1] by simp

theorem assign_spec_witness:
  "\<exists>d'. assign_to_agent tree_db (Some 2) (Some 1) = Inr d' \<and> 2 \<in> agent_policy_set d' 1"
proof -
  have "agent_exists tree_db 1" "policy_exists tree_db 2"
    by (simp_all add: tree_db_def agent_exists_def policy_exists_def sample_agent_def new_policy_row_def)
  from assign_spec [OF tree_db_ok this] show ?thesis by blast
qed

theorem get_tree_spec_witness:
  "\<exists>(root, kids) \<in> set (get_tree tree_db). (p_id root, 2) \<in> (set (t_children tree_db))\<^sup>*"
proof -
  define q where "q = deserialize_policy (new_policy_row sample_clock 2 ''q'' None)"
  have q: "q \<in> set (list_policies tree_db)" "p_id q = 2"
    by (simp_all add: list_policies_def tree_db_def q_def new_policy_row_def)
  from conjunct1 [OF conjunct2 [OF get_tree_spec [OF tree_db_ok]]] q(1)
  have "\<exists>(root, kids) \<in> set (get_tree tree_db). (p_id root, p_id q) \<in> (set (t_children tree_db))\<^sup>*" by blast
  then show ?thesis by (simp add: q(2))
qed

end
