(* ===== verification/Agents_Dao.thy ===== *)
theory Agents_Dao
  imports Policies_Dao
begin

text \<open>
  The agent store \<open>dao/sqlite/agents.js\<close>. bcrypt and the random generator are parameters: a token is
  an argument of the operation that generates it, \<open>hash\<close> is \<open>bcrypt.hash\<close> (with the salt of the
  call) and \<open>compare\<close> is \<open>bcrypt.compare\<close>. Each asynchronous method is one step.
\<close>

section \<open>Agents\<close>

record agent =
  a_id :: int
  a_name :: string
  a_description :: string
  a_enabled :: bool
  a_request_count :: int
  a_created_at :: string
  a_ip_address :: "string option"

text \<open>\<open>row.ip_address || null\<close>: the empty text is falsy.\<close>

definition or_null :: "string option \<Rightarrow> string option" where
  "or_null v = (if v = Some [] then None else v)"

definition deserialize_agent :: "agent_row \<Rightarrow> agent" where
  "deserialize_agent row =
     \<lparr>a_id = ar_id row, a_name = ar_name row, a_description = ar_description row,
      a_enabled = (ar_enabled row \<noteq> 0), a_request_count = ar_request_count row,
      a_created_at = ar_created_at row, a_ip_address = or_null (ar_ip_address row)\<rparr>"

definition list_agents :: "db \<Rightarrow> agent list" where
  "list_agents d = map deserialize_agent (t_agents d)"

definition get_agent :: "db \<Rightarrow> int option \<Rightarrow> agent option" where
  "get_agent d i = map_option deserialize_agent (row_by_id ar_id (t_agents d) i)"

definition new_agent_row :: "sql_clock \<Rightarrow> int \<Rightarrow> string \<Rightarrow> string option \<Rightarrow> string \<Rightarrow> agent_row" where
  "new_agent_row c i name description token_hash =
     \<lparr>ar_id = i, ar_name = name, ar_token_hash = token_hash, ar_enabled = 1, ar_request_count = 0,
      ar_created_at = datetime_now c, ar_description = or_else description [], ar_ip_address = None\<rparr>"

text \<open>\<open>create\<close>: the agent, with the plaintext token.\<close>

definition create_agent ::
  "(string \<Rightarrow> string) \<Rightarrow> sql_clock \<Rightarrow> string \<Rightarrow> db \<Rightarrow> string option \<Rightarrow> string option
    \<Rightarrow> js_error + db \<times> agent \<times> string" where
  "create_agent hash c token d name description =
     (case name of
        None \<Rightarrow> Inl (Sqlite NotNull)
      | Some n \<Rightarrow>
          if n \<in> ar_name ` set (t_agents d) then Inl (Sqlite Unique)
          else
            (let i = seq_agents d + 1; row = new_agent_row c i n description (hash token)
             in Inr (d\<lparr>t_agents := t_agents d @ [row], seq_agents := i\<rparr>, deserialize_agent row, token)))"

record agent_fields =
  af_name :: "string option"
  af_description :: "string option"
  af_enabled :: "bool option"

definition changed_agent :: "agent_fields \<Rightarrow> agent_row \<Rightarrow> agent_row" where
  "changed_agent f row = row\<lparr>
     ar_name := or_else (af_name f) (ar_name row),
     ar_description := or_else (af_description f) (ar_description row),
     ar_enabled := (if or_else (af_enabled f) (ar_enabled row \<noteq> 0) then 1 else 0)\<rparr>"

definition update_agent :: "db \<Rightarrow> int option \<Rightarrow> agent_fields \<Rightarrow> js_error + db \<times> agent option" where
  "update_agent d i f =
     (case row_by_id ar_id (t_agents d) i of
        None \<Rightarrow> Inr (d, None)
      | Some row \<Rightarrow>
          (let row' = changed_agent f row in
           if \<exists>q \<in> set (t_agents d). ar_id q \<noteq> ar_id row \<and> ar_name q = ar_name row' then Inl (Sqlite Unique)
           else
             (let d' = d\<lparr>t_agents := update_where ar_id i (\<lambda>_. row') (t_agents d)\<rparr>
              in Inr (d', get_agent d' i))))"

text \<open>
  \<open>delete\<close>, one transaction: the approvals of the log entries of the agent (found by its name), the
  log entries, the agent; its assignments go with it (ON DELETE CASCADE).
\<close>

definition agent_log_ids :: "db \<Rightarrow> string \<Rightarrow> int set" where
  "agent_log_ids d name = lr_id ` {l \<in> set (t_log d). lr_agent_id l = Some name}"

definition delete_agent :: "db \<Rightarrow> int option \<Rightarrow> db" where
  "delete_agent d i =
     (case row_by_id ar_id (t_agents d) i of
        None \<Rightarrow> d
      | Some row \<Rightarrow>
          d\<lparr>t_queue := filter (\<lambda>q. aq_request_log_id q \<notin> agent_log_ids d (ar_name row)) (t_queue d),
            t_log := filter (\<lambda>l. lr_agent_id l \<noteq> Some (ar_name row)) (t_log d),
            t_agent_policies := filter (\<lambda>(a, p). Some a \<noteq> i) (t_agent_policies d),
            t_agents := delete_where ar_id i (t_agents d)\<rparr>)"

section \<open>Credentials\<close>

definition rotate_token :: "(string \<Rightarrow> string) \<Rightarrow> string \<Rightarrow> db \<Rightarrow> int option \<Rightarrow> db \<times> string option" where
  "rotate_token hash token d i =
     (case row_by_id ar_id (t_agents d) i of
        None \<Rightarrow> (d, None)
      | Some _ \<Rightarrow>
          (d\<lparr>t_agents := update_where ar_id i (\<lambda>row. row\<lparr>ar_token_hash := hash token\<rparr>) (t_agents d)\<rparr>, Some token))"

definition authenticate :: "(string \<Rightarrow> string \<Rightarrow> bool) \<Rightarrow> db \<Rightarrow> string \<Rightarrow> string \<Rightarrow> agent option" where
  "authenticate compare d name token =
     (case find (\<lambda>row. ar_name row = name) (t_agents d) of
        None \<Rightarrow> None
      | Some row \<Rightarrow>
          if ar_enabled row = 0 then None
          else if compare token (ar_token_hash row) then Some (deserialize_agent row) else None)"

definition increment_request_count :: "db \<Rightarrow> string option \<Rightarrow> db" where
  "increment_request_count d name =
     d\<lparr>t_agents := map (\<lambda>row. if Some (ar_name row) = name then row\<lparr>ar_request_count := ar_request_count row + 1\<rparr>
        else row) (t_agents d)\<rparr>"

section \<open>What the proxy is told\<close>

record proxy_agent =
  pa_name :: string
  pa_token_hash :: string
  pa_enabled :: bool
  pa_ip_address :: "string option"

definition list_for_proxy :: "db \<Rightarrow> proxy_agent list" where
  "list_for_proxy d =
     map (\<lambda>row. \<lparr>pa_name = ar_name row, pa_token_hash = ar_token_hash row, pa_enabled = (ar_enabled row \<noteq> 0),
       pa_ip_address = or_null (ar_ip_address row)\<rparr>) (t_agents d)"

definition register_ip :: "db \<Rightarrow> int option \<Rightarrow> string option \<Rightarrow> db" where
  "register_ip d i ip = d\<lparr>t_agents := update_where ar_id i (\<lambda>row. row\<lparr>ar_ip_address := ip\<rparr>) (t_agents d)\<rparr>"

text \<open>\<open>mapping[row.ip_address] = row.name\<close>, row by row: a later row of the same address overwrites.\<close>

definition ip_mapping :: "db \<Rightarrow> (string \<times> string) list" where
  "ip_mapping d =
     foldl (\<lambda>m row. case ar_ip_address row of None \<Rightarrow> m | Some ip \<Rightarrow> obj_put m ip (ar_name row)) []
       (filter (\<lambda>row. ar_ip_address row \<noteq> None \<and> ar_enabled row = 1) (t_agents d))"

section \<open>Every write keeps the invariant\<close>

lemma agents_table_ok: "db_ok d \<Longrightarrow> table_ok ar_id (seq_agents d) (t_agents d)"
  by (simp add: db_ok_def agents_ok_def)

lemma agent_names: "db_ok d \<Longrightarrow> distinct (map ar_name (t_agents d))"
  by (simp add: db_ok_def agents_ok_def)

lemma create_agent_Inr:
  assumes "create_agent hash c token d name description = Inr (d', a, t)"
  shows "\<exists>n. name = Some n \<and> n \<notin> ar_name ` set (t_agents d) \<and> t = token
    \<and> a = deserialize_agent (new_agent_row c (seq_agents d + 1) n description (hash token))
    \<and> d' = d\<lparr>t_agents := t_agents d @ [new_agent_row c (seq_agents d + 1) n description (hash token)],
             seq_agents := seq_agents d + 1\<rparr>"
  using assms by (auto simp: create_agent_def Let_def split: option.splits if_splits)

lemma new_agent_row_simps [simp]:
  "ar_id (new_agent_row c i n ds h) = i" "ar_name (new_agent_row c i n ds h) = n"
  "ar_token_hash (new_agent_row c i n ds h) = h" "ar_enabled (new_agent_row c i n ds h) = 1"
  by (simp_all add: new_agent_row_def)

lemma create_agent_ok:
  assumes "db_ok d" "create_agent hash c token d name description = Inr (d', a, t)"
  shows "db_ok d'"
proof -
  from create_agent_Inr [OF assms(2)] obtain n where
    n: "n \<notin> ar_name ` set (t_agents d)"
    and d': "d' = d\<lparr>t_agents := t_agents d @ [new_agent_row c (seq_agents d + 1) n description (hash token)],
             seq_agents := seq_agents d + 1\<rparr>" by blast
  show ?thesis
    unfolding d' by (rule db_ok_set_agents [OF assms(1) table_ok_insert [OF agents_table_ok [OF assms(1)]]])
      (use n agent_names [OF assms(1)] in auto)
qed

lemma db_ok_update_agents:
  assumes "db_ok d" "\<And>r. Some (ar_id r) = i \<Longrightarrow> ar_id (f r) = ar_id r"
    and "distinct (map ar_name (update_where ar_id i f (t_agents d)))"
  shows "db_ok (d\<lparr>t_agents := update_where ar_id i f (t_agents d)\<rparr>)"
proof -
  have "db_ok (d\<lparr>t_agents := update_where ar_id i f (t_agents d), seq_agents := seq_agents d\<rparr>)"
    by (rule db_ok_set_agents [OF assms(1) table_ok_update_where [OF agents_table_ok [OF assms(1)] assms(2)] assms(3)])
      (use update_where_key_set [where key = ar_id and i = i and f = f, OF assms(2)] in auto)
  then show ?thesis by simp
qed

lemma update_where_same_names:
  "(\<And>r. ar_name (f r) = ar_name r) \<Longrightarrow> map ar_name (update_where ar_id i f rows) = map ar_name rows"
  by (simp add: update_where_def)

lemma update_agent_Inr:
  assumes "db_ok d" "update_agent d i f = Inr (d', res)"
  shows "db_ok d'" "res = map_option (\<lambda>row. deserialize_agent (changed_agent f row)) (row_by_id ar_id (t_agents d) i)"
proof -
  have "db_ok d' \<and> res = map_option (\<lambda>row. deserialize_agent (changed_agent f row)) (row_by_id ar_id (t_agents d) i)"
  proof (cases "row_by_id ar_id (t_agents d) i")
    case None
    with assms show ?thesis by (simp add: update_agent_def)
  next
    case (Some row)
    note mem = row_by_id_SomeD [OF Some]
    let ?row' = "changed_agent f row"
    from assms(2) Some have
      uniq: "\<forall>q \<in> set (t_agents d). ar_id q \<noteq> ar_id row \<longrightarrow> ar_name q \<noteq> ar_name ?row'"
      and d': "d' = d\<lparr>t_agents := update_where ar_id i (\<lambda>_. ?row') (t_agents d)\<rparr>" and res: "res = get_agent d' i"
      by (auto simp: update_agent_def Let_def split: if_splits)
    have same: "\<And>r. Some (ar_id r) = i \<Longrightarrow> ar_id ?row' = ar_id r"
      using mem by (simp add: changed_agent_def)
    have "distinct (map ar_name (update_where ar_id i (\<lambda>_. ?row') (t_agents d)))"
      unfolding map_update_where conjunct2 [OF mem]
      by (rule rename_distinct [OF table_ok_distinct [OF agents_table_ok [OF assms(1)]] agent_names [OF assms(1)] uniq])
    from db_ok_update_agents [where f = "\<lambda>_. ?row'", OF assms(1) same this] have "db_ok d'" by (simp add: d')
    moreover have "get_agent d' i = Some (deserialize_agent ?row')"
      unfolding get_agent_def d'
      by (simp add: row_by_id_update_where [where key = ar_id and i = i and f = "\<lambda>_. ?row'", OF same] Some)
    ultimately show ?thesis by (simp add: res Some)
  qed
  then show "db_ok d'"
    "res = map_option (\<lambda>row. deserialize_agent (changed_agent f row)) (row_by_id ar_id (t_agents d) i)" by simp_all
qed

lemma rotate_token_ok: "db_ok d \<Longrightarrow> db_ok (fst (rotate_token hash token d i))"
  by (auto simp: rotate_token_def update_where_same_names agent_names split: option.splits
      intro!: db_ok_update_agents)

lemma register_ip_ok: "db_ok d \<Longrightarrow> db_ok (register_ip d i ip)"
  by (auto simp: register_ip_def update_where_same_names agent_names intro!: db_ok_update_agents)

lemma increment_request_count_ok:
  assumes "db_ok d"
  shows "db_ok (increment_request_count d name)"
proof -
  let ?f = "\<lambda>row. if Some (ar_name row) = name then row\<lparr>ar_request_count := ar_request_count row + 1\<rparr> else row"
  have keep: "map ar_id (map ?f (t_agents d)) = map ar_id (t_agents d)"
    "map ar_name (map ?f (t_agents d)) = map ar_name (t_agents d)" by simp_all
  have "db_ok (d\<lparr>t_agents := map ?f (t_agents d), seq_agents := seq_agents d\<rparr>)"
  proof (rule db_ok_set_agents [OF assms])
    show "table_ok ar_id (seq_agents d) (map ?f (t_agents d))"
      by (rule table_ok_map [OF agents_table_ok [OF assms]]) simp
    show "distinct (map ar_name (map ?f (t_agents d)))" unfolding keep by (rule agent_names [OF assms])
    show "ar_id ` set (t_agents d) \<subseteq> ar_id ` set (map ?f (t_agents d))"
      using keep(1) by (metis list.set_map order_refl)
  qed
  then show ?thesis by (simp add: increment_request_count_def)
qed

lemma delete_agent_ok:
  assumes "db_ok d"
  shows "db_ok (delete_agent d i)"
proof (cases "row_by_id ar_id (t_agents d) i")
  case (Some row)
  then obtain k where k: "i = Some k" by (cases i) auto
  define qs where "qs = filter (\<lambda>q. aq_request_log_id q \<notin> agent_log_ids d (ar_name row)) (t_queue d)"
  define ls where "ls = filter (\<lambda>l. lr_agent_id l \<noteq> Some (ar_name row)) (t_log d)"
  define asg where "asg = filter (\<lambda>(a, p). Some a \<noteq> i) (t_agent_policies d)"
  define as where "as = delete_where ar_id i (t_agents d)"
  have ids: "ar_id ` set as = ar_id ` set (t_agents d) - {k}" by (simp add: as_def delete_where_key_set k)
  have "lr_id ` set ls = lr_id ` set (t_log d) - agent_log_ids d (ar_name row)"
    using table_ok_distinct [of lr_id "seq_log d" "t_log d"] assms
    by (auto simp: ls_def agent_log_ids_def db_ok_def log_ok_def distinct_map inj_on_def)
  then have queue: "queue_ok (d\<lparr>t_queue := qs, t_log := ls\<rparr>)"
    using assms by (auto simp: db_ok_def queue_ok_def qs_def exists_defs table_ok_filter)
  have log: "log_ok (d\<lparr>t_log := ls\<rparr>)"
    using assms by (auto simp: db_ok_def log_ok_def ls_def exists_defs table_ok_filter)
  have asgs: "assignments_ok (d\<lparr>t_agent_policies := asg, t_agents := as\<rparr>)"
    using assms by (auto simp: db_ok_def assignments_ok_def asg_def exists_defs ids k)
  have ags: "agents_ok (d\<lparr>t_agents := as\<rparr>)"
    using assms by (simp add: db_ok_def agents_ok_def as_def delete_where_def table_ok_filter distinct_map_filter)
  from assms queue log asgs ags
  have "db_ok (d\<lparr>t_queue := qs, t_log := ls, t_agent_policies := asg, t_agents := as\<rparr>)"
    by (simp add: db_ok_def rules_ok_def queue_ok_def log_ok_def assignments_ok_def agents_ok_def policies_ok_def
        edges_ok_def exists_defs)
  then show ?thesis by (simp add: delete_agent_def Some qs_def ls_def asg_def as_def)
qed (simp add: delete_agent_def assms)

section \<open>Properties\<close>

lemma find_name:
  assumes "db_ok d" "row \<in> set (t_agents d)"
  shows "find (\<lambda>r. ar_name r = ar_name row) (t_agents d) = Some row"
  using find_unique_key [OF agent_names [OF assms(1)] assms(2)] .

lemma authenticate_row:
  "db_ok d \<Longrightarrow> row \<in> set (t_agents d) \<Longrightarrow>
     authenticate compare d (ar_name row) token
       = (if ar_enabled row \<noteq> 0 \<and> compare token (ar_token_hash row) then Some (deserialize_agent row) else None)"
  by (simp add: authenticate_def find_name)

text \<open>What rotating, disabling and deleting an agent does to its authentication.\<close>

lemma rotate_authenticates:
  assumes "db_ok d" "row \<in> set (t_agents d)"
  shows "authenticate compare (fst (rotate_token hash t2 d (Some (ar_id row)))) (ar_name row) t
      = (if ar_enabled row \<noteq> 0 \<and> compare t (hash t2) then Some (deserialize_agent (row\<lparr>ar_token_hash := hash t2\<rparr>)) else None)"
    and "snd (rotate_token hash t2 d (Some (ar_id row))) = Some t2"
proof -
  have got: "row_by_id ar_id (t_agents d) (Some (ar_id row)) = Some row"
    using row_by_id_mem [OF agents_table_ok [OF assms(1)] assms(2)] by simp
  let ?d2 = "fst (rotate_token hash t2 d (Some (ar_id row)))"
  have "row\<lparr>ar_token_hash := hash t2\<rparr> \<in> set (t_agents ?d2)"
    using assms(2) by (auto simp: rotate_token_def got update_where_def)
  from authenticate_row [OF rotate_token_ok [OF assms(1)] this] show
    "authenticate compare ?d2 (ar_name row) t
      = (if ar_enabled row \<noteq> 0 \<and> compare t (hash t2) then Some (deserialize_agent (row\<lparr>ar_token_hash := hash t2\<rparr>)) else None)"
    by simp
  show "snd (rotate_token hash t2 d (Some (ar_id row))) = Some t2" by (simp add: rotate_token_def got)
qed

lemma disabled_agent_rejected:
  assumes "db_ok d" "row \<in> set (t_agents d)"
    and u: "update_agent d (Some (ar_id row)) \<lparr>af_name = None, af_description = None, af_enabled = Some False\<rparr> = Inr (d', res)"
  shows "authenticate compare d' (ar_name row) t = None"
proof -
  have got: "row_by_id ar_id (t_agents d) (Some (ar_id row)) = Some row"
    using row_by_id_mem [OF agents_table_ok [OF assms(1)] assms(2)] by simp
  let ?f = "\<lparr>af_name = None, af_description = None, af_enabled = Some False\<rparr>"
  have "d' = d\<lparr>t_agents := update_where ar_id (Some (ar_id row)) (\<lambda>_. changed_agent ?f row) (t_agents d)\<rparr>"
    using u by (auto simp: update_agent_def got Let_def split: if_splits)
  then have "changed_agent ?f row \<in> set (t_agents d')" using assms(2) by (force simp: update_where_def)
  from authenticate_row [OF update_agent_Inr(1) [OF assms(1) u] this, of compare t] show ?thesis
    by (simp add: changed_agent_def)
qed

lemma deleted_agent_rejected:
  assumes "db_ok d" "row \<in> set (t_agents d)"
  shows "authenticate compare (delete_agent d (Some (ar_id row))) (ar_name row) t = None"
proof -
  have got: "row_by_id ar_id (t_agents d) (Some (ar_id row)) = Some row"
    using row_by_id_mem [OF agents_table_ok [OF assms(1)] assms(2)] by simp
  have "t_agents (delete_agent d (Some (ar_id row))) = delete_where ar_id (Some (ar_id row)) (t_agents d)"
    by (simp add: delete_agent_def got)
  moreover have "ar_name r \<noteq> ar_name row" if "r \<in> set (t_agents d)" "ar_id r \<noteq> ar_id row" for r
    using that assms(2) agent_names [OF assms(1)] by (auto simp: distinct_map inj_on_def)
  ultimately have "find (\<lambda>r. ar_name r = ar_name row) (t_agents (delete_agent d (Some (ar_id row)))) = None"
    by (auto simp: find_None_iff delete_where_def)
  then show ?thesis by (simp add: authenticate_def)
qed

text \<open>
  The life of a credential. When \<open>bcrypt\<close> accepts a token against its own hash, and a token is
  not accepted against the hash of the other, then: the token \<open>create\<close> returns authenticates the new
  agent; after \<open>rotateToken\<close> the new token does and the old one no longer does; after the agent is
  disabled, or deleted, neither does.
\<close>

theorem credential_lifecycle:
  assumes "db_ok d" "create_agent hash c t1 d (Some name) description = Inr (d1, a, tok)"
    and "compare t1 (hash t1)" "compare t2 (hash t2)" "\<not> compare t1 (hash t2)"
  shows "tok = t1 \<and> authenticate compare d1 name t1 = Some a
    \<and> (let (d2, rotated) = rotate_token hash t2 d1 (Some (a_id a)) in
        rotated = Some t2 \<and> authenticate compare d2 name t2 \<noteq> None \<and> authenticate compare d2 name t1 = None)
    \<and> (\<forall>d3 res. update_agent d1 (Some (a_id a)) \<lparr>af_name = None, af_description = None, af_enabled = Some False\<rparr>
          = Inr (d3, res) \<longrightarrow> authenticate compare d3 name t1 = None)
    \<and> authenticate compare (delete_agent d1 (Some (a_id a))) name t1 = None"
proof -
  let ?row = "new_agent_row c (seq_agents d + 1) name description (hash t1)"
  from create_agent_Inr [OF assms(2)] have tok: "tok = t1" and a: "a = deserialize_agent ?row"
    and d1: "d1 = d\<lparr>t_agents := t_agents d @ [?row], seq_agents := seq_agents d + 1\<rparr>" by auto
  have ai: "a_id a = ar_id ?row" by (simp add: a deserialize_agent_def)
  have ok1: "db_ok d1" by (rule create_agent_ok [OF assms(1,2)])
  have mem: "?row \<in> set (t_agents d1)" by (simp add: d1)
  have n: "ar_name ?row = name" "ar_enabled ?row \<noteq> 0" by (simp_all add: new_agent_row_def)
  have auth1: "authenticate compare d1 name t1 = Some a"
    using authenticate_row [OF ok1 mem, of compare t1] assms(3) by (simp add: a)
  note rot1 = rotate_authenticates(1) [where compare = compare and hash = hash and ?t2.0 = t2, OF ok1 mem, unfolded n]
  show ?thesis
    unfolding ai
    using tok auth1 rot1 [of t1] rot1 [of t2] rotate_authenticates(2) [OF ok1 mem] disabled_agent_rejected [OF ok1 mem, unfolded n(1)]
      deleted_agent_rejected [OF ok1 mem, unfolded n(1)] assms(4,5) n(2)
    by (auto simp: split_beta Let_def)
qed

text \<open>
  Deleting an agent removes the agent, its assignments, its log entries and their approvals, and
  nothing else: no row is left that refers to it, and every other agent, log entry and approval stays.
\<close>

theorem delete_agent_spec:
  assumes "db_ok d" "row_by_id ar_id (t_agents d) (Some i) = Some row"
  shows "db_ok (delete_agent d (Some i))
    \<and> (\<forall>j. get_agent (delete_agent d (Some i)) j = (if j = Some i then None else get_agent d j))
    \<and> set (t_log (delete_agent d (Some i))) = {l \<in> set (t_log d). lr_agent_id l \<noteq> Some (ar_name row)}
    \<and> set (t_queue (delete_agent d (Some i)))
        = {q \<in> set (t_queue d). \<forall>l \<in> set (t_log d). lr_id l = aq_request_log_id q \<longrightarrow> lr_agent_id l \<noteq> Some (ar_name row)}
    \<and> (\<forall>(a, p) \<in> set (t_agent_policies (delete_agent d (Some i))). a \<noteq> i)
    \<and> t_rules (delete_agent d (Some i)) = t_rules d \<and> t_policies (delete_agent d (Some i)) = t_policies d"
proof (intro conjI)
  show "set (t_queue (delete_agent d (Some i)))
      = {q \<in> set (t_queue d). \<forall>l \<in> set (t_log d). lr_id l = aq_request_log_id q \<longrightarrow> lr_agent_id l \<noteq> Some (ar_name row)}"
    using assms(2) by (force simp: delete_agent_def agent_log_ids_def)
qed (use delete_agent_ok [OF assms(1), of "Some i"] assms(2) in
    \<open>auto simp: delete_agent_def get_agent_def row_by_id_delete_where\<close>)

text \<open>The last row of an address wins.\<close>

lemma map_of_foldl_put:
  "map_of (foldl (\<lambda>m row. obj_put m (k row) (v row)) m rows) x
     = (case find (\<lambda>row. k row = x) (rev rows) of Some row \<Rightarrow> Some (v row) | None \<Rightarrow> map_of m x)"
  by (induction rows arbitrary: m) (auto simp: map_of_obj_put find_append split: option.splits)

lemma ip_mapping_lookup:
  "map_of (ip_mapping d) ip
     = map_option ar_name (find (\<lambda>row. ar_ip_address row = Some ip \<and> ar_enabled row = 1) (rev (t_agents d)))"
proof -
  let ?rows = "filter (\<lambda>row. ar_ip_address row \<noteq> None \<and> ar_enabled row = 1) (t_agents d)"
  have "foldl (\<lambda>m row. case ar_ip_address row of None \<Rightarrow> m | Some ip \<Rightarrow> obj_put m ip (ar_name row)) m ?rows
      = foldl (\<lambda>m row. obj_put m (the (ar_ip_address row)) (ar_name row)) m ?rows" for m
    by (rule foldl_cong) auto
  then have "map_of (ip_mapping d) ip = map_option ar_name (find (\<lambda>row. the (ar_ip_address row) = ip) (rev ?rows))"
    by (simp add: ip_mapping_def map_of_foldl_put split: option.splits)
  also have "find (\<lambda>row. the (ar_ip_address row) = ip) (rev ?rows)
      = find (\<lambda>row. ar_ip_address row = Some ip \<and> ar_enabled row = 1) (rev (t_agents d))"
    unfolding rev_filter find_filter by (rule find_cong_mem) auto
  finally show ?thesis .
qed

text \<open>
  The address mapping pushed to the proxy names, for every address, an enabled agent registered
  with exactly that address, the most recently created one when several are; an address maps to
  nothing exactly when no enabled agent has it.
\<close>

theorem ip_mapping_spec:
  assumes "db_ok d"
  shows "case map_of (ip_mapping d) ip of
      None \<Rightarrow> \<forall>row \<in> set (t_agents d). \<not> (ar_ip_address row = Some ip \<and> ar_enabled row = 1)
    | Some name \<Rightarrow> \<exists>row \<in> set (t_agents d). ar_name row = name \<and> ar_ip_address row = Some ip \<and> ar_enabled row = 1
        \<and> (\<forall>q \<in> set (t_agents d). ar_ip_address q = Some ip \<and> ar_enabled q = 1 \<longrightarrow> ar_id q \<le> ar_id row)"
proof -
  let ?P = "\<lambda>row. ar_ip_address row = Some ip \<and> ar_enabled row = 1"
  have "sorted_wrt (\<lambda>x y. ar_id x < ar_id y) (t_agents d)"
    using agents_table_ok [OF assms] by (simp add: table_ok_def sorted_wrt_map)
  then have "sorted_wrt (\<lambda>x y. ar_id x \<le> ar_id y) (t_agents d)"
    by (rule sorted_wrt_mono_rel [rotated]) simp
  then have srt: "sorted_wrt (\<lambda>x y. ar_id y \<le> ar_id x) (rev (t_agents d))"
    by (simp add: sorted_wrt_rev)
  show ?thesis
  proof (cases "find ?P (rev (t_agents d))")
    case None
    then have "map_of (ip_mapping d) ip = None" by (simp add: ip_mapping_lookup)
    with None show ?thesis by (auto simp: find_None_iff)
  next
    case (Some row)
    then have "map_of (ip_mapping d) ip = Some (ar_name row)" by (simp add: ip_mapping_lookup)
    moreover have "row \<in> set (t_agents d)" "?P row" using find_SomeD [OF Some] by auto
    moreover have "ar_id q \<le> ar_id row" if "q \<in> set (t_agents d)" "?P q" for q
      using sorted_key_append_find [OF srt Some, of q] that by (simp add: reflp_def)
    ultimately show ?thesis by auto
  qed
qed

section \<open>The properties at concrete inputs\<close>

theorem credential_lifecycle_witness:
  "\<exists>d1 a. create_agent (\<lambda>t. t) sample_clock ''t1'' empty_db (Some ''n'') None = Inr (d1, a, ''t1'')
     \<and> authenticate (=) d1 ''n'' ''t1'' = Some a
     \<and> authenticate (=) (fst (rotate_token (\<lambda>t. t) ''t2'' d1 (Some (a_id a)))) ''n'' ''t1'' = None"
proof -
  have "\<exists>d1 a. create_agent (\<lambda>t. t) sample_clock ''t1'' empty_db (Some ''n'') None = Inr (d1, a, ''t1'')"
    by (simp add: create_agent_def empty_db_def Let_def)
  then obtain d1 a where c: "create_agent (\<lambda>t. t) sample_clock ''t1'' empty_db (Some ''n'') None = Inr (d1, a, ''t1'')"
    by blast
  from credential_lifecycle [OF empty_db_ok c, of "(=)" "''t2''"] c show ?thesis
    by (auto simp: split_beta Let_def)
qed

theorem delete_agent_spec_witness:
  "get_agent (delete_agent tree_db (Some 1)) (Some 1) = None \<and> db_ok (delete_agent tree_db (Some 1))"
proof -
  have "row_by_id ar_id (t_agents tree_db) (Some 1) = Some sample_agent"
    by (simp add: row_by_id_def tree_db_def sample_agent_def)
  from delete_agent_spec [OF tree_db_ok this] show ?thesis by simp
qed

theorem ip_mapping_spec_witness:
  "\<forall>row \<in> set (t_agents tree_db). \<not> (ar_ip_address row = Some ''10.0.0.9'' \<and> ar_enabled row = 1)"
proof -
  have "map_of (ip_mapping tree_db) ''10.0.0.9'' = None"
    by (simp add: ip_mapping_def tree_db_def sample_agent_def)
  with ip_mapping_spec [OF tree_db_ok, of "''10.0.0.9''"] show ?thesis by simp
qed

end
