(* ===== verification/Ipc.thy ===== *)
theory Ipc
  imports Json
begin

text \<open>
  The socket protocol between the Node server and the Go proxy: \<open>ipc/protocol.js\<close> (framing:
  one JSON object per line) and \<open>ipc/server.js\<close> (one client, messages buffered while it is
  away, partial lines kept between chunks). A message is the entry list of its object, a chunk
  its bytes; the wire is the log of what was written to each socket. \<open>randomUUID\<close> is the
  parameter \<open>uuid\<close>: \<open>uuid n\<close> is its n-th result.
\<close>

type_synonym message = "(string \<times> json) list"

section \<open>protocol.js\<close>

definition truthy :: "json option \<Rightarrow> bool" where
  "truthy v = (case v of
     None \<Rightarrow> False
   | Some JNull \<Rightarrow> False
   | Some (JBool b) \<Rightarrow> b
   | Some (JNum n) \<Rightarrow> n \<noteq> 0
   | Some (JStr s) \<Rightarrow> s \<noteq> []
   | Some _ \<Rightarrow> True)"

text \<open>\<open>frame\<close>: the bytes, and how many UUIDs have been drawn after it.\<close>

definition with_msg_id :: "(nat \<Rightarrow> string) \<Rightarrow> nat \<Rightarrow> message \<Rightarrow> message" where
  "with_msg_id uuid n msg =
     (if \<not> truthy (obj_get msg ''msg_id'') then obj_put msg ''msg_id'' (JStr (uuid n)) else msg)"

definition frame :: "(nat \<Rightarrow> string) \<Rightarrow> nat \<Rightarrow> message \<Rightarrow> string \<times> nat" where
  "frame uuid n msg =
     (stringify (JObj (with_msg_id uuid n msg)) @ [newline],
      if \<not> truthy (obj_get msg ''msg_id'') then Suc n else n)"

text \<open>\<open>str.split('\n')\<close> and \<open>line.trim()\<close>.\<close>

fun split_nl :: "string \<Rightarrow> string list" where
  "split_nl [] = [[]]"
| "split_nl (c # s) =
     (if c = newline then [] # split_nl s
      else (case split_nl s of [] \<Rightarrow> [[c]] | l # ls \<Rightarrow> (c # l) # ls))"

definition trim_ws :: "char \<Rightarrow> bool" where
  "trim_ws c \<longleftrightarrow> c \<in> {CHR '' '', CHR 0x09, CHR 0x0A, CHR 0x0B, CHR 0x0C, CHR 0x0D}"

definition trim :: "string \<Rightarrow> string" where
  "trim s = rev (dropWhile trim_ws (rev (dropWhile trim_ws s)))"

text \<open>\<open>None\<close> is the SyntaxError of \<open>JSON.parse\<close>, which leaves the loop.\<close>

fun parse_lines :: "string list \<Rightarrow> json list option" where
  "parse_lines [] = Some []"
| "parse_lines (line # lines) =
     (let trimmed = trim line in
      if trimmed = [] then parse_lines lines
      else (case json_parse trimmed of
              None \<Rightarrow> None
            | Some m \<Rightarrow> map_option (\<lambda>ms. m # ms) (parse_lines lines)))"

definition parse_frames :: "string \<Rightarrow> (json list \<times> string) option" where
  "parse_frames str =
     (let lines = split_nl str;
          remainder = last lines
      in map_option (\<lambda>messages. (messages, remainder)) (parse_lines (butlast lines)))"

text \<open>\<open>{ ...data, ref: original.msg_id, msg_id }\<close>; an undefined \<open>ref\<close> is not serialised.\<close>

definition create_response :: "(nat \<Rightarrow> string) \<Rightarrow> nat \<Rightarrow> message \<Rightarrow> message \<Rightarrow> message" where
  "create_response uuid n original data =
     obj_put
       (case obj_get original ''msg_id'' of
          None \<Rightarrow> filter (\<lambda>kv. fst kv \<noteq> ''ref'') data
        | Some i \<Rightarrow> obj_put data ''ref'' i)
       ''msg_id'' (JStr (uuid n))"

section \<open>Buffer.toString\<close>

text \<open>
  Decoding bytes as UTF-8 as Node does: a maximal ill-formed part becomes U+FFFD
  (bytes EF BF BD). On the byte representation of strings this is the identity on well-formed
  input.
\<close>

definition in_range :: "nat \<Rightarrow> nat \<Rightarrow> char \<Rightarrow> bool" where
  "in_range lo hi c \<longleftrightarrow> lo \<le> code c \<and> code c \<le> hi"

abbreviation cont_byte :: "char \<Rightarrow> bool" where
  "cont_byte \<equiv> in_range 128 191"

definition replacement :: string where
  "replacement = [CHR 0xEF, CHR 0xBF, CHR 0xBD]"

definition second_of_three :: "char \<Rightarrow> char \<Rightarrow> bool" where
  "second_of_three b c =
     (if code b = 224 then in_range 160 191 c else if code b = 237 then in_range 128 159 c else cont_byte c)"

definition second_of_four :: "char \<Rightarrow> char \<Rightarrow> bool" where
  "second_of_four b c =
     (if code b = 240 then in_range 144 191 c else if code b = 244 then in_range 128 143 c else cont_byte c)"

fun to_utf8 :: "string \<Rightarrow> string" where
  "to_utf8 [] = []"
| "to_utf8 (b # s) =
     (if code b < 128 then b # to_utf8 s
      else if in_range 194 223 b then
        (case s of
           c # s1 \<Rightarrow> (if cont_byte c then b # c # to_utf8 s1 else replacement @ to_utf8 s)
         | [] \<Rightarrow> replacement)
      else if in_range 224 239 b then
        (case s of
           c # s1 \<Rightarrow>
             (if second_of_three b c then
                (case s1 of
                   d # s2 \<Rightarrow> (if cont_byte d then b # c # d # to_utf8 s2 else replacement @ to_utf8 s1)
                 | [] \<Rightarrow> replacement)
              else replacement @ to_utf8 s)
         | [] \<Rightarrow> replacement)
      else if in_range 240 244 b then
        (case s of
           c # s1 \<Rightarrow>
             (if second_of_four b c then
                (case s1 of
                   d # s2 \<Rightarrow>
                     (if cont_byte d then
                        (case s2 of
                           e # s3 \<Rightarrow> (if cont_byte e then b # c # d # e # to_utf8 s3
                                      else replacement @ to_utf8 s2)
                         | [] \<Rightarrow> replacement)
                      else replacement @ to_utf8 s1)
                 | [] \<Rightarrow> replacement)
              else replacement @ to_utf8 s)
         | [] \<Rightarrow> replacement)
      else replacement @ to_utf8 s)"

definition utf8_ok :: "string \<Rightarrow> bool" where
  "utf8_ok s \<longleftrightarrow> to_utf8 s = s"

lemma to_utf8_ascii: "\<forall>c \<in> set s. code c < 128 \<Longrightarrow> to_utf8 s = s"
  by (induction s) auto

section \<open>server.js\<close>

record ipc =
  ip_client :: "nat option"
  ip_buffer :: "message list"
  ip_buffer_size :: nat
  ip_partial :: string
  ip_listening :: bool
  ip_uuids :: nat
  ip_wire :: "(nat \<times> string) list"

definition ipc_new :: "nat \<Rightarrow> ipc" where
  "ipc_new buffer_size =
     \<lparr>ip_client = None, ip_buffer = [], ip_buffer_size = buffer_size, ip_partial = [],
      ip_listening = False, ip_uuids = 0, ip_wire = []\<rparr>"

definition default_buffer_size :: nat where
  "default_buffer_size = 10000"

definition ipc_start :: "ipc \<Rightarrow> ipc" where
  "ipc_start st = st\<lparr>ip_listening := True\<rparr>"

text \<open>\<open>socket.write(frame(msg))\<close>.\<close>

definition write_frame :: "(nat \<Rightarrow> string) \<Rightarrow> nat \<Rightarrow> ipc \<Rightarrow> message \<Rightarrow> ipc" where
  "write_frame uuid sock st msg =
     (case frame uuid (ip_uuids st) msg of
        (bytes, n) \<Rightarrow> st\<lparr>ip_uuids := n, ip_wire := ip_wire st @ [(sock, bytes)]\<rparr>)"

text \<open>The connection listener, up to the call of \<open>onConnect\<close>.\<close>

definition ipc_connect :: "(nat \<Rightarrow> string) \<Rightarrow> nat \<Rightarrow> ipc \<Rightarrow> ipc" where
  "ipc_connect uuid sock st =
     (let st1 = st\<lparr>ip_client := Some sock, ip_partial := []\<rparr>;
          st2 = foldl (write_frame uuid sock) st1 (ip_buffer st1)
      in st2\<lparr>ip_buffer := []\<rparr>)"

text \<open>The data listener: the parsed messages go to \<open>onMessage\<close> in order.\<close>

definition ipc_data :: "string \<Rightarrow> ipc \<Rightarrow> js_error + (json list \<times> ipc)" where
  "ipc_data chunk st =
     (case parse_frames (ip_partial st @ to_utf8 chunk) of
        None \<Rightarrow> Inl SyntaxErr
      | Some (messages, remainder) \<Rightarrow> Inr (messages, st\<lparr>ip_partial := remainder\<rparr>))"

text \<open>The close and error listeners of a socket.\<close>

definition ipc_gone :: "nat \<Rightarrow> ipc \<Rightarrow> ipc" where
  "ipc_gone sock st = (if ip_client st = Some sock then st\<lparr>ip_client := None\<rparr> else st)"

definition ipc_send :: "(nat \<Rightarrow> string) \<Rightarrow> message \<Rightarrow> ipc \<Rightarrow> ipc" where
  "ipc_send uuid msg st =
     (case ip_client st of
        Some sock \<Rightarrow> write_frame uuid sock st msg
      | None \<Rightarrow> st\<lparr>ip_buffer := push_shift (ip_buffer_size st) (ip_buffer st) msg\<rparr>)"

definition ipc_connected :: "ipc \<Rightarrow> bool" where
  "ipc_connected st \<longleftrightarrow> ip_client st \<noteq> None"

text \<open>\<open>close()\<close>: the client's own close event follows as \<open>ipc_gone\<close>.\<close>

definition ipc_close :: "ipc \<Rightarrow> ipc" where
  "ipc_close st = st\<lparr>ip_listening := False\<rparr>"

section \<open>Lines and chunks\<close>

lemma split_nl_nonempty: "split_nl s \<noteq> []"
  by (induction s) (auto split: list.splits)

lemma split_nl_append:
  "split_nl (a @ b) = butlast (split_nl a) @ split_nl (last (split_nl a) @ b)"
proof (induction a)
  case (Cons c a)
  obtain l ls where l: "split_nl a = l # ls" using split_nl_nonempty [of a] by (cases "split_nl a") auto
  show ?case
  proof (cases "c = newline")
    case True
    then show ?thesis using Cons.IH l by simp
  next
    case False
    show ?thesis
    proof (cases ls)
      case Nil
      then show ?thesis using Cons.IH l False split_nl_nonempty [of "l @ b"] by simp
    next
      case (Cons l' ls')
      then show ?thesis using Cons.IH l False by (auto simp: butlast_append)
    qed
  qed
qed simp

lemma split_nl_line: "newline \<notin> set l \<Longrightarrow> split_nl (l @ newline # s) = l # split_nl s"
  by (induction l) auto

lemma split_nl_no_newline: "newline \<notin> set l \<Longrightarrow> split_nl l = [l]"
  by (induction l) auto

lemma split_nl_lines_clean: "l \<in> set (split_nl s) \<Longrightarrow> newline \<notin> set l"
proof (induction s arbitrary: l)
  case (Cons c s)
  obtain k ks where k: "split_nl s = k # ks" using split_nl_nonempty [of s] by (cases "split_nl s") auto
  show ?case using Cons k by (auto split: if_splits)
qed simp

lemma parse_lines_append:
  "parse_lines (xs @ ys) =
     (case parse_lines xs of None \<Rightarrow> None | Some ms \<Rightarrow> map_option ((@) ms) (parse_lines ys))"
  by (cases "parse_lines ys"; induction xs) (auto simp: Let_def split: option.splits)

lemma parse_frames_append:
  "parse_frames (a @ b) =
     (case parse_frames a of
        None \<Rightarrow> None
      | Some (ms, r) \<Rightarrow> map_option (\<lambda>(ms', r'). (ms @ ms', r')) (parse_frames (r @ b)))"
proof -
  have "last (split_nl (a @ b)) = last (split_nl (last (split_nl a) @ b))"
    by (simp add: split_nl_append [of a b] split_nl_nonempty)
  moreover have "butlast (split_nl (a @ b))
      = butlast (split_nl a) @ butlast (split_nl (last (split_nl a) @ b))"
    by (simp add: split_nl_append [of a b] butlast_append split_nl_nonempty)
  ultimately show ?thesis
    by (cases "parse_lines (butlast (split_nl (last (split_nl a) @ b)))")
      (auto simp: parse_frames_def Let_def parse_lines_append split: option.splits)
qed

lemma parse_frames_remainder: "parse_frames s = Some (ms, r) \<Longrightarrow> newline \<notin> set r"
  using split_nl_lines_clean [of "last (split_nl s)" s] split_nl_nonempty [of s]
  by (auto simp: parse_frames_def Let_def)

lemma parse_frames_partial: "newline \<notin> set p \<Longrightarrow> parse_frames p = Some ([], p)"
  by (simp add: parse_frames_def split_nl_no_newline)

lemma trim_id:
  assumes "s \<noteq> []" "\<not> trim_ws (hd s)" "\<not> trim_ws (last s)"
  shows "trim s = s"
proof -
  have "dropWhile trim_ws s = s" using assms by (cases s) auto
  moreover have "dropWhile trim_ws (rev s) = rev s"
    using assms by (cases "rev s") (auto simp: last_rev hd_rev last_conv_nth simp flip: hd_rev)
  ultimately show ?thesis by (simp add: trim_def)
qed

lemma trim_object: "trim (stringify (JObj kvs)) = stringify (JObj kvs)"
  by (rule trim_id) (auto simp: trim_ws_def)

lemma parse_frames_line:
  assumes "json_wf (JObj kvs)"
  shows "parse_frames (stringify (JObj kvs) @ newline # s)
    = map_option (\<lambda>(ms, r). (JObj kvs # ms, r)) (parse_frames s)"
proof -
  let ?l = "stringify (JObj kvs)"
  have "split_nl (?l @ newline # s) = ?l # split_nl s"
    by (rule split_nl_line) (rule js.enc_one_line)
  moreover have "json_parse (trim ?l) = Some (JObj kvs)"
    unfolding trim_object by (rule js.dec_enc) (rule assms)
  moreover have "trim ?l \<noteq> []" unfolding trim_object by (rule js.enc_nonempty)
  ultimately show ?thesis
    using split_nl_nonempty [of s]
    by (auto simp: parse_frames_def Let_def option.map_comp comp_def simp del: stringify.simps)
qed

text \<open>The bytes of a sequence of frames, and the messages as sent (with their ids).\<close>

fun frames :: "(nat \<Rightarrow> string) \<Rightarrow> nat \<Rightarrow> message list \<Rightarrow> string \<times> json list \<times> nat" where
  "frames uuid n [] = ([], [], n)"
| "frames uuid n (m # ms) =
     (case frame uuid n m of (b, n1) \<Rightarrow>
        (case frames uuid n1 ms of (bs, js, n2) \<Rightarrow> (b @ bs, JObj (with_msg_id uuid n m) # js, n2)))"

definition message_wf :: "message \<Rightarrow> bool" where
  "message_wf m \<longleftrightarrow> json_wf (JObj m)"

lemma list_all_obj_put:
  "list_all (\<lambda>kv. P (snd kv)) kvs \<Longrightarrow> P v \<Longrightarrow> list_all (\<lambda>kv. P (snd kv)) (obj_put kvs k v)"
  by (induction kvs k v rule: obj_put.induct) auto

lemma with_msg_id_wf: "message_wf m \<Longrightarrow> json_wf (JObj (with_msg_id uuid n m))"
  by (auto simp: message_wf_def with_msg_id_def intro: distinct_obj_put list_all_obj_put)

lemma parse_frames_frames:
  assumes "list_all message_wf ms" "frames uuid n ms = (bytes, js, n')"
  shows "parse_frames (bytes @ s) = map_option (\<lambda>(ms', r). (js @ ms', r)) (parse_frames s)"
  using assms
proof (induction ms arbitrary: n bytes js n')
  case Nil
  then show ?case by (cases "parse_frames s") auto
next
  case (Cons m ms)
  obtain bs js' n2 where f: "frames uuid (snd (frame uuid n m)) ms = (bs, js', n2)"
    by (metis prod_cases3)
  with Cons.prems have b: "bytes = stringify (JObj (with_msg_id uuid n m)) @ newline # bs"
    and j: "js = JObj (with_msg_id uuid n m) # js'"
    by (auto simp: frame_def)
  have "parse_frames (bs @ s) = map_option (\<lambda>(ms', r). (js' @ ms', r)) (parse_frames s)"
    using Cons.IH f Cons.prems(1) by simp
  moreover have "json_wf (JObj (with_msg_id uuid n m))"
    using Cons.prems(1) by (simp add: with_msg_id_wf del: json_wf.simps)
  ultimately show ?case
    unfolding b j
    by (simp add: parse_frames_line option.map_comp comp_def case_prod_unfold del: stringify.simps json_wf.simps)
qed

section \<open>The receiving side\<close>

fun ipc_feed :: "string list \<Rightarrow> ipc \<Rightarrow> js_error + (json list \<times> ipc)" where
  "ipc_feed [] st = Inr ([], st)"
| "ipc_feed (c # cs) st =
     (case ipc_data c st of
        Inl e \<Rightarrow> Inl e
      | Inr (ms, st1) \<Rightarrow>
          (case ipc_feed cs st1 of
             Inl e \<Rightarrow> Inl e
           | Inr (ms', st2) \<Rightarrow> Inr (ms @ ms', st2)))"

lemma ipc_feed_eq:
  assumes "newline \<notin> set (ip_partial st)" "\<forall>c \<in> set chunks. utf8_ok c"
  shows "ipc_feed chunks st =
     (case parse_frames (ip_partial st @ concat chunks) of
        None \<Rightarrow> Inl SyntaxErr
      | Some (ms, r) \<Rightarrow> Inr (ms, st\<lparr>ip_partial := r\<rparr>))"
  using assms
proof (induction chunks arbitrary: st)
  case Nil
  then show ?case by (simp add: parse_frames_partial)
next
  case (Cons c cs)
  have c: "to_utf8 c = c" using Cons.prems by (simp add: utf8_ok_def)
  show ?case
  proof (cases "parse_frames (ip_partial st @ c)")
    case None
    then show ?thesis
      using parse_frames_append [of "ip_partial st @ c" "concat cs"] c by (simp add: ipc_data_def)
  next
    case (Some p)
    obtain ms r where p: "p = (ms, r)" by force
    have "newline \<notin> set (ip_partial (st\<lparr>ip_partial := r\<rparr>))"
      using parse_frames_remainder Some p by simp
    from Cons.IH [OF this] Cons.prems(2) show ?thesis
      using parse_frames_append [of "ip_partial st @ c" "concat cs"] c Some p
      by (auto simp: ipc_data_def split: option.splits)
  qed
qed

section \<open>The sending side refines a bounded queue\<close>

text \<open>
  What the server promises its callers: a message given to \<open>send\<close> is written to the connected
  client at once, or is pending and written to the next client, in order and once; only the
  oldest pending messages beyond the capacity are given up.
\<close>

datatype ipc_event = Send message | Connect nat | Gone nat

fun ipc_step :: "(nat \<Rightarrow> string) \<Rightarrow> ipc \<Rightarrow> ipc_event \<Rightarrow> ipc" where
  "ipc_step uuid st (Send m) = ipc_send uuid m st"
| "ipc_step uuid st (Connect sock) = ipc_connect uuid sock st"
| "ipc_step uuid st (Gone sock) = ipc_gone sock st"

record queue_spec =
  qs_client :: "nat option"
  qs_pending :: "message list"
  qs_delivered :: "(nat \<times> message) list"

fun spec_step :: "nat \<Rightarrow> queue_spec \<Rightarrow> ipc_event \<Rightarrow> queue_spec" where
  "spec_step cap q (Send m) =
     (case qs_client q of
        Some sock \<Rightarrow> q\<lparr>qs_delivered := qs_delivered q @ [(sock, m)]\<rparr>
      | None \<Rightarrow> q\<lparr>qs_pending := last_n cap (qs_pending q @ [m])\<rparr>)"
| "spec_step cap q (Connect sock) =
     q\<lparr>qs_client := Some sock, qs_pending := [],
       qs_delivered := qs_delivered q @ map (Pair sock) (qs_pending q)\<rparr>"
| "spec_step cap q (Gone sock) = (if qs_client q = Some sock then q\<lparr>qs_client := None\<rparr> else q)"

text \<open>The wire a delivery log stands for.\<close>

fun encode_log :: "(nat \<Rightarrow> string) \<Rightarrow> nat \<Rightarrow> (nat \<times> message) list \<Rightarrow> (nat \<times> string) list \<times> nat" where
  "encode_log uuid n [] = ([], n)"
| "encode_log uuid n ((sock, m) # log) =
     (case frame uuid n m of (b, n1) \<Rightarrow>
        (case encode_log uuid n1 log of (w, n2) \<Rightarrow> ((sock, b) # w, n2)))"

definition queue_rel :: "(nat \<Rightarrow> string) \<Rightarrow> ipc \<Rightarrow> queue_spec \<Rightarrow> bool" where
  "queue_rel uuid st q \<longleftrightarrow>
     ip_client st = qs_client q \<and> ip_buffer st = qs_pending q \<and>
     (ip_wire st, ip_uuids st) = encode_log uuid 0 (qs_delivered q) \<and>
     length (qs_pending q) \<le> ip_buffer_size st"

lemma encode_log_append:
  "encode_log uuid n (xs @ ys) =
     (case encode_log uuid n xs of (w, n1) \<Rightarrow>
        (case encode_log uuid n1 ys of (w', n2) \<Rightarrow> (w @ w', n2)))"
  by (induction uuid n xs rule: encode_log.induct) (auto split: prod.splits)

lemma write_frame_fields [simp]:
  "ip_client (write_frame uuid s st m) = ip_client st"
  "ip_buffer (write_frame uuid s st m) = ip_buffer st"
  "ip_buffer_size (write_frame uuid s st m) = ip_buffer_size st"
  "ip_partial (write_frame uuid s st m) = ip_partial st"
  by (simp_all add: write_frame_def split: prod.splits)

lemma write_frames_fields [simp]:
  "ip_client (foldl (write_frame uuid s) st ms) = ip_client st"
  "ip_buffer (foldl (write_frame uuid s) st ms) = ip_buffer st"
  "ip_buffer_size (foldl (write_frame uuid s) st ms) = ip_buffer_size st"
  "ip_partial (foldl (write_frame uuid s) st ms) = ip_partial st"
  by (induction ms arbitrary: st) simp_all

lemma write_frames_wire:
  "(ip_wire (foldl (write_frame uuid s) st ms), ip_uuids (foldl (write_frame uuid s) st ms)) =
     (case encode_log uuid (ip_uuids st) (map (Pair s) ms) of (w, n) \<Rightarrow> (ip_wire st @ w, n))"
proof (induction ms arbitrary: st)
  case (Cons m ms)
  show ?case using Cons.IH [of "write_frame uuid s st m"]
    by (auto simp: write_frame_def split: prod.splits)
qed simp

lemma push_shift_full: "length xs \<le> cap \<Longrightarrow> push_shift cap xs x = last_n cap (xs @ [x])"
  using push_shift_last_n [of cap xs x] by (simp add: last_n_def)

lemma ipc_step_refines:
  assumes "queue_rel uuid st q"
  shows "queue_rel uuid (ipc_step uuid st e) (spec_step (ip_buffer_size st) q e)
    \<and> ip_buffer_size (ipc_step uuid st e) = ip_buffer_size st"
proof (cases e)
  case (Send m)
  show ?thesis
  proof (cases "ip_client st")
    case None
    with assms Send show ?thesis
      by (auto simp: queue_rel_def ipc_send_def push_shift_full length_last_n)
  next
    case (Some sock)
    moreover have "qs_client q = Some sock" using Some assms by (simp add: queue_rel_def)
    ultimately show ?thesis
      using assms Send
      using write_frames_wire [of uuid sock st "[m]"]
      by (auto simp: queue_rel_def ipc_send_def encode_log_append split: prod.splits)
  qed
next
  case (Connect sock)
  let ?st1 = "st\<lparr>ip_client := Some sock, ip_partial := []\<rparr>"
  show ?thesis
    using assms Connect write_frames_wire [of uuid sock ?st1 "ip_buffer st"]
    by (auto simp: queue_rel_def ipc_connect_def Let_def encode_log_append split: prod.splits)
next
  case (Gone sock)
  with assms show ?thesis by (auto simp: queue_rel_def ipc_gone_def)
qed

interpretation ipcq: replay_buffer cap "\<lambda>st m. ipc_send uuid m st" ip_buffer
    "\<lambda>st. ip_client st = None \<and> ip_buffer_size st = cap" for cap uuid
  by unfold_locales (auto simp: ipc_send_def)

text \<open>
  C12: the IPC server refines the queue: along every sequence of sends, connections and
  disconnections the bytes written to the sockets are the frames of the messages the abstract
  queue delivers, each exactly once and in order, and its pending messages are the buffer.
\<close>

theorem ipc_refines_queue:
  "queue_rel uuid (foldl (ipc_step uuid) (ipc_new cap) es)
     (foldl (spec_step cap) \<lparr>qs_client = None, qs_pending = [], qs_delivered = []\<rparr> es)"
proof -
  have "queue_rel uuid (foldl (ipc_step uuid) st es) (foldl (spec_step (ip_buffer_size st)) q es)"
    if "queue_rel uuid st q" for st q
    using that
  proof (induction es arbitrary: st q)
    case (Cons e es)
    from ipc_step_refines [OF Cons.prems, of e] show ?case
      using Cons.IH [of "ipc_step uuid st e" "spec_step (ip_buffer_size st) q e"] by simp
  qed simp
  from this [of "ipc_new cap"] show ?thesis by (simp add: ipc_new_def queue_rel_def)
qed

text \<open>
  messages sent while the proxy is away are written to the next connection, in order: all
  of them up to the buffer size, else the last ones.
\<close>

theorem offline_sends_replayed:
  assumes "ip_client st = None" "ip_buffer st = []"
  shows "(let st' = ipc_connect uuid sock (foldl (\<lambda>s m. ipc_send uuid m s) st ms) in
     ip_wire st' = ip_wire st @ fst (encode_log uuid (ip_uuids st) (map (Pair sock) (last_n (ip_buffer_size st) ms)))
     \<and> ip_buffer st' = [] \<and> ip_client st' = Some sock)"
proof -
  let ?s = "foldl (\<lambda>s m. ipc_send uuid m s) st ms"
  have b: "ip_buffer ?s = last_n (ip_buffer_size st) ms"
    using ipcq.content_pushes_empty [of st "ip_buffer_size st" uuid ms] assms by simp
  have w: "ip_wire ?s = ip_wire st \<and> ip_uuids ?s = ip_uuids st \<and> ip_client ?s = None"
    using assms(1) by (induction ms arbitrary: st) (auto simp: ipc_send_def)
  show ?thesis
    using write_frames_wire [of uuid sock "?s\<lparr>ip_client := Some sock, ip_partial := []\<rparr>" "ip_buffer ?s"] b w
    by (auto simp: ipc_connect_def Let_def split: prod.splits)
qed


text \<open>
  C11: any sequence of framed messages, cut into any chunks that do not cut a character, is
  received as exactly these messages, in order, each with its id, and nothing is left over.
\<close>

theorem ipc_stream_exact:
  assumes "list_all message_wf ms" and "frames uuid n ms = (bytes, js, n')"
    and "concat chunks = bytes" and "\<forall>c \<in> set chunks. utf8_ok c" and "ip_partial st = []"
  shows "ipc_feed chunks st = Inr (js, st)"
proof -
  have "parse_frames bytes = Some (js, [])"
    using parse_frames_frames [OF assms(1,2), of "[]"] parse_frames_partial [of "[]"] by simp
  moreover have "st\<lparr>ip_partial := []\<rparr> = st" using assms(5) by simp
  ultimately show ?thesis
    using ipc_feed_eq [of st chunks] assms(3-5) by simp
qed

theorem ipc_stream_exact_witness:
  "ipc_feed [''{\"type\":'', ''\"a\",\"msg_id\":\"7\"}'' @ [newline]] (ipc_new 2)
     = Inr ([JObj [(''type'', JStr ''a''), (''msg_id'', JStr ''7'')]], ipc_new 2)"
proof (rule ipc_stream_exact)
  show "list_all message_wf [[(''type'', JStr ''a''), (''msg_id'', JStr ''7'')]]"
    by (simp add: message_wf_def)
  show "frames (\<lambda>_. ''u'') 0 [[(''type'', JStr ''a''), (''msg_id'', JStr ''7'')]]
     = (''{\"type\":\"a\",\"msg_id\":\"7\"}'' @ [newline],
        [JObj [(''type'', JStr ''a''), (''msg_id'', JStr ''7'')]], 0)"
    by code_simp
  show "concat [''{\"type\":'', ''\"a\",\"msg_id\":\"7\"}'' @ [newline]]
     = ''{\"type\":\"a\",\"msg_id\":\"7\"}'' @ [newline]"
    by simp
  show "\<forall>c \<in> set [''{\"type\":'', ''\"a\",\"msg_id\":\"7\"}'' @ [newline]]. utf8_ok c"
    by code_simp
  show "ip_partial (ipc_new 2) = []" by (simp add: ipc_new_def)
qed

text \<open>
  a chunk boundary inside a character is not harmless: each chunk is decoded on its own, so
  the two bytes of an e-acute cut by the boundary arrive as two replacement characters, although
  the bytes of the stream are one well-formed message.
\<close>

theorem split_character_corrupts:
  "\<exists>a b. utf8_ok (a @ b) \<and>
     parse_frames (a @ b) = Some ([JObj [(''k'', JStr [CHR 0xC3, CHR 0xA9])]], []) \<and>
     ipc_feed [a, b] (ipc_new 1)
       = Inr ([JObj [(''k'', JStr (replacement @ replacement))]], ipc_new 1)"
proof (intro exI conjI)
  let ?a = "''{\"k\":\"'' @ [CHR 0xC3]" and ?b = "[CHR 0xA9] @ ''\"}'' @ [newline]"
  show "utf8_ok (?a @ ?b)" by code_simp
  show "parse_frames (?a @ ?b) = Some ([JObj [(''k'', JStr [CHR 0xC3, CHR 0xA9])]], [])"
    by code_simp
  show "ipc_feed [?a, ?b] (ipc_new 1) = Inr ([JObj [(''k'', JStr (replacement @ replacement))]], ipc_new 1)"
    by code_simp
qed

theorem offline_sends_replayed_witness:
  "ip_buffer (ipc_connect (\<lambda>_. ''u'') 3 (foldl (\<lambda>s m. ipc_send (\<lambda>_. ''u'') m s) (ipc_new 1)
     [[(''a'', JNum 1)], [(''b'', JNum 2)]])) = []"
  using offline_sends_replayed [of "ipc_new 1" "\<lambda>_. ''u''" 3 "[[(''a'', JNum 1)], [(''b'', JNum 2)]]"]
  by (simp add: ipc_new_def Let_def)

end
