(* ===== verification/Events.thy ===== *)
theory Events
  imports Ipc
begin

text \<open>
  The event bus of \<open>api/events.js\<close>: numbered events, the replay buffer (the second user of the
  bounded buffer), the connected SSE clients and what is written to each. A client is the number of
  its response object.
\<close>

section \<open>The bus\<close>

record event =
  ev_id :: nat
  ev_type :: string
  ev_data :: json

datatype sse_write = Head nat | Chunk string

record event_bus =
  eb_clients :: "nat list"
  eb_buffer :: "event list"
  eb_buffer_size :: nat
  eb_next_id :: nat
  eb_out :: "(nat \<times> sse_write) list"

definition default_event_buffer :: nat where
  "default_event_buffer = 1000"

definition bus_new :: "nat \<Rightarrow> event_bus" where
  "bus_new n = \<lparr>eb_clients = [], eb_buffer = [], eb_buffer_size = n, eb_next_id = 1, eb_out = []\<rparr>"

definition nl :: string where
  "nl = [newline]"

definition event_text :: "event \<Rightarrow> string" where
  "event_text e =
     ''id: '' @ show_nat (ev_id e) @ nl @ ''event: '' @ ev_type e @ nl @ ''data: '' @ stringify (ev_data e) @ nl @ nl"

definition send_event :: "nat \<Rightarrow> event \<Rightarrow> event_bus \<Rightarrow> event_bus" where
  "send_event client e b = b\<lparr>eb_out := eb_out b @ [(client, Chunk (event_text e))]\<rparr>"

definition emit :: "string \<Rightarrow> json \<Rightarrow> event_bus \<Rightarrow> event_bus" where
  "emit event_type data b =
     (let e = \<lparr>ev_id = eb_next_id b, ev_type = event_type, ev_data = data\<rparr>;
          b1 = b\<lparr>eb_next_id := eb_next_id b + 1, eb_buffer := push_shift (eb_buffer_size b) (eb_buffer b) e\<rparr>
      in foldl (\<lambda>b client. send_event client e b) b1 (eb_clients b))"

text \<open>\<open>parseInt\<close>: white space, a sign, a hexadecimal or decimal prefix; \<open>None\<close> is NaN.\<close>

definition digits_of :: "nat \<Rightarrow> (char \<Rightarrow> nat option) \<Rightarrow> string \<Rightarrow> nat option" where
  "digits_of base digit s =
     (let ds = takeWhile (\<lambda>c. digit c \<noteq> None) s in
      if ds = [] then None else Some (foldl (\<lambda>n c. base * n + the (digit c)) 0 ds))"

definition decimal :: "char \<Rightarrow> nat option" where
  "decimal c = (if is_digit c then Some (code c - 48) else None)"

definition parse_int :: "string \<Rightarrow> int option" where
  "parse_int s =
     (let t = dropWhile trim_ws s;
          neg = (t \<noteq> [] \<and> hd t = CHR ''-'');
          u = (if t \<noteq> [] \<and> (hd t = CHR ''-'' \<or> hd t = CHR ''+'') then tl t else t);
          n = (if take 2 u = ''0x'' \<or> take 2 u = ''0X'' then digits_of 16 hex_val (drop 2 u)
               else digits_of 10 decimal u)
      in map_option (\<lambda>n. if neg then - int n else int n) n)"

text \<open>\<open>parseInt(lastIdHeader) || 0\<close>.\<close>

definition last_event_id :: "string \<Rightarrow> int" where
  "last_event_id header = (case parse_int header of None \<Rightarrow> 0 | Some n \<Rightarrow> n)"

definition add_client :: "nat \<Rightarrow> string option \<Rightarrow> event_bus \<Rightarrow> event_bus" where
  "add_client client last_id_header b =
     (let b1 = b\<lparr>eb_out := eb_out b @ [(client, Head 200), (client, Chunk ('':ok'' @ nl @ nl))]\<rparr>;
          b2 = (case last_id_header of
                  None \<Rightarrow> b1
                | Some h \<Rightarrow>
                    foldl (\<lambda>b e. if last_event_id h < int (ev_id e) then send_event client e b else b)
                      b1 (eb_buffer b1))
      in b2\<lparr>eb_clients := (if client \<in> set (eb_clients b2) then eb_clients b2 else eb_clients b2 @ [client])\<rparr>)"

definition client_closed :: "nat \<Rightarrow> event_bus \<Rightarrow> event_bus" where
  "client_closed client b = b\<lparr>eb_clients := removeAll client (eb_clients b)\<rparr>"

definition client_count :: "event_bus \<Rightarrow> nat" where
  "client_count b = length (eb_clients b)"

section \<open>What is written to a client\<close>

definition written :: "nat \<Rightarrow> event_bus \<Rightarrow> sse_write list" where
  "written client b = map snd (filter (\<lambda>w. fst w = client) (eb_out b))"

lemma send_event_fields [simp]:
  "eb_clients (send_event c e b) = eb_clients b" "eb_buffer (send_event c e b) = eb_buffer b"
  "eb_buffer_size (send_event c e b) = eb_buffer_size b" "eb_next_id (send_event c e b) = eb_next_id b"
  by (simp_all add: send_event_def)

lemma send_events_fields [simp]:
  "eb_clients (foldl (\<lambda>b c. send_event c e b) b cs) = eb_clients b"
  "eb_buffer (foldl (\<lambda>b c. send_event c e b) b cs) = eb_buffer b"
  "eb_buffer_size (foldl (\<lambda>b c. send_event c e b) b cs) = eb_buffer_size b"
  "eb_next_id (foldl (\<lambda>b c. send_event c e b) b cs) = eb_next_id b"
  by (induction cs arbitrary: b) simp_all

lemma written_send_event:
  "written k (send_event c e b) = written k b @ (if c = k then [Chunk (event_text e)] else [])"
  by (simp add: written_def send_event_def)

lemma written_send_events:
  "distinct cs \<Longrightarrow> written k (foldl (\<lambda>b c. send_event c e b) b cs)
     = written k b @ (if k \<in> set cs then [Chunk (event_text e)] else [])"
  by (induction cs arbitrary: b) (auto simp: written_send_event)

lemma written_cong: "eb_out b = eb_out b' \<Longrightarrow> written k b = written k b'"
  by (simp add: written_def)

definition bus_ok :: "event_bus \<Rightarrow> bool" where
  "bus_ok b \<longleftrightarrow> distinct (eb_clients b) \<and> 1 \<le> eb_next_id b \<and> length (eb_buffer b) \<le> eb_buffer_size b
     \<and> map ev_id (eb_buffer b) = [eb_next_id b - length (eb_buffer b)..<eb_next_id b]
     \<and> length (eb_buffer b) < eb_next_id b"

lemma emit_fields [simp]:
  "eb_clients (emit t v b) = eb_clients b" "eb_buffer_size (emit t v b) = eb_buffer_size b"
  "eb_next_id (emit t v b) = eb_next_id b + 1"
  "eb_buffer (emit t v b) = push_shift (eb_buffer_size b) (eb_buffer b) \<lparr>ev_id = eb_next_id b, ev_type = t, ev_data = v\<rparr>"
  by (simp_all add: emit_def Let_def)

lemma written_emit:
  "distinct (eb_clients b) \<Longrightarrow> written k (emit t v b)
     = written k b @ (if k \<in> set (eb_clients b)
         then [Chunk (event_text \<lparr>ev_id = eb_next_id b, ev_type = t, ev_data = v\<rparr>)] else [])"
  by (simp add: emit_def Let_def written_send_events) (simp add: written_def)

lemma window_shift:
  assumes "map ev_id buf = [nx - length buf..<nx]" "length buf < nx" "ev_id e = nx"
  shows "map ev_id (buf @ [e]) = [Suc nx - length (buf @ [e])..<Suc nx]"
    and "map ev_id (tl (buf @ [e])) = [Suc nx - length buf..<Suc nx]"
proof -
  have "map ev_id (buf @ [e]) = [nx - length buf..<nx] @ [nx]" using assms by simp
  also have "\<dots> = [nx - length buf..<Suc nx]" by (simp add: upt_Suc_append)
  finally have all: "map ev_id (buf @ [e]) = [nx - length buf..<Suc nx]" .
  then show "map ev_id (buf @ [e]) = [Suc nx - length (buf @ [e])..<Suc nx]" by simp
  have "map ev_id (tl (buf @ [e])) = [Suc (nx - length buf)..<Suc nx]"
    unfolding map_tl all by (rule tl_upt)
  then show "map ev_id (tl (buf @ [e])) = [Suc nx - length buf..<Suc nx]"
    using assms(2) by (simp only: Suc_diff_le less_imp_le)
qed

lemma emit_ok:
  assumes "bus_ok b"
  shows "bus_ok (emit t v b)"
proof -
  define e where "e = \<lparr>ev_id = eb_next_id b, ev_type = t, ev_data = v\<rparr>"
  note w = window_shift [of "eb_buffer b" "eb_next_id b" e]
  have b: "distinct (eb_clients b)" "1 \<le> eb_next_id b" "length (eb_buffer b) \<le> eb_buffer_size b"
    "map ev_id (eb_buffer b) = [eb_next_id b - length (eb_buffer b)..<eb_next_id b]"
    "length (eb_buffer b) < eb_next_id b" using assms by (simp_all add: bus_ok_def)
  have e: "ev_id e = eb_next_id b" by (simp add: e_def)
  note w1 = w(1) [OF b(4,5) e] and w2 = w(2) [OF b(4,5) e]
  show ?thesis
  proof (cases "eb_buffer_size b < length (eb_buffer b @ [e])")
    case True
    then have "eb_buffer (emit t v b) = tl (eb_buffer b @ [e])" by (simp add: push_shift_def Let_def e_def)
    moreover have "length (tl (eb_buffer b @ [e])) = length (eb_buffer b)" by simp
    ultimately show ?thesis using b w2 by (simp add: bus_ok_def del: tl_append map_append)
  next
    case False
    then have "eb_buffer (emit t v b) = eb_buffer b @ [e]" by (simp add: push_shift_def Let_def e_def)
    with False b w1 show ?thesis by (simp add: bus_ok_def del: map_append)
  qed
qed

lemma replay_fold_fields [simp]:
  "eb_clients (foldl (\<lambda>b e. if P e then send_event c e b else b) b es) = eb_clients b"
  "eb_buffer (foldl (\<lambda>b e. if P e then send_event c e b else b) b es) = eb_buffer b"
  "eb_buffer_size (foldl (\<lambda>b e. if P e then send_event c e b else b) b es) = eb_buffer_size b"
  "eb_next_id (foldl (\<lambda>b e. if P e then send_event c e b else b) b es) = eb_next_id b"
  by (induction es arbitrary: b) simp_all

lemma written_replay:
  "written k (foldl (\<lambda>b e. if P e then send_event c e b else b) b es)
     = written k b @ (if k = c then map (\<lambda>e. Chunk (event_text e)) (filter P es) else [])"
  by (induction es arbitrary: b) (auto simp: written_send_event)

lemma add_client_fields [simp]:
  "eb_buffer (add_client c h b) = eb_buffer b" "eb_buffer_size (add_client c h b) = eb_buffer_size b"
  "eb_next_id (add_client c h b) = eb_next_id b"
  "eb_clients (add_client c h b) = (if c \<in> set (eb_clients b) then eb_clients b else eb_clients b @ [c])"
  by (cases h; simp add: add_client_def Let_def)+

lemma written_add_client:
  "written k (add_client c h b) = written k b @ (if k = c then [Head 200, Chunk ('':ok'' @ nl @ nl)]
      @ (case h of None \<Rightarrow> [] | Some s \<Rightarrow> map (\<lambda>e. Chunk (event_text e))
            (filter (\<lambda>e. last_event_id s < int (ev_id e)) (eb_buffer b))) else [])"
proof -
  have 1: "written k (b\<lparr>eb_out := eb_out b @ [(c, x), (c, y)]\<rparr>) = written k b @ (if k = c then [x, y] else [])" for x y
    by (simp add: written_def)
  have 2: "written k (x\<lparr>eb_clients := y\<rparr>) = written k x" for x y by (simp add: written_def)
  show ?thesis by (cases h) (simp_all add: add_client_def Let_def 2 written_replay 1)
qed

lemma add_client_ok: "bus_ok b \<Longrightarrow> bus_ok (add_client c h b)"
  by (auto simp: bus_ok_def)

lemma client_closed_ok: "bus_ok b \<Longrightarrow> bus_ok (client_closed c b)"
  by (simp add: bus_ok_def client_closed_def distinct_removeAll)

lemma bus_new_ok: "bus_ok (bus_new n)"
  by (simp add: bus_ok_def bus_new_def)

interpretation bus_buffer: replay_buffer cap
    "\<lambda>b (t, v). emit t v b" "\<lambda>b. map (\<lambda>e. (ev_type e, ev_data e)) (eb_buffer b)" "\<lambda>b. eb_buffer_size b = cap" for cap
  by unfold_locales (auto simp: push_shift_def Let_def map_tl)

section \<open>Properties\<close>

text \<open>
  C35: The replay buffer is a window on the history: after any sequence of events from the start the
  buffer holds the last \<open>bufferSize\<close> of them in order, under consecutive numbers that end at the
  number of events emitted so far.
\<close>

theorem event_window:
  "let b = foldl (\<lambda>b (t, v). emit t v b) (bus_new n) evs in
     map (\<lambda>e. (ev_type e, ev_data e)) (eb_buffer b) = last_n n evs
     \<and> map ev_id (eb_buffer b) = [Suc (length evs) - min n (length evs)..<Suc (length evs)]"
proof -
  let ?run = "\<lambda>b. foldl (\<lambda>b (t, v). emit t v b) b evs"
  have content: "map (\<lambda>e. (ev_type e, ev_data e)) (eb_buffer (?run (bus_new n))) = last_n n evs"
    using bus_buffer.content_pushes_empty [of "bus_new n" n evs] by (simp add: bus_new_def)
  have "bus_ok b \<Longrightarrow> bus_ok (?run b) \<and> eb_next_id (?run b) = eb_next_id b + length evs" for b
    by (induction evs arbitrary: b) (auto simp: emit_ok split_beta)
  from this [OF bus_new_ok] have
    "bus_ok (?run (bus_new n))" "eb_next_id (?run (bus_new n)) = Suc (length evs)" by (simp_all add: bus_new_def)
  moreover have "length (eb_buffer (?run (bus_new n))) = min n (length evs)"
    using arg_cong [OF content, of length] by (simp add: length_last_n)
  ultimately show ?thesis using content by (simp add: bus_ok_def Let_def)
qed

definition emit_all :: "event_bus \<Rightarrow> (string \<times> json) list \<Rightarrow> event_bus" where
  "emit_all b evs = foldl (\<lambda>b (t, v). emit t v b) b evs"

definition number_from :: "nat \<Rightarrow> (string \<times> json) list \<Rightarrow> event list" where
  "number_from n evs = map (\<lambda>(i, t, v). \<lparr>ev_id = i, ev_type = t, ev_data = v\<rparr>) (enumerate n evs)"

lemma emit_all_simps [simp]: "emit_all b [] = b" "emit_all b ((t, v) # evs) = emit_all (emit t v b) evs"
  by (simp_all add: emit_all_def)

lemma number_from_simps [simp]:
  "number_from n [] = []"
  "number_from n ((t, v) # evs) = \<lparr>ev_id = n, ev_type = t, ev_data = v\<rparr> # number_from (Suc n) evs"
  by (simp_all add: number_from_def)

lemma number_from_append: "number_from n (xs @ ys) = number_from n xs @ number_from (n + length xs) ys"
  by (induction xs arbitrary: n) (auto simp: number_from_def)

lemma number_from_ids: "e \<in> set (number_from n evs) \<Longrightarrow> n \<le> ev_id e"
  by (induction evs arbitrary: n) (auto simp: Suc_leD dest: Suc_leD)

lemma length_number_from [simp]: "length (number_from n evs) = length evs"
  by (simp add: number_from_def)

lemma emit_all_fields:
  "eb_clients (emit_all b evs) = eb_clients b" "eb_buffer_size (emit_all b evs) = eb_buffer_size b"
  "eb_next_id (emit_all b evs) = eb_next_id b + length evs"
  by (induction evs arbitrary: b) auto

lemma emit_all_ok: "bus_ok b \<Longrightarrow> bus_ok (emit_all b evs)"
  by (induction evs arbitrary: b) (auto simp: emit_ok)

lemma written_emit_all:
  "distinct (eb_clients b) \<Longrightarrow> written k (emit_all b evs)
     = written k b @ (if k \<in> set (eb_clients b)
         then map (\<lambda>e. Chunk (event_text e)) (number_from (eb_next_id b) evs) else [])"
  by (induction evs arbitrary: b) (auto simp: written_emit)

lemma buffer_emit_all:
  "eb_buffer b = last_n (eb_buffer_size b) hist \<Longrightarrow>
     eb_buffer (emit_all b evs) = last_n (eb_buffer_size b) (hist @ number_from (eb_next_id b) evs)"
proof (induction evs arbitrary: b hist)
  case (Cons tv evs)
  obtain t v where tv: "tv = (t, v)" by (cases tv)
  let ?e = "\<lparr>ev_id = eb_next_id b, ev_type = t, ev_data = v\<rparr>"
  have "eb_buffer (emit t v b) = last_n (eb_buffer_size (emit t v b)) (hist @ [?e])"
    by (simp add: Cons.prems push_shift_last_n)
  from Cons.IH [OF this] show ?case by (simp add: tv)
qed simp

lemma last_n_full: "length xs \<le> n \<Longrightarrow> last_n n xs = xs"
  by (simp add: last_n_def)

lemma missed_events:
  assumes "bus_ok b" "length evs \<le> eb_buffer_size b"
  shows "filter (\<lambda>e. eb_next_id b \<le> ev_id e) (eb_buffer (emit_all b evs)) = number_from (eb_next_id b) evs"
proof -
  let ?new = "number_from (eb_next_id b) evs"
  have "eb_buffer b = last_n (eb_buffer_size b) (eb_buffer b)"
    using assms(1) by (simp add: bus_ok_def last_n_full)
  then have buf: "eb_buffer (emit_all b evs) = last_n (eb_buffer_size b) (eb_buffer b @ ?new)"
    by (rule buffer_emit_all)
  have "last_n (eb_buffer_size b) (eb_buffer b @ ?new)
      = drop (length (eb_buffer b) + length evs - eb_buffer_size b) (eb_buffer b) @ ?new"
    using assms(2) by (simp add: last_n_def)
  moreover have "filter (\<lambda>e. eb_next_id b \<le> ev_id e) (drop k (eb_buffer b)) = []" for k
  proof -
    have "ev_id e < eb_next_id b" if "e \<in> set (eb_buffer b)" for e
    proof -
      have "ev_id e \<in> set (map ev_id (eb_buffer b))" using that by simp
      then show ?thesis using assms(1) unfolding bus_ok_def by (metis atLeastLessThan_iff set_upt)
    qed
    then show ?thesis by (fastforce simp: filter_empty_conv dest: in_set_dropD)
  qed
  moreover have "filter (\<lambda>e. eb_next_id b \<le> ev_id e) ?new = ?new"
    using number_from_ids by (auto simp: filter_id_conv)
  ultimately show ?thesis by (simp add: buf)
qed

lemma digits_of_decimal:
  assumes "list_all is_digit s" "s \<noteq> []"
  shows "digits_of 10 decimal s = Some (read_nat s)"
proof -
  have t: "takeWhile (\<lambda>c. decimal c \<noteq> None) s = s"
    using assms(1) by (induction s) (simp_all add: decimal_def)
  have "foldl (\<lambda>n c. 10 * n + the (decimal c)) m s = foldl (\<lambda>n c. 10 * n + (code c - 48)) m s" for m
    using assms(1) by (induction s arbitrary: m) (simp_all add: decimal_def)
  with assms(2) show ?thesis unfolding digits_of_def Let_def t read_nat_def by simp
qed

lemma parse_int_show_nat: "parse_int (show_nat n) = Some (int n)"
proof -
  obtain c cs where s: "show_nat n = c # cs" using show_nat_nonempty [of n] by (cases "show_nat n") auto
  have dig: "list_all is_digit (c # cs)" using show_nat_digits [of n] by (simp add: s)
  have other: "\<not> is_digit (CHR ''x'')" "\<not> is_digit (CHR ''X'')" "\<not> is_digit (CHR ''-'')" "\<not> is_digit (CHR ''+'')"
    by (simp_all add: is_digit_def code_def)
  have c: "\<not> trim_ws c" using dig by (auto simp: is_digit_def code_def trim_ws_def)
  have sign: "c \<noteq> CHR ''-''" "c \<noteq> CHR ''+''" using dig other by auto
  have hex: "take 2 (c # cs) \<noteq> ''0x''" "take 2 (c # cs) \<noteq> ''0X''"
    using dig other by (cases cs; auto)+
  have "digits_of 10 decimal (c # cs) = Some n"
    using digits_of_decimal [OF dig] read_show_nat [of n] by (simp add: s)
  then show ?thesis using c sign hex by (simp only: parse_int_def s Let_def) auto
qed

text \<open>
  C36: Reconnecting loses nothing: a client that had received every event up to number \<open>m\<close> and comes back,
  with \<open>Last-Event-ID: m\<close>, after at most \<open>bufferSize\<close> further events, receives on its new connection the
  head, the \<open>:ok\<close> comment, and then exactly the events after \<open>m\<close>, those of its absence and those to come,
  in order, each once.
\<close>

theorem reconnect_without_gap:
  assumes "bus_ok b" "eb_next_id b = Suc m" "length missed \<le> eb_buffer_size b"
    and "client \<notin> set (eb_clients b)" "written client b = []"
  shows "written client (emit_all (add_client client (Some (show_nat m)) (emit_all b missed)) later)
    = [Head 200, Chunk ('':ok'' @ nl @ nl)] @ map (\<lambda>e. Chunk (event_text e)) (number_from (Suc m) (missed @ later))"
proof -
  let ?b1 = "emit_all b missed"
  let ?b2 = "add_client client (Some (show_nat m)) ?b1"
  have ok: "bus_ok ?b1" "bus_ok ?b2" using assms(1) by (simp_all add: emit_all_ok add_client_ok)
  have none: "written client ?b1 = []"
    using assms(1,4,5) by (simp add: written_emit_all bus_ok_def)
  have "last_event_id (show_nat m) = int m" by (simp add: last_event_id_def parse_int_show_nat)
  moreover have "filter (\<lambda>e. int m < int (ev_id e)) (eb_buffer ?b1) = number_from (Suc m) missed"
    using missed_events [OF assms(1,3)] by (simp add: assms(2) Suc_le_eq)
  ultimately have "written client ?b2 = [Head 200, Chunk ('':ok'' @ nl @ nl)]
      @ map (\<lambda>e. Chunk (event_text e)) (number_from (Suc m) missed)"
    using none by (simp add: written_add_client)
  moreover have "written client (emit_all ?b2 later) = written client ?b2
      @ map (\<lambda>e. Chunk (event_text e)) (number_from (Suc m + length missed) later)"
    using ok(2) by (subst written_emit_all) (auto simp: bus_ok_def emit_all_fields assms(2))
  ultimately show ?thesis by (simp add: number_from_append)
qed

theorem reconnect_without_gap_witness:
  "written 7 (emit_all (add_client 7 (Some (show_nat 0)) (emit_all (bus_new 2) [(''a'', JNull)])) [(''b'', JNull)])
     = [Head 200, Chunk ('':ok'' @ nl @ nl)]
       @ map (\<lambda>e. Chunk (event_text e)) (number_from 1 [(''a'', JNull), (''b'', JNull)])"
  using reconnect_without_gap [OF bus_new_ok [of 2], of 0 "[(''a'', JNull)]" 7 "[(''b'', JNull)]"]
  by (simp add: bus_new_def written_def)

end
