(* ===== verification/Proxy_Manager.thy ===== *)
theory Proxy_Manager
  imports Prelude
begin

text \<open>
  The supervision of the proxy process, \<open>proxy-manager.js\<close>: the manager's fields, the processes the
  system runs for it (numbered by pid), the restart timers it has set, and the four events that
  move it (\<open>start\<close>, \<open>stop\<close>, the exit of a process, a timer).
\<close>

section \<open>State\<close>

record manager =
  pm_args :: "string list"
  pm_proc :: "nat option"
  pm_stopped :: bool
  pm_started_at :: "int option"
  pm_restart_delay :: int
  pm_timers :: "(int \<times> int option) list"
  pm_live :: "nat list"
  pm_signalled :: "nat list"
  pm_next_pid :: nat
  pm_restarts :: "int option list"

definition default_restart_delay :: int where
  "default_restart_delay = 1000"

text \<open>\<open>pm_timers\<close> holds the due time and the exit code of each pending restart.\<close>

definition manager_new :: "string list \<Rightarrow> int \<Rightarrow> manager" where
  "manager_new args delay =
     \<lparr>pm_args = args, pm_proc = None, pm_stopped = False, pm_started_at = None, pm_restart_delay = delay,
      pm_timers = [], pm_live = [], pm_signalled = [], pm_next_pid = 1, pm_restarts = []\<rparr>"

definition spawn :: "int \<Rightarrow> manager \<Rightarrow> manager" where
  "spawn now m = m\<lparr>
     pm_proc := Some (pm_next_pid m), pm_started_at := Some now,
     pm_live := pm_live m @ [pm_next_pid m], pm_next_pid := pm_next_pid m + 1\<rparr>"

definition pm_start :: "int \<Rightarrow> manager \<Rightarrow> manager" where
  "pm_start now m = spawn now (m\<lparr>pm_stopped := False\<rparr>)"

text \<open>The exit handler: whichever process exits, the field is cleared.\<close>

definition pm_exit :: "int \<Rightarrow> nat \<Rightarrow> int option \<Rightarrow> manager \<Rightarrow> manager" where
  "pm_exit now pid exit_code m =
     (let m1 = m\<lparr>pm_live := removeAll pid (pm_live m), pm_proc := None\<rparr> in
      if \<not> pm_stopped m1 then m1\<lparr>pm_timers := pm_timers m1 @ [(now + pm_restart_delay m1, exit_code)]\<rparr> else m1)"

definition pm_timer :: "int \<Rightarrow> manager \<Rightarrow> manager" where
  "pm_timer now m =
     (case pm_timers m of
        [] \<Rightarrow> m
      | (due, exit_code) # rest \<Rightarrow>
          (let m1 = m\<lparr>pm_timers := rest\<rparr> in
           if \<not> pm_stopped m1
           then (let m2 = spawn now m1 in m2\<lparr>pm_restarts := pm_restarts m2 @ [exit_code]\<rparr>)
           else m1))"

text \<open>\<open>kill('SIGTERM')\<close> only sends the signal; the exit of the process is a later event.\<close>

definition pm_stop :: "manager \<Rightarrow> manager" where
  "pm_stop m =
     (let m1 = m\<lparr>pm_stopped := True\<rparr> in
      case pm_proc m1 of
        None \<Rightarrow> m1
      | Some pid \<Rightarrow> m1\<lparr>pm_signalled := pm_signalled m1 @ [pid], pm_proc := None\<rparr>)"

definition pm_running :: "manager \<Rightarrow> bool" where
  "pm_running m \<longleftrightarrow> pm_proc m \<noteq> None"

definition pm_pid :: "manager \<Rightarrow> nat option" where
  "pm_pid m = pm_proc m"

record proxy_status =
  ps_running :: bool
  ps_pid :: "nat option"
  ps_uptime_ms :: int

definition get_status :: "int \<Rightarrow> manager \<Rightarrow> proxy_status" where
  "get_status now m =
     \<lparr>ps_running = pm_running m, ps_pid = pm_pid m,
      ps_uptime_ms = (case pm_started_at m of None \<Rightarrow> 0 | Some t \<Rightarrow> if t = 0 then 0 else now - t)\<rparr>"

section \<open>Supervised runs\<close>

text \<open>
  The steps of a manager that is started only when nothing it spawned is left (no process, no
  pending timer); a process may exit at any time, a timer fires when it is due.
\<close>

inductive pm_step :: "manager \<Rightarrow> manager \<Rightarrow> bool" where
  pm_step_start: "pm_live m = [] \<Longrightarrow> pm_timers m = [] \<Longrightarrow> pm_step m (pm_start now m)"
| pm_step_exit: "pid \<in> set (pm_live m) \<Longrightarrow> pm_step m (pm_exit now pid exit_code m)"
| pm_step_timer: "pm_timers m = (due, exit_code) # rest \<Longrightarrow> due \<le> now \<Longrightarrow> pm_step m (pm_timer now m)"
| pm_step_stop: "pm_step m (pm_stop m)"

inductive_cases pm_stepE: "pm_step m m'"

definition supervised :: "manager \<Rightarrow> bool" where
  "supervised m \<longleftrightarrow>
     length (pm_live m) + length (pm_timers m) \<le> 1
     \<and> (case pm_proc m of
          Some pid \<Rightarrow> pm_live m = [pid] \<and> \<not> pm_stopped m
        | None \<Rightarrow> pm_live m = [] \<or> pm_stopped m)"

lemma manager_new_supervised: "supervised (manager_new args delay)"
  by (simp add: supervised_def manager_new_def)

lemma pm_step_supervised:
  assumes "pm_step m m'" "supervised m"
  shows "supervised m'"
  using assms(1)
proof cases
  case (pm_step_start now)
  then show ?thesis by (simp add: supervised_def pm_start_def spawn_def)
next
  case (pm_step_exit pid now exit_code)
  with assms(2) have "pm_live m = [pid]" "pm_timers m = []"
    by (cases "pm_live m"; auto simp: supervised_def)+
  with pm_step_exit show ?thesis by (simp add: supervised_def pm_exit_def Let_def)
next
  case (pm_step_timer due exit_code rest now)
  with assms(2) have "pm_live m = []" "rest = []" by (auto simp: supervised_def)
  moreover from this assms(2) have "pm_proc m = None" by (auto simp: supervised_def split: option.splits)
  ultimately show ?thesis
    using pm_step_timer by (simp add: supervised_def pm_timer_def Let_def spawn_def)
next
  case pm_step_stop
  with assms(2) show ?thesis by (auto simp: supervised_def pm_stop_def Let_def split: option.splits)
qed

lemma pm_steps_supervised: "pm_step\<^sup>*\<^sup>* m m' \<Longrightarrow> supervised m \<Longrightarrow> supervised m'"
  by (induction rule: rtranclp_induct) (auto intro: pm_step_supervised)

section \<open>Properties\<close>

text \<open>
  C37: The proxy is supervised: along every run of a manager that is started only when nothing is left
  of it, at most one process is alive, the manager knows it unless it has been told to stop, and when
  that process exits by itself, with whatever code, the timer set then brings a new one up and
  \<open>onRestart\<close> is called with the code.
\<close>

theorem proxy_supervision:
  assumes "pm_step\<^sup>*\<^sup>* (manager_new args delay) m"
  shows "length (pm_live m) \<le> 1
    \<and> (\<forall>pid. pm_proc m = Some pid \<longrightarrow> pm_live m = [pid]
         \<and> (let down = pm_exit t0 pid exit_code m; up = pm_timer t1 down in
             pm_proc down = None \<and> pm_timers down = [(t0 + pm_restart_delay m, exit_code)]
             \<and> pm_proc up = Some (pm_next_pid m) \<and> pm_live up = [pm_next_pid m] \<and> pm_timers up = []
             \<and> pm_restarts up = pm_restarts m @ [exit_code]))"
proof -
  have s: "supervised m" by (rule pm_steps_supervised [OF assms manager_new_supervised])
  then have "length (pm_live m) \<le> 1" by (simp add: supervised_def)
  moreover have "pm_live m = [pid] \<and> \<not> pm_stopped m \<and> pm_timers m = []" if "pm_proc m = Some pid" for pid
    using s that by (auto simp: supervised_def)
  ultimately show ?thesis by (auto simp: pm_exit_def pm_timer_def spawn_def Let_def)
qed

text \<open>Events without \<open>start\<close>.\<close>

datatype pm_event = PmExit int nat "int option" | PmTimer int | PmStop

fun pm_event_step :: "manager \<Rightarrow> pm_event \<Rightarrow> manager" where
  "pm_event_step m (PmExit now pid exit_code) = pm_exit now pid exit_code m"
| "pm_event_step m (PmTimer now) = pm_timer now m"
| "pm_event_step m PmStop = pm_stop m"

text \<open>
  \<open>stop\<close> is final: until the next \<open>start\<close>, whatever exits or fires, the manager spawns nothing and
  restarts nothing, reports not running, and the process it had has been sent the signal.
\<close>

theorem stop_is_final:
  "let m' = foldl pm_event_step (pm_stop m) evs in
     pm_proc m' = None \<and> pm_stopped m' \<and> pm_next_pid m' = pm_next_pid m \<and> pm_restarts m' = pm_restarts m
     \<and> set (pm_live m') \<subseteq> set (pm_live m) \<and> (\<forall>pid. pm_proc m = Some pid \<longrightarrow> pid \<in> set (pm_signalled m'))"
proof -
  have "\<forall>k :: manager. pm_stopped k \<and> pm_proc k = None \<longrightarrow>
      (let m' = foldl pm_event_step k evs in
       pm_proc m' = None \<and> pm_stopped m' \<and> pm_next_pid m' = pm_next_pid k \<and> pm_restarts m' = pm_restarts k
       \<and> set (pm_live m') \<subseteq> set (pm_live k) \<and> pm_signalled m' = pm_signalled k)"
  proof (induction evs)
    case (Cons e evs)
    show ?case
    proof (intro allI impI)
      fix k :: manager assume k: "pm_stopped k \<and> pm_proc k = None"
      have step: "pm_stopped (pm_event_step k e) \<and> pm_proc (pm_event_step k e) = None
          \<and> pm_next_pid (pm_event_step k e) = pm_next_pid k \<and> pm_restarts (pm_event_step k e) = pm_restarts k
          \<and> set (pm_live (pm_event_step k e)) \<subseteq> set (pm_live k) \<and> pm_signalled (pm_event_step k e) = pm_signalled k"
        using k by (cases e) (auto simp: pm_exit_def pm_timer_def pm_stop_def Let_def split: list.splits)
      with Cons.IH [rule_format, of "pm_event_step k e"]
      show "let m' = foldl pm_event_step k (e # evs) in
       pm_proc m' = None \<and> pm_stopped m' \<and> pm_next_pid m' = pm_next_pid k \<and> pm_restarts m' = pm_restarts k
       \<and> set (pm_live m') \<subseteq> set (pm_live k) \<and> pm_signalled m' = pm_signalled k"
        by (auto simp: Let_def)
    qed
  qed (simp add: Let_def)
  from this [rule_format, of "pm_stop m"] show ?thesis
    by (auto simp: pm_stop_def Let_def split: option.splits)
qed

text \<open>
  A \<open>stop\<close> followed by a \<open>start\<close> before the old process is gone breaks the supervision: the exit of
  the old process clears the field that holds the new one and schedules a restart, after which two
  proxies are alive and the manager has lost the first.
\<close>

theorem stop_start_race:
  "let m = pm_timer 1002 (pm_exit 2 1 None (pm_start 1 (pm_stop (pm_start 0 (manager_new [] 1000))))) in
     pm_live m = [2, 3] \<and> pm_proc m = Some 3"
  by (simp add: pm_timer_def pm_exit_def pm_start_def pm_stop_def manager_new_def spawn_def Let_def)

theorem proxy_supervision_witness:
  "let m = pm_start 5 (manager_new [] 1000) in
     pm_live m = [1] \<and> pm_live (pm_timer 9 (pm_exit 7 1 (Some 2) m)) = [2]"
proof -
  have "pm_step (manager_new [] 1000) (pm_start 5 (manager_new [] 1000))"
    by (rule pm_step_start) (simp_all add: manager_new_def)
  then have "pm_step\<^sup>*\<^sup>* (manager_new [] 1000) (pm_start 5 (manager_new [] 1000))" by blast
  from proxy_supervision [OF this, of 7 "Some 2" 9] show ?thesis
    by (simp add: Let_def pm_start_def spawn_def manager_new_def)
qed

end
