(* ===== verification/Config.thy ===== *)
theory Config
  imports Json
begin

text \<open>
  Configuration loading, \<open>config.js\<close>, on JSON values: defaults, file and flags are merged, \<open>env:\<close>
  references are resolved, two keys are validated. An object is its entry list. The merge copies the
  top level only, so a section the file does not mention is the very object of \<open>DEFAULTS\<close> and a flag
  assigns into it: the state of \<open>DEFAULTS\<close> is threaded through.
\<close>

section \<open>Merging\<close>

type_synonym object = "(string \<times> json) list"

definition defaults :: object where
  "defaults =
     [(''proxy'', JObj [(''listen'', JStr ''0.0.0.0:8080'')]),
      (''transparent'', JObj
        [(''enabled'', JBool False), (''listen'', JStr ''0.0.0.0''),
         (''ports'', JArr [JObj [(''port'', JNum 443), (''tls'', JBool True)],
                          JObj [(''port'', JNum 80), (''tls'', JBool False)]])]),
      (''management'', JObj [(''listen'', JStr ''0.0.0.0:3000''), (''auth'', JObj [])]),
      (''rules'', JObj [(''source'', JStr ''db'')]),
      (''database'', JObj [(''path'', JStr ''data/ashp.db'')]),
      (''encryption'', JObj []),
      (''default_behavior'', JStr ''deny''),
      (''logging'', JObj [(''request_body'', JStr ''full''), (''response_body'', JStr ''full''),
                          (''retention_days'', JNum 30)]),
      (''webhooks'', JArr [])]"

text \<open>\<open>typeof null\<close> is \<open>'object'\<close> and spreads to nothing.\<close>

function deep_merge :: "object \<Rightarrow> object \<Rightarrow> object" where
  "deep_merge out [] = out"
| "deep_merge out ((k, v) # src) =
     deep_merge
       (obj_put out k
         (case v of
            JObj vs \<Rightarrow>
              (case obj_get out k of
                 Some (JObj ts) \<Rightarrow> JObj (deep_merge ts vs)
               | Some JNull \<Rightarrow> JObj (deep_merge [] vs)
               | _ \<Rightarrow> v)
          | _ \<Rightarrow> v))
       src"
  by pat_completeness auto

termination deep_merge
  by (relation "measure (\<lambda>(out, src). size_list (size_prod (\<lambda>_. 0) size) src)") auto

text \<open>\<open>Object.entries\<close> of the parsed file; null throws.\<close>

definition entries :: "json \<Rightarrow> object option" where
  "entries v =
     (case v of
        JNull \<Rightarrow> None
      | JBool _ \<Rightarrow> Some []
      | JNum _ \<Rightarrow> Some []
      | JStr s \<Rightarrow> Some (map (\<lambda>(i, c). (show_nat i, JStr [c])) (enumerate 0 s))
      | JArr vs \<Rightarrow> Some (map (\<lambda>(i, v). (show_nat i, v)) (enumerate 0 vs))
      | JObj kvs \<Rightarrow> Some kvs)"

section \<open>Flags\<close>

text \<open>The sections and keys of \<open>CLI_MAP\<close>; \<open>default-behavior\<close> is a key of the configuration itself.\<close>

definition cli_map :: "(string \<times> string option \<times> string) list" where
  "cli_map =
     [(''proxy-listen'', Some ''proxy'', ''listen''),
      (''management-listen'', Some ''management'', ''listen''),
      (''default-behavior'', None, ''default_behavior''),
      (''rules-source'', Some ''rules'', ''source''),
      (''rules-file'', Some ''rules'', ''file''),
      (''database-path'', Some ''database'', ''path'')]"

datatype config_error =
    CannotRead
  | BadJson
  | NotObject
  | EnvNotSet string
  | BadSource
  | BadDefaultBehavior

text \<open>
  \<open>c.section.key = value\<close>: assigning into null, undefined or a primitive throws. When the file has no
  such section the object is that of \<open>DEFAULTS\<close>, which changes with it.
\<close>

definition assign_flag ::
  "object \<Rightarrow> string option \<Rightarrow> string \<Rightarrow> string \<Rightarrow> object \<times> object \<Rightarrow> config_error + object \<times> object" where
  "assign_flag raw sec key value st =
     (case st of (dflts, cfg) \<Rightarrow>
        (case sec of
           None \<Rightarrow> Inr (dflts, obj_put cfg key (JStr value))
         | Some s \<Rightarrow>
             (case obj_get cfg s of
                Some (JObj kvs) \<Rightarrow>
                  (let section = JObj (obj_put kvs key (JStr value)) in
                   Inr (if obj_get raw s = None then obj_put dflts s section else dflts, obj_put cfg s section))
              | _ \<Rightarrow> Inl NotObject)))"

fun apply_flags ::
  "object \<Rightarrow> (string \<Rightarrow> string option) \<Rightarrow> (string \<times> string option \<times> string) list \<Rightarrow> object \<times> object
    \<Rightarrow> object \<times> (config_error + object)" where
  "apply_flags raw flags [] st = (fst st, Inr (snd st))"
| "apply_flags raw flags ((flag, sec, key) # rest) st =
     (case flags flag of
        None \<Rightarrow> apply_flags raw flags rest st
      | Some value \<Rightarrow>
          (case assign_flag raw sec key value st of
             Inl e \<Rightarrow> (fst st, Inl e)
           | Inr st' \<Rightarrow> apply_flags raw flags rest st'))"

section \<open>Environment references\<close>

definition env_prefix :: string where
  "env_prefix = ''env:''"

fun resolve_env :: "(string \<Rightarrow> string option) \<Rightarrow> json \<Rightarrow> config_error + json"
  and resolve_list :: "(string \<Rightarrow> string option) \<Rightarrow> json list \<Rightarrow> config_error + json list"
  and resolve_entries :: "(string \<Rightarrow> string option) \<Rightarrow> object \<Rightarrow> config_error + object" where
  "resolve_env env (JStr s) =
     (if take 4 s = env_prefix
      then (case env (drop 4 s) of None \<Rightarrow> Inl (EnvNotSet (drop 4 s)) | Some v \<Rightarrow> Inr (JStr v))
      else Inr (JStr s))"
| "resolve_env env (JArr vs) = (case resolve_list env vs of Inl e \<Rightarrow> Inl e | Inr ws \<Rightarrow> Inr (JArr ws))"
| "resolve_env env (JObj kvs) = (case resolve_entries env kvs of Inl e \<Rightarrow> Inl e | Inr ws \<Rightarrow> Inr (JObj ws))"
| "resolve_env env JNull = Inr JNull"
| "resolve_env env (JBool b) = Inr (JBool b)"
| "resolve_env env (JNum n) = Inr (JNum n)"
| "resolve_list env [] = Inr []"
| "resolve_list env (v # vs) =
     (case resolve_env env v of
        Inl e \<Rightarrow> Inl e
      | Inr w \<Rightarrow> (case resolve_list env vs of Inl e \<Rightarrow> Inl e | Inr ws \<Rightarrow> Inr (w # ws)))"
| "resolve_entries env [] = Inr []"
| "resolve_entries env (kv # kvs) =
     (case resolve_env env (snd kv) of
        Inl e \<Rightarrow> Inl e
      | Inr w \<Rightarrow> (case resolve_entries env kvs of Inl e \<Rightarrow> Inl e | Inr ws \<Rightarrow> Inr ((fst kv, w) # ws)))"

section \<open>Loading\<close>

definition field :: "object \<Rightarrow> string \<Rightarrow> string \<Rightarrow> json option" where
  "field cfg sec key = (case obj_get cfg sec of Some (JObj kvs) \<Rightarrow> obj_get kvs key | _ \<Rightarrow> None)"

definition validate :: "object \<Rightarrow> config_error + object" where
  "validate cfg =
     (if field cfg ''rules'' ''source'' \<notin> {Some (JStr ''db''), Some (JStr ''file'')} then Inl BadSource
      else if obj_get cfg ''default_behavior'' \<notin> {Some (JStr ''deny''), Some (JStr ''hold''), Some (JStr ''queue'')}
      then Inl BadDefaultBehavior
      else Inr cfg)"

text \<open>
  \<open>loadConfig\<close>: the file's text (\<open>None\<close> when it cannot be read), the environment, the flags; the state
  of \<open>DEFAULTS\<close> before and, when the flags have been applied, after.
\<close>

definition load_config ::
  "(string \<Rightarrow> string option) \<Rightarrow> (string \<Rightarrow> string option) \<Rightarrow> object \<Rightarrow> string option
    \<Rightarrow> object \<times> (config_error + object)" where
  "load_config env flags dflts text =
     (case text of
        None \<Rightarrow> (dflts, Inl CannotRead)
      | Some t \<Rightarrow>
          (case json_parse t of
             None \<Rightarrow> (dflts, Inl BadJson)
           | Some raw \<Rightarrow>
               (case entries raw of
                  None \<Rightarrow> (dflts, Inl NotObject)
                | Some kvs \<Rightarrow>
                    (case apply_flags kvs flags cli_map (dflts, deep_merge dflts kvs) of
                       (dflts', Inl e) \<Rightarrow> (dflts', Inl e)
                     | (dflts', Inr cfg) \<Rightarrow>
                         (dflts', case resolve_entries env cfg of Inl e \<Rightarrow> Inl e | Inr cfg' \<Rightarrow> validate cfg')))))"

section \<open>What the merge does\<close>

text \<open>The value of a key after the merge.\<close>

definition merge_value :: "json option \<Rightarrow> json \<Rightarrow> json" where
  "merge_value old v =
     (case v of
        JObj vs \<Rightarrow>
          (case old of
             Some (JObj ts) \<Rightarrow> JObj (deep_merge ts vs)
           | Some JNull \<Rightarrow> JObj (deep_merge [] vs)
           | _ \<Rightarrow> v)
      | _ \<Rightarrow> v)"

lemma deep_merge_Cons:
  "deep_merge out ((k, v) # src) = deep_merge (obj_put out k (merge_value (obj_get out k) v)) src"
  unfolding deep_merge.simps merge_value_def ..

lemma obj_get_put: "obj_get (obj_put kvs k v) j = (if j = k then Some v else obj_get kvs j)"
  by (simp add: obj_get_def map_of_obj_put)

lemma obj_get_merge:
  "distinct (map fst src) \<Longrightarrow> obj_get (deep_merge out src) k =
     (case obj_get src k of None \<Rightarrow> obj_get out k | Some v \<Rightarrow> Some (merge_value (obj_get out k) v))"
proof (induction src arbitrary: out)
  case Nil
  then show ?case by (simp add: obj_get_def)
next
  case (Cons kv src)
  obtain j v where kv: "kv = (j, v)" by (cases kv)
  have "obj_get src k = None" if "k = j"
    using Cons.prems that by (auto simp: kv obj_get_def map_of_eq_None_iff)
  with Cons.IH [of "obj_put out j (merge_value (obj_get out j) v)"] Cons.prems show ?case
    unfolding kv deep_merge_Cons by (auto simp: map_of_obj_put obj_get_def split: option.splits)
qed

section \<open>What the flags do\<close>

definition setting :: "object \<Rightarrow> string option \<Rightarrow> string \<Rightarrow> json option" where
  "setting cfg sec key = (case sec of None \<Rightarrow> obj_get cfg key | Some s \<Rightarrow> field cfg s key)"

fun independent :: "string \<times> string option \<times> string \<Rightarrow> string \<times> string option \<times> string \<Rightarrow> bool" where
  "independent (_, None, k) (_, None, k') = (k \<noteq> k')"
| "independent (_, Some s, k) (_, Some s', k') = (s \<noteq> s' \<or> k \<noteq> k')"
| "independent (_, None, k) (_, Some s, k') = (k \<noteq> s)"
| "independent (_, Some s, k') (_, None, k) = (k \<noteq> s)"

lemma assign_flag_result:
  assumes "assign_flag raw sec key value (d, c) = Inr (d', c')"
  shows "case sec of
      None \<Rightarrow> c' = obj_put c key (JStr value)
    | Some s \<Rightarrow> \<exists>kvs. obj_get c s = Some (JObj kvs) \<and> c' = obj_put c s (JObj (obj_put kvs key (JStr value)))"
proof (cases sec)
  case (Some s)
  show ?thesis
  proof (cases "obj_get c s")
    case (Some v)
    then show ?thesis using assms \<open>sec = Some s\<close>
      by (cases v) (simp_all add: assign_flag_def Let_def)
  qed (use assms Some in \<open>simp add: assign_flag_def\<close>)
qed (use assms in \<open>simp add: assign_flag_def\<close>)

lemma assign_flag_setting:
  assumes "assign_flag raw sec key value (d, c) = Inr (d', c')"
  shows "setting c' sec key = Some (JStr value)"
    and "independent (f, sec, key) (f', sec', key') \<Longrightarrow> setting c' sec' key' = setting c sec' key'"
  using assign_flag_result [OF assms]
  by (cases sec; cases sec'; auto simp: setting_def field_def obj_get_put)+

lemma independent_sym: "independent x y \<Longrightarrow> independent y x"
  by (cases "(x, y)" rule: independent.cases) auto

lemma apply_flags_setting:
  assumes "apply_flags raw flags m (d, c) = (d', Inr c')" "sorted_wrt independent m" "(flag, sec, key) \<in> set m"
  shows "setting c' sec key = (case flags flag of Some v \<Rightarrow> Some (JStr v) | None \<Rightarrow> setting c sec key)"
proof -
  have frame: "setting c' s k = setting c s k"
    if "apply_flags raw flags m (d, c) = (d', Inr c')" "\<forall>x \<in> set m. independent x (g, s, k)" for m d c g s k
    using that
  proof (induction m arbitrary: d c)
    case (Cons x m)
    obtain f1 s1 k1 where x: "x = (f1, s1, k1)" by (cases x)
    show ?case
    proof (cases "flags f1")
      case None
      with Cons show ?thesis by (simp add: x)
    next
      case (Some v)
      with Cons.prems(1) obtain d1 c1 where a: "assign_flag raw s1 k1 v (d, c) = Inr (d1, c1)"
        and r: "apply_flags raw flags m (d1, c1) = (d', Inr c')"
        by (auto simp: x split: sum.splits)
      from Cons.prems(2) have "independent (f1, s1, k1) (g, s, k)" by (simp add: x)
      from assign_flag_setting(2) [OF a this] Cons.IH [OF r] Cons.prems(2) show ?thesis by simp
    qed
  qed simp
  from assms show ?thesis
  proof (induction m arbitrary: d c)
    case (Cons x m)
    obtain f1 s1 k1 where x: "x = (f1, s1, k1)" by (cases x)
    show ?case
    proof (cases "(flag, sec, key) = x")
      case True
      then have ind: "\<forall>y \<in> set m. independent y (flag, sec, key)" using Cons.prems(2) independent_sym by auto
      show ?thesis
      proof (cases "flags flag")
        case None
        with Cons.prems(1) True have "apply_flags raw flags m (d, c) = (d', Inr c')" by (auto simp: x)
        from frame [OF this ind] None show ?thesis by simp
      next
        case (Some v)
        with Cons.prems(1) True obtain d1 c1 where a: "assign_flag raw sec key v (d, c) = Inr (d1, c1)"
          and r: "apply_flags raw flags m (d1, c1) = (d', Inr c')"
          by (auto simp: x split: sum.splits)
        from frame [OF r ind] assign_flag_setting(1) [OF a] Some show ?thesis by simp
      qed
    next
      case False
      then have mem: "(flag, sec, key) \<in> set m" and ind: "independent (f1, s1, k1) (flag, sec, key)"
        using Cons.prems by (auto simp: x)
      show ?thesis
      proof (cases "flags f1")
        case None
        with Cons mem show ?thesis by (simp add: x)
      next
        case (Some v)
        with Cons.prems(1) obtain d1 c1 where a: "assign_flag raw s1 k1 v (d, c) = Inr (d1, c1)"
          and r: "apply_flags raw flags m (d1, c1) = (d', Inr c')"
          by (auto simp: x split: sum.splits)
        from Cons.prems(2) have "sorted_wrt independent m" by simp
        from Cons.IH [OF r this mem] show ?thesis unfolding assign_flag_setting(2) [OF a ind] .
      qed
    qed
  qed simp
qed

lemma cli_map_independent: "sorted_wrt independent cli_map"
  by (simp add: cli_map_def)

section \<open>What the resolution does\<close>

lemma resolve_entries_get:
  "resolve_entries env kvs = Inr ws \<Longrightarrow>
     (case obj_get kvs k of None \<Rightarrow> obj_get ws k = None | Some v \<Rightarrow> \<exists>w. resolve_env env v = Inr w \<and> obj_get ws k = Some w)"
proof (induction kvs arbitrary: ws)
  case (Cons kv kvs)
  obtain j v where kv: "kv = (j, v)" by (cases kv)
  from Cons.prems obtain w ws' where w: "resolve_env env v = Inr w" "resolve_entries env kvs = Inr ws'" "ws = (j, w) # ws'"
    by (auto simp: kv split: sum.splits)
  from Cons.IH [OF w(2)] w show ?case by (auto simp: kv obj_get_def split: option.splits)
qed (simp add: obj_get_def)

lemma resolve_setting:
  assumes "resolve_entries env cfg = Inr cfg'"
  shows "case setting cfg sec key of
      None \<Rightarrow> setting cfg' sec key = None \<or> (\<exists>s x. sec = Some s \<and> obj_get cfg s = Some (JStr x))
    | Some v \<Rightarrow> \<exists>w. resolve_env env v = Inr w \<and> setting cfg' sec key = Some w"
proof (cases sec)
  case None
  with resolve_entries_get [OF assms, of key] show ?thesis by (auto simp: setting_def split: option.splits)
next
  case (Some s)
  show ?thesis
  proof (cases "obj_get cfg s")
    case None
    with resolve_entries_get [OF assms, of s] Some show ?thesis by (simp add: setting_def field_def)
  next
    case v: (Some v)
    with resolve_entries_get [OF assms, of s] obtain w where
      w: "resolve_env env v = Inr w" "obj_get cfg' s = Some w" by auto
    show ?thesis
    proof (cases v)
      case (JObj kvs)
      with w obtain ws where "resolve_entries env kvs = Inr ws" "w = JObj ws" by (auto split: sum.splits)
      with resolve_entries_get [of env kvs ws key] v w JObj Some show ?thesis
        by (auto simp: setting_def field_def split: option.splits)
    qed (use v w Some in \<open>auto simp: setting_def field_def split: sum.splits\<close>)
  qed
qed

text \<open>The text \<open>env:...\<close> nowhere in a value.\<close>

fun no_refs :: "json \<Rightarrow> bool" where
  "no_refs (JStr s) = (take 4 s \<noteq> env_prefix)"
| "no_refs (JArr vs) = list_all no_refs vs"
| "no_refs (JObj kvs) = list_all (\<lambda>kv. no_refs (snd kv)) kvs"
| "no_refs _ = True"

fun refs :: "json \<Rightarrow> string list" where
  "refs (JStr s) = (if take 4 s = env_prefix then [drop 4 s] else [])"
| "refs (JArr vs) = concat (map refs vs)"
| "refs (JObj kvs) = concat (map (\<lambda>kv. refs (snd kv)) kvs)"
| "refs _ = []"

lemma resolve_env_outcome:
  "case resolve_env env v of
      Inl e \<Rightarrow> \<exists>x \<in> set (refs v). env x = None \<and> e = EnvNotSet x
    | Inr w \<Rightarrow> (\<forall>x \<in> set (refs v). env x \<noteq> None) \<and> ((\<forall>x t. env x = Some t \<longrightarrow> take 4 t \<noteq> env_prefix) \<longrightarrow> no_refs w)"
  "case resolve_list env vs of
      Inl e \<Rightarrow> \<exists>x \<in> set (refs (JArr vs)). env x = None \<and> e = EnvNotSet x
    | Inr ws \<Rightarrow> (\<forall>x \<in> set (refs (JArr vs)). env x \<noteq> None) \<and> ((\<forall>x t. env x = Some t \<longrightarrow> take 4 t \<noteq> env_prefix) \<longrightarrow> no_refs (JArr ws))"
  "case resolve_entries env kvs of
      Inl e \<Rightarrow> \<exists>x \<in> set (refs (JObj kvs)). env x = None \<and> e = EnvNotSet x
    | Inr ws \<Rightarrow> (\<forall>x \<in> set (refs (JObj kvs)). env x \<noteq> None) \<and> ((\<forall>x t. env x = Some t \<longrightarrow> take 4 t \<noteq> env_prefix) \<longrightarrow> no_refs (JObj ws))"
  by (induction env v and env vs and env kvs rule: resolve_env_resolve_list_resolve_entries.induct)
    (auto split: sum.splits option.splits)

section \<open>Properties\<close>

lemma merged_setting:
  assumes "json_wf (JObj raw)"
    and "setting raw sec key = Some (JStr x)
      \<or> obj_get raw (case sec of None \<Rightarrow> key | Some s \<Rightarrow> s) = None \<and> setting dflts sec key = Some (JStr x)"
  shows "setting (deep_merge dflts raw) sec key = Some (JStr x)"
proof -
  have dist: "distinct (map fst raw)" using assms(1) by simp
  note got = obj_get_merge [OF dist, of dflts]
  from assms(2) consider "setting raw sec key = Some (JStr x)"
    | "obj_get raw (case sec of None \<Rightarrow> key | Some s \<Rightarrow> s) = None" "setting dflts sec key = Some (JStr x)" by auto
  then show ?thesis
  proof cases
    case 1
    show ?thesis
    proof (cases sec)
      case None
      with 1 got [of key] show ?thesis by (simp add: setting_def merge_value_def)
    next
      case (Some s)
      with 1 obtain kvs where raw: "obj_get raw s = Some (JObj kvs)" "obj_get kvs key = Some (JStr x)"
        by (auto simp: setting_def field_def split: option.splits json.splits)
      then have "(s, JObj kvs) \<in> set raw" by (simp add: obj_get_def map_of_SomeD)
      with assms(1) have "distinct (map fst kvs)" by (auto simp: list_all_iff)
      then have sub: "obj_get (deep_merge ts kvs) key = Some (JStr x)" for ts
        using obj_get_merge [of kvs ts key] raw(2) by (simp add: merge_value_def)
      show ?thesis
        using got [of s] raw sub by (auto simp: Some setting_def field_def merge_value_def split: option.splits json.splits)
    qed
  next
    case 2
    with got show ?thesis by (cases sec) (simp_all add: setting_def field_def)
  qed
qed


text \<open>
  A configuration that loads is valid: its rules come from \<open>db\<close> or \<open>file\<close>, its default behaviour is
  \<open>deny\<close>, \<open>hold\<close> or \<open>queue\<close>, and no \<open>env:\<close> reference is left in it (provided no variable's value is
  itself one); otherwise loading fails, in particular on every reference to a variable that is not set.
\<close>

theorem loaded_config_valid:
  assumes "load_config env flags dflts text = (dflts', Inr cfg)"
  shows "field cfg ''rules'' ''source'' \<in> {Some (JStr ''db''), Some (JStr ''file'')}
    \<and> obj_get cfg ''default_behavior'' \<in> {Some (JStr ''deny''), Some (JStr ''hold''), Some (JStr ''queue'')}
    \<and> ((\<forall>x t. env x = Some t \<longrightarrow> take 4 t \<noteq> env_prefix) \<longrightarrow> no_refs (JObj cfg))"
proof -
  from assms obtain c where res: "resolve_entries env c = Inr cfg" and val: "validate cfg = Inr cfg"
    by (auto simp: load_config_def validate_def split: option.splits prod.splits sum.splits if_splits)
  from val have "field cfg ''rules'' ''source'' \<in> {Some (JStr ''db''), Some (JStr ''file'')}"
    "obj_get cfg ''default_behavior'' \<in> {Some (JStr ''deny''), Some (JStr ''hold''), Some (JStr ''queue'')}"
    by (auto simp: validate_def split: if_splits)
  moreover have "(\<forall>x t. env x = Some t \<longrightarrow> take 4 t \<noteq> env_prefix) \<longrightarrow> no_refs (JObj cfg)"
    using resolve_env_outcome(3) [where env = env and kvs = c] by (simp add: res)
  ultimately show ?thesis by blast
qed

text \<open>
  Loading is not repeatable: a flag whose section the file leaves out is written into the defaults
  themselves, so a later load in the same process, without the flag, still sees its value (although the
  merge is documented not to mutate its inputs).
\<close>

theorem flag_leaks_into_defaults:
  "(case load_config (\<lambda>_. None) [''rules-source'' \<mapsto> ''file''] defaults (Some (stringify (JObj []))) of
      (dflts, _) \<Rightarrow> map_option (\<lambda>c. field c ''rules'' ''source'')
         (case snd (load_config (\<lambda>_. None) Map.empty dflts (Some (stringify (JObj [])))) of Inl _ \<Rightarrow> None | Inr c \<Rightarrow> Some c))
     = Some (Some (JStr ''file''))
   \<and> (case snd (load_config (\<lambda>_. None) Map.empty defaults (Some (stringify (JObj [])))) of
        Inl _ \<Rightarrow> False | Inr c \<Rightarrow> field c ''rules'' ''source'' = Some (JStr ''db''))"
proof -
  have parse: "json_parse (stringify (JObj [])) = Some (JObj [])" by (rule js.dec_enc) simp
  show ?thesis
    unfolding load_config_def option.case parse
    by (simp add: entries_def cli_map_def defaults_def assign_flag_def obj_get_def Let_def validate_def field_def
        env_prefix_def del: stringify.simps)
qed

definition sample_config :: object where
  "sample_config = [(''rules'', JObj [(''source'', JStr ''env:S'')])]"

lemma sample_config_loads:
  "\<exists>cfg. load_config [''S'' \<mapsto> ''file''] Map.empty defaults (Some (stringify (JObj sample_config))) = (defaults, Inr cfg)"
proof -
  have parse: "json_parse (stringify (JObj sample_config)) = Some (JObj sample_config)"
    by (rule js.dec_enc) (simp add: sample_config_def)
  show ?thesis
    unfolding load_config_def option.case parse
    by (simp add: entries_def cli_map_def defaults_def obj_get_def validate_def field_def env_prefix_def
        sample_config_def del: stringify.simps)
qed


theorem loaded_config_valid_witness:
  "\<exists>cfg. snd (load_config [''S'' \<mapsto> ''file''] Map.empty defaults (Some (stringify (JObj sample_config)))) = Inr cfg
     \<and> no_refs (JObj cfg)"
proof -
  from sample_config_loads obtain cfg where
    c: "load_config [''S'' \<mapsto> ''file''] Map.empty defaults (Some (stringify (JObj sample_config))) = (defaults, Inr cfg)" by blast
  from loaded_config_valid [OF c] c show ?thesis by (auto simp: env_prefix_def split: if_splits)
qed

end
