(* ===== verification/Crypto.thy ===== *)
theory Crypto
  imports Json "HOL-Library.Word"
begin

unbundle bit_operations_syntax

text \<open>
  The encrypted log records of \<open>crypto/index.js\<close>. A buffer is a list of bytes. HKDF and AES-256-GCM
  are those of \<open>node:crypto\<close>: the parameters \<open>hkdf\<close> (key, info, length), \<open>gcm_enc\<close> (key, nonce, plain
  text to cipher text and tag) and \<open>gcm_dec\<close> (\<open>None\<close> when \<open>final()\<close> throws). The nonce is the result of
  \<open>randomBytes(12)\<close>.
\<close>

type_synonym bytes = "8 word list"

section \<open>Buffers\<close>

text \<open>\<open>writeUInt32LE\<close>; it throws beyond 32 bits.\<close>

definition u32_le :: "nat \<Rightarrow> bytes" where
  "u32_le n = (let w = (of_nat n :: 32 word) in
     [ucast w, ucast (drop_bit 8 w), ucast (drop_bit 16 w), ucast (drop_bit 24 w)])"

definition read_u32_le :: "bytes \<Rightarrow> nat" where
  "read_u32_le bs = unat (bs ! 0) + 256 * unat (bs ! 1) + 65536 * unat (bs ! 2) + 16777216 * unat (bs ! 3)"

text \<open>\<open>buf.subarray(start, end)\<close>: a negative index counts from the end, both are clamped.\<close>

definition js_index :: "nat \<Rightarrow> int \<Rightarrow> nat" where
  "js_index len i = (if i < 0 then nat (int len + i) else min len (nat i))"

definition subarray :: "'a list \<Rightarrow> int \<Rightarrow> int \<Rightarrow> 'a list" where
  "subarray b start stop =
     (let s = js_index (length b) start; e = js_index (length b) stop in take (e - s) (drop s b))"

section \<open>Records\<close>

definition record_info :: "int \<Rightarrow> string" where
  "record_info offset = ''ashp-log-record:'' @ show_int offset"

text \<open>A missing master key makes \<open>hkdfSync\<close> throw.\<close>

definition derive_record_key ::
  "(bytes \<Rightarrow> string \<Rightarrow> nat \<Rightarrow> bytes) \<Rightarrow> bytes option \<Rightarrow> int \<Rightarrow> js_error + bytes" where
  "derive_record_key hkdf master offset =
     (case master of
        None \<Rightarrow> Inl TypeErr
      | Some k \<Rightarrow> Inr (hkdf k (record_info offset) 32))"

definition encrypt_record ::
  "(bytes \<Rightarrow> string \<Rightarrow> nat \<Rightarrow> bytes) \<Rightarrow> (bytes \<Rightarrow> bytes \<Rightarrow> bytes \<Rightarrow> bytes \<times> bytes) \<Rightarrow> bytes
    \<Rightarrow> bytes option \<Rightarrow> int \<Rightarrow> bytes \<Rightarrow> js_error + bytes" where
  "encrypt_record hkdf gcm_enc nonce master offset payload =
     (case derive_record_key hkdf master offset of
        Inl e \<Rightarrow> Inl e
      | Inr key \<Rightarrow>
          (case gcm_enc key nonce payload of
             (encrypted, tag) \<Rightarrow>
               (let total_len = 4 + 12 + length encrypted + 16 + 4 in
                if 2 ^ 32 \<le> total_len then Inl TypeErr
                else Inr (u32_le total_len @ nonce @ encrypted @ tag @ u32_le total_len))))"

definition decrypt_record ::
  "(bytes \<Rightarrow> string \<Rightarrow> nat \<Rightarrow> bytes) \<Rightarrow> (bytes \<Rightarrow> bytes \<Rightarrow> bytes \<Rightarrow> bytes \<Rightarrow> bytes option)
    \<Rightarrow> bytes option \<Rightarrow> int \<Rightarrow> bytes \<Rightarrow> js_error + bytes" where
  "decrypt_record hkdf gcm_dec master offset rec =
     (case derive_record_key hkdf master offset of
        Inl e \<Rightarrow> Inl e
      | Inr key \<Rightarrow>
          (let len = int (length rec);
               nonce = subarray rec 4 16;
               ciphertext = subarray rec 16 (len - 16 - 4);
               tag = subarray rec (len - 16 - 4) (len - 4)
           in (case gcm_dec key nonce ciphertext tag of None \<Rightarrow> Inl TypeErr | Some p \<Rightarrow> Inr p)))"

section \<open>Layout\<close>

lemma length_u32_le [simp]: "length (u32_le n) = 4"
  by (simp add: u32_le_def Let_def)

lemma read_write_u32: "n < 2 ^ 32 \<Longrightarrow> read_u32_le (u32_le n) = n"
proof -
  assume n: "n < 2 ^ 32"
  have w: "unat (of_nat n :: 32 word) = n" using n by (simp add: unat_of_nat take_bit_nat_eq_self)
  have b: "unat (ucast (drop_bit k (of_nat n :: 32 word)) :: 8 word) = n div 2 ^ k mod 256" for k
  proof -
    have "unat (drop_bit k (of_nat n :: 32 word)) = n div 2 ^ k"
      using w by (simp only: unsigned_drop_bit_eq) (simp add: drop_bit_eq_div unsigned_of_nat)
    then show ?thesis by (simp add: unsigned_ucast_eq take_bit_eq_mod)
  qed
  have b0: "unat (ucast (of_nat n :: 32 word) :: 8 word) = n mod 256" using b [of 0] by simp
  have d: "n div 65536 = n div 256 div 256" "n div 16777216 = n div 256 div 256 div 256"
    by (simp_all add: div_mult2_eq [symmetric])
  have top: "n div 16777216 mod 256 = n div 16777216"
    using n by simp
  have "n mod 256 + 256 * (n div 256 mod 256) + 65536 * (n div 65536 mod 256) + 16777216 * (n div 16777216) = n"
    unfolding d
    using div_mult_mod_eq [of n 256] div_mult_mod_eq [of "n div 256" 256] div_mult_mod_eq [of "n div 256 div 256" 256]
    by linarith
  then show ?thesis using top by (simp add: read_u32_le_def u32_le_def Let_def b b0)
qed

lemma subarray_parts:
  assumes "length pre = 4" "length nonce = 12" "length tag = 16" "length post = 4"
  shows "subarray (pre @ nonce @ ct @ tag @ post) 4 16 = nonce"
    and "subarray (pre @ nonce @ ct @ tag @ post) 16 (int (length (pre @ nonce @ ct @ tag @ post)) - 16 - 4) = ct"
    and "subarray (pre @ nonce @ ct @ tag @ post) (int (length (pre @ nonce @ ct @ tag @ post)) - 16 - 4)
      (int (length (pre @ nonce @ ct @ tag @ post)) - 4) = tag"
  using assms by (simp_all add: subarray_def js_index_def Let_def nat_add_distrib)

lemma encrypt_record_shape:
  assumes "gcm_enc (hkdf master (record_info offset) 32) nonce payload = (c, t)" "length c = length payload"
  shows "encrypt_record hkdf gcm_enc nonce (Some master) offset payload =
      (let n = length payload + 36 in
       if 2 ^ 32 \<le> n then Inl TypeErr else Inr (u32_le n @ nonce @ c @ t @ u32_le n))"
  by (simp add: encrypt_record_def derive_record_key_def assms Let_def add.commute)

lemma decrypt_encrypted:
  assumes gcm: "\<And>k n p c t. gcm_enc k n p = (c, t) \<Longrightarrow> length c = length p \<and> length t = 16 \<and> gcm_dec k n c t = Some p"
    and nonce: "length nonce = 12"
    and rec: "encrypt_record hkdf gcm_enc nonce (Some master) offset payload = Inr rec"
  shows "decrypt_record hkdf gcm_dec (Some master) offset rec = Inr payload"
    and "length rec = length payload + 36"
    and "read_u32_le (take 4 rec) = length rec" and "read_u32_le (drop (length rec - 4) rec) = length rec"
proof -
  let ?key = "hkdf master (record_info offset) 32"
  let ?n = "length payload + 36"
  obtain c t where enc: "gcm_enc ?key nonce payload = (c, t)" by (cases "gcm_enc ?key nonce payload")
  from gcm [OF enc]
  have lc: "length c = length payload" and lt: "length t = 16" and dec: "gcm_dec ?key nonce c t = Some payload" by auto
  have small: "?n < 2 ^ 32" and r: "rec = u32_le ?n @ nonce @ c @ t @ u32_le ?n"
    using rec unfolding encrypt_record_shape [where gcm_enc = gcm_enc and hkdf = hkdf and master = master and offset = offset, OF enc lc] Let_def by (auto split: if_splits)
  show l: "length rec = ?n" using lc lt nonce r by simp
  show "decrypt_record hkdf gcm_dec (Some master) offset rec = Inr payload"
    using subarray_parts [of "u32_le ?n" nonce t "u32_le ?n" c] nonce lt dec
    by (simp add: decrypt_record_def derive_record_key_def Let_def r)
  have "take 4 rec = u32_le ?n" by (simp add: r)
  moreover have "drop (length rec - 4) rec = u32_le ?n" using lc lt nonce unfolding l by (simp add: r)
  moreover have "read_u32_le (u32_le ?n) = ?n" using small by (rule read_write_u32)
  ultimately show "read_u32_le (take 4 rec) = length rec" and "read_u32_le (drop (length rec - 4) rec) = length rec"
    using l by simp_all
qed

section \<open>Properties\<close>

text \<open>
  C33: What is encrypted at an offset is decrypted at it: with GCM as documented (the cipher text as long
  as the plain text, a 16-byte tag, decryption inverting encryption) every record of at most 4 GiB gives
  back its payload, is 36 bytes longer, and starts and ends with its own length in little-endian order;
  a longer payload is refused.
\<close>

theorem record_roundtrip:
  assumes "\<And>k n p c t. gcm_enc k n p = (c, t) \<Longrightarrow> length c = length p \<and> length t = 16 \<and> gcm_dec k n c t = Some p"
    and "length nonce = 12"
  shows "case encrypt_record hkdf gcm_enc nonce (Some master) offset payload of
      Inl e \<Rightarrow> 2 ^ 32 \<le> length payload + 36
    | Inr rec \<Rightarrow> decrypt_record hkdf gcm_dec (Some master) offset rec = Inr payload
        \<and> length rec = length payload + 36
        \<and> read_u32_le (take 4 rec) = length rec \<and> read_u32_le (drop (length rec - 4) rec) = length rec"
proof (cases "encrypt_record hkdf gcm_enc nonce (Some master) offset payload")
  case (Inr rec)
  show ?thesis
    unfolding Inr sum.case
    by (intro conjI decrypt_encrypted [where gcm_enc = gcm_enc and nonce = nonce, OF assms(1) assms(2) Inr])
next
  case (Inl err)
  obtain c t where enc: "gcm_enc (hkdf master (record_info offset) 32) nonce payload = (c, t)"
    by (cases "gcm_enc (hkdf master (record_info offset) 32) nonce payload")
  then have "length c = length payload" using assms(1) by blast
  with Inl show ?thesis by (simp add: encrypt_record_shape [where gcm_enc = gcm_enc and hkdf = hkdf and master = master and offset = offset, OF enc] Let_def split: if_splits)
qed

text \<open>
  Decryption is authenticated: when a record decrypts to something at an offset, its nonce, cipher text
  and tag are those the encryption of that very payload under the key of that offset produces. So a record
  changed in any of them, moved to another offset or read with another key decrypts only if GCM itself
  produces it there. The two length fields are not covered: records that differ in them only decrypt alike.
\<close>

theorem decrypt_authentic:
  assumes "\<And>k n c t p. gcm_dec k n c t = Some p \<longleftrightarrow> gcm_enc k n p = (c, t)"
    and "length pre = 4" "length nonce = 12" "length tag = 16" "length post = 4"
  shows "decrypt_record hkdf gcm_dec (Some master) offset (pre @ nonce @ ct @ tag @ post) = Inr p \<longleftrightarrow>
      gcm_enc (hkdf master (record_info offset) 32) nonce p = (ct, tag)"
proof -
  let ?d = "gcm_dec (hkdf master (record_info offset) 32) nonce ct tag"
  have "decrypt_record hkdf gcm_dec (Some master) offset (pre @ nonce @ ct @ tag @ post) =
      (case ?d of None \<Rightarrow> Inl TypeErr | Some p \<Rightarrow> Inr p)"
    unfolding decrypt_record_def derive_record_key_def option.case sum.case Let_def
      subarray_parts [OF assms(2-5)] ..
  moreover have "?d = Some p \<longleftrightarrow> gcm_enc (hkdf master (record_info offset) 32) nonce p = (ct, tag)"
    by (rule assms(1))
  ultimately show ?thesis by (cases ?d) auto
qed

text \<open>
  A cipher for the witnesses: the key stream is the key repeated, the tag is 16 copies of the first byte
  of the key.
\<close>

definition toy_enc :: "bytes \<Rightarrow> bytes \<Rightarrow> bytes \<Rightarrow> bytes \<times> bytes" where
  "toy_enc k n p = (map (\<lambda>b. b XOR hd (k @ [0])) p, replicate 16 (hd (k @ [0])))"

definition toy_dec :: "bytes \<Rightarrow> bytes \<Rightarrow> bytes \<Rightarrow> bytes \<Rightarrow> bytes option" where
  "toy_dec k n c t =
     (if t = replicate 16 (hd (k @ [0])) then Some (map (\<lambda>b. b XOR hd (k @ [0])) c) else None)"

definition toy_hkdf :: "bytes \<Rightarrow> string \<Rightarrow> nat \<Rightarrow> bytes" where
  "toy_hkdf k info n = take n (k @ map (\<lambda>c. word_of_nat (of_char c)) info)"

lemma xor_twice: "map (\<lambda>b. b XOR x) (map (\<lambda>b. b XOR x) p) = (p :: bytes)"
  by (simp add: comp_def xor.assoc)

lemma toy_inverse: "toy_dec k n c t = Some p \<longleftrightarrow> toy_enc k n p = (c, t)"
  unfolding toy_dec_def toy_enc_def using xor_twice by (auto simp del: replicate.simps)

theorem record_roundtrip_witness:
  "decrypt_record toy_hkdf toy_dec (Some [7]) 0
     (case encrypt_record toy_hkdf toy_enc (replicate 12 0) (Some [7]) 0 [1, 2, 3] of Inl _ \<Rightarrow> [] | Inr r \<Rightarrow> r)
   = Inr [1, 2, 3]"
proof -
  have gcm: "length c = length p \<and> length t = 16 \<and> toy_dec k n c t = Some p" if "toy_enc k n p = (c, t)" for k n p c t
    using that toy_inverse [of k n c t p] by (auto simp: toy_enc_def simp del: replicate.simps)
  have "length (replicate 12 (0 :: 8 word)) = 12" by simp
  from record_roundtrip [where gcm_enc = toy_enc and gcm_dec = toy_dec and hkdf = toy_hkdf and master = "[7]"
      and offset = 0 and payload = "[1, 2, 3]", OF gcm this] show ?thesis
    by (auto split: sum.splits)
qed

theorem decrypt_authentic_witness:
  "decrypt_record toy_hkdf toy_dec (Some [7]) 0
     ([0, 0, 0, 0] @ replicate 12 0 @ [6] @ replicate 16 7 @ [9, 9, 9, 9]) = Inr [1]"
proof -
  have "toy_enc (toy_hkdf [7] (record_info 0) 32) (replicate 12 0) [1] = ([6], replicate 16 7)"
    by (simp add: toy_enc_def toy_hkdf_def)
  then show ?thesis
    using decrypt_authentic [where gcm_dec = toy_dec and gcm_enc = toy_enc and hkdf = toy_hkdf and master = "[7]"
        and offset = 0 and pre = "[0, 0, 0, 0]" and nonce = "replicate 12 0" and tag = "replicate 16 7"
        and post = "[9, 9, 9, 9]" and ct = "[6]" and p = "[1]", OF toy_inverse]
    by simp
qed

end
