(* ===== verification/Webhooks.thy ===== *)
theory Webhooks
  imports Json
begin

text \<open>
  The notifications of \<open>webhooks/dispatcher.js\<close>. What the network does is a parameter: \<open>net w k\<close> is
  the outcome of the k-th request to a webhook and the milliseconds after which it would come;
  \<open>hmac secret body\<close> is the hexadecimal HMAC-SHA256 of \<open>node:crypto\<close>, \<open>to_iso\<close> is \<open>toISOString\<close>. Time is
  in milliseconds, and a delivery is the list of the requests it makes with their starting times.
\<close>

section \<open>Configuration\<close>

text \<open>An undefined \<open>events\<close> or \<open>secret\<close> is \<open>None\<close>: the configuration is not checked for them.\<close>

record webhook =
  wh_url :: string
  wh_secret :: "string option"
  wh_events :: "string list option"
  wh_timeout_ms :: "int option"
  wh_retries :: "int option"

datatype outcome = Response nat | NetError

text \<open>\<open>res.ok\<close>.\<close>

fun delivered :: "outcome \<Rightarrow> bool" where
  "delivered (Response status) \<longleftrightarrow> 200 \<le> status \<and> status \<le> 299"
| "delivered NetError \<longleftrightarrow> False"

text \<open>\<open>setTimeout(f, ms)\<close>: a delay below 1 or beyond 31 bits is 1 ms.\<close>

definition timer_ms :: "int \<Rightarrow> int" where
  "timer_ms ms = (if ms < 1 \<or> 2147483647 < ms then 1 else ms)"

definition wh_timeout :: "webhook \<Rightarrow> int" where
  "wh_timeout w = timer_ms (case wh_timeout_ms w of None \<Rightarrow> 5000 | Some t \<Rightarrow> if t = 0 then 5000 else t)"

definition max_retries :: "webhook \<Rightarrow> int" where
  "max_retries w = (case wh_retries w of None \<Rightarrow> 3 | Some n \<Rightarrow> n)"

definition backoff :: "nat \<Rightarrow> int" where
  "backoff attempt = timer_ms (100 * 2 ^ attempt)"

section \<open>Delivery\<close>

record sent =
  se_at :: int
  se_url :: string
  se_body :: string
  se_signature :: string

text \<open>\<open>fetch\<close> with its abort timer: when the timer is first the request fails at its time.\<close>

definition fetch :: "webhook \<Rightarrow> outcome \<times> int \<Rightarrow> outcome \<times> int" where
  "fetch w r = (if wh_timeout w \<le> snd r then (NetError, wh_timeout w) else r)"

definition webhook_body :: "(int \<Rightarrow> string) \<Rightarrow> string \<Rightarrow> json \<Rightarrow> int \<Rightarrow> string" where
  "webhook_body to_iso event_type data now =
     stringify (JObj [(''event'', JStr event_type), (''data'', data), (''timestamp'', JStr (to_iso now))])"

function deliver ::
  "(string \<Rightarrow> string \<Rightarrow> string) \<Rightarrow> (int \<Rightarrow> string) \<Rightarrow> (webhook \<Rightarrow> nat \<Rightarrow> outcome \<times> int) \<Rightarrow> webhook \<Rightarrow> string
    \<Rightarrow> string \<Rightarrow> json \<Rightarrow> int \<Rightarrow> nat \<Rightarrow> sent list" where
  "deliver hmac to_iso net w secret event_type data now attempt =
     (let body = webhook_body to_iso event_type data now;
          req = \<lparr>se_at = now, se_url = wh_url w, se_body = body, se_signature = hmac secret body\<rparr>;
          res = fetch w (net w attempt)
      in if \<not> delivered (fst res) \<and> int attempt < max_retries w
         then req # deliver hmac to_iso net w secret event_type data (now + snd res + backoff attempt) (attempt + 1)
         else [req])"
  by pat_completeness auto

termination deliver
  by (relation "measure (\<lambda>(hmac, to_iso, net, w, secret, ev, data, now, attempt). nat (max_retries w - int attempt))")
    auto

declare deliver.simps [simp del]

text \<open>
  \<open>dispatch\<close>: \<open>events.includes\<close> of an undefined \<open>events\<close> throws, before any delivery; a webhook without
  secret rejects in \<open>createHmac\<close>, which \<open>allSettled\<close> ignores.
\<close>

definition dispatch ::
  "(string \<Rightarrow> string \<Rightarrow> string) \<Rightarrow> (int \<Rightarrow> string) \<Rightarrow> (webhook \<Rightarrow> nat \<Rightarrow> outcome \<times> int) \<Rightarrow> int \<Rightarrow> string \<Rightarrow> json
    \<Rightarrow> webhook list \<Rightarrow> js_error + (webhook \<times> sent list) list" where
  "dispatch hmac to_iso net now event_type data webhooks =
     (if \<exists>w \<in> set webhooks. wh_events w = None then Inl TypeErr
      else Inr (map (\<lambda>w. (w, case wh_secret w of
                                None \<Rightarrow> []
                              | Some s \<Rightarrow> deliver hmac to_iso net w s event_type data now 0))
                    (filter (\<lambda>w. event_type \<in> set (the (wh_events w))) webhooks)))"

section \<open>Schedules\<close>

definition wait_after :: "(webhook \<Rightarrow> nat \<Rightarrow> outcome \<times> int) \<Rightarrow> webhook \<Rightarrow> nat \<Rightarrow> int" where
  "wait_after net w k = snd (fetch w (net w k)) + backoff k"

lemma deliver_nonempty: "deliver hmac to_iso net w secret ev data now a \<noteq> []"
  by (subst deliver.simps) (simp add: Let_def)

lemma deliver_requests:
  "\<forall>r \<in> set (deliver hmac to_iso net w secret ev data now a).
     se_url r = wh_url w \<and> se_signature r = hmac secret (se_body r) \<and> se_body r = webhook_body to_iso ev data (se_at r)"
proof (induction hmac to_iso net w secret ev data now a rule: deliver.induct)
  case (1 hmac to_iso net w secret ev data now a)
  then show ?case by (subst deliver.simps) (simp add: Let_def)
qed

lemma deliver_length:
  "int (length (deliver hmac to_iso net w secret ev data now a)) \<le> max 0 (max_retries w - int a) + 1"
proof (induction hmac to_iso net w secret ev data now a rule: deliver.induct)
  case (1 hmac to_iso net w secret ev data now a)
  then show ?case by (subst deliver.simps) (auto simp: Let_def)
qed

lemma deliver_schedule:
  assumes "k < length (deliver hmac to_iso net w secret ev data now a)"
  shows "se_at (deliver hmac to_iso net w secret ev data now a ! k) = now + (\<Sum>i\<leftarrow>[a..<a + k]. wait_after net w i)
    \<and> (Suc k < length (deliver hmac to_iso net w secret ev data now a)
       \<longleftrightarrow> \<not> delivered (fst (fetch w (net w (a + k)))) \<and> int (a + k) < max_retries w)"
  using assms
proof (induction k arbitrary: now a)
  case 0
  show ?case
    by (subst (1 2) deliver.simps) (auto simp: Let_def deliver_nonempty)
next
  case (Suc k)
  let ?c = "\<not> delivered (fst (fetch w (net w a))) \<and> int a < max_retries w"
  have c: ?c using Suc.prems by (subst (asm) deliver.simps) (auto simp: Let_def split: if_splits)
  let ?next = "deliver hmac to_iso net w secret ev data (now + wait_after net w a) (Suc a)"
  have "\<exists>req. deliver hmac to_iso net w secret ev data now a = req # ?next"
    unfolding deliver.simps [of hmac to_iso net w secret ev data now a] using c
    by (auto simp: Let_def wait_after_def add.assoc)
  then obtain req where d: "deliver hmac to_iso net w secret ev data now a = req # ?next" by blast
  have "k < length ?next" using Suc.prems by (simp add: d)
  from Suc.IH [OF this] show ?case by (simp add: d upt_conv_Cons del: upt_Suc)
qed

lemma backoff_value: "backoff k = (if k < 25 then 100 * 2 ^ k else 1)"
proof (cases "k < 25")
  case True
  then have "(2 :: int) ^ k \<le> 2 ^ 24" by (intro power_increasing) auto
  moreover have "(1 :: int) \<le> 2 ^ k" by simp
  ultimately have "\<not> 100 * (2 :: int) ^ k < 1" "\<not> 2147483647 < 100 * (2 :: int) ^ k" by (auto simp del: one_le_power)
  then show ?thesis using True by (simp add: backoff_def timer_ms_def)
next
  case False
  then have "(2 :: int) ^ 25 \<le> 2 ^ k" by (intro power_increasing) auto
  then show ?thesis using False by (simp add: backoff_def timer_ms_def)
qed

lemma deliver_gap:
  assumes "Suc k < length (deliver hmac to_iso net w secret ev data now 0)"
  shows "se_at (deliver hmac to_iso net w secret ev data now 0 ! Suc k)
    = se_at (deliver hmac to_iso net w secret ev data now 0 ! k) + snd (fetch w (net w k)) + backoff k"
  using deliver_schedule [of k hmac to_iso net w secret ev data now 0]
    deliver_schedule [of "Suc k" hmac to_iso net w secret ev data now 0] assms
  by (simp add: wait_after_def)

text \<open>
  C39: Every subscriber is notified, on its own: unless a configured webhook lacks its list of events (then
  dispatch throws and nothing is sent), exactly the webhooks subscribed to the event are tried, in order,
  whatever happens to the others. A webhook without secret is sent nothing. Any other is tried until it
  answers: each request goes to its URL, signed with the HMAC of its own body; there are at least one and
  at most retries + 1 of them (3 retries unless configured); another one follows exactly when the one
  before was neither answered with a 2xx status within the timeout nor the last allowed, and it starts
  when that one ended plus a pause of 100 ms doubled at each attempt, which from the 26th attempt on no
  longer fits the timer of the language and becomes 1 ms.
\<close>

theorem webhook_delivery:
  "case dispatch hmac to_iso net now ev data webhooks of
     Inl e \<Rightarrow> e = TypeErr \<and> \<not> list_all (\<lambda>w. wh_events w \<noteq> None) webhooks
   | Inr ds \<Rightarrow>
       list_all (\<lambda>w. wh_events w \<noteq> None) webhooks
       \<and> map fst ds = filter (\<lambda>w. ev \<in> set (the (wh_events w))) webhooks
       \<and> list_all (\<lambda>(w, reqs).
           case wh_secret w of
             None \<Rightarrow> reqs = []
           | Some secret \<Rightarrow>
               list_all (\<lambda>r. se_url r = wh_url w \<and> se_signature r = hmac secret (se_body r)) reqs
               \<and> 1 \<le> length reqs \<and> int (length reqs) \<le> max 0 (max_retries w) + 1 \<and> se_at (hd reqs) = now
               \<and> list_all (\<lambda>k.
                   if Suc k < length reqs
                   then \<not> delivered (fst (fetch w (net w k))) \<and> int k < max_retries w
                     \<and> se_at (reqs ! Suc k)
                         = se_at (reqs ! k) + snd (fetch w (net w k)) + (if k < 25 then 100 * 2 ^ k else 1)
                   else delivered (fst (fetch w (net w k))) \<or> max_retries w \<le> int k)
                 [0..<length reqs]) ds"
proof (cases "\<exists>w \<in> set webhooks. wh_events w = None")
  case True
  then show ?thesis by (auto simp: dispatch_def list_all_iff)
next
  case False
  let ?d = "\<lambda>w s. deliver hmac to_iso net w s ev data now 0"
  have one: "list_all (\<lambda>r. se_url r = wh_url w \<and> se_signature r = hmac s (se_body r)) (?d w s)
      \<and> 1 \<le> length (?d w s) \<and> int (length (?d w s)) \<le> max 0 (max_retries w) + 1 \<and> se_at (hd (?d w s)) = now
      \<and> list_all (\<lambda>k.
          if Suc k < length (?d w s)
          then \<not> delivered (fst (fetch w (net w k))) \<and> int k < max_retries w
            \<and> se_at (?d w s ! Suc k)
                = se_at (?d w s ! k) + snd (fetch w (net w k)) + (if k < 25 then 100 * 2 ^ k else 1)
          else delivered (fst (fetch w (net w k))) \<or> max_retries w \<le> int k) [0..<length (?d w s)]" for w s
    using deliver_requests [of hmac to_iso net w s ev data now 0] deliver_nonempty [of hmac to_iso net w s ev data now 0]
      deliver_length [of hmac to_iso net w s ev data now 0] deliver_schedule [of _ hmac to_iso net w s ev data now 0]
      deliver_gap [of _ hmac to_iso net w s ev data now]
    by (auto simp: list_all_iff backoff_value Suc_le_eq hd_conv_nth)
  from False show ?thesis
    unfolding dispatch_def if_not_P [OF False] sum.case
    using one by (auto simp: list_all_iff list.pred_map comp_def split: option.splits)
qed

end
