(* ===== verification/Server.thy ===== *)
theory Server
  imports Approval_Dao Agents_Dao Events Proxy_Manager Config Crypto Webhooks
begin

text \<open>
  The server process of \<open>index.js\<close>: its state, what it tells the proxy (rules, agents, addresses), the
  handlers of the IPC socket, of the proxy's restart, of SIGHUP and of the expiry timer, and the start.
  A handler is one step (its awaits only wait for synchronous database calls or for bcrypt). \<open>None\<close>
  stands for a process that does not go on: a query that does not return, or an exception or rejection
  nobody handles.
\<close>

section \<open>State and environment\<close>

record server =
  sv_db :: db
  sv_file :: "base_rule list option"
  sv_config :: object
  sv_defaults :: object
  sv_auth :: object
  sv_hold_timeout :: int
  sv_log_key :: "bytes option"
  sv_webhooks :: "webhook list"
  sv_ipc :: ipc
  sv_events :: event_bus
  sv_proxy :: manager
  sv_started_at :: int
  sv_notified :: "(webhook \<times> sent list) list"

text \<open>
  \<open>sv_file\<close> is \<open>None\<close> when the rules live in the database; \<open>sv_notified\<close> is the history of the webhook
  deliveries. What a step reads from outside: the clocks, the environment variables and flags, the files
  (\<open>None\<close> when unreadable), the regular expressions, the cryptographic functions, the network, fresh
  tokens and UUIDs.
\<close>

record env =
  e_clock :: sql_clock
  e_now :: int
  e_to_iso :: "int \<Rightarrow> string"
  e_environ :: "string \<Rightarrow> string option"
  e_flags :: "string \<Rightarrow> string option"
  e_config_text :: "string option"
  e_rules_file :: "js_error + file_entry list option"
  e_read_file :: "string \<Rightarrow> bytes option"
  e_read_at :: "string \<Rightarrow> nat \<Rightarrow> int \<Rightarrow> bytes option"
  e_from_hex :: "string \<Rightarrow> bytes"
  e_data_dir :: "string \<Rightarrow> string"
  e_rx :: regex
  e_uuid :: "nat \<Rightarrow> string"
  e_token :: string
  e_hash :: "string \<Rightarrow> string"
  e_compare :: "string \<Rightarrow> string \<Rightarrow> bool"
  e_hkdf :: "bytes \<Rightarrow> string \<Rightarrow> nat \<Rightarrow> bytes"
  e_gcm_dec :: "bytes \<Rightarrow> bytes \<Rightarrow> bytes \<Rightarrow> bytes \<Rightarrow> bytes option"
  e_hmac :: "string \<Rightarrow> string \<Rightarrow> string"
  e_net :: "webhook \<Rightarrow> nat \<Rightarrow> outcome \<times> int"
  e_message :: "js_error \<Rightarrow> string"

definition send_msg :: "env \<Rightarrow> message \<Rightarrow> server \<Rightarrow> server" where
  "send_msg e m sv = sv\<lparr>sv_ipc := ipc_send (e_uuid e) m (sv_ipc sv)\<rparr>"

definition emit_event :: "string \<Rightarrow> json \<Rightarrow> server \<Rightarrow> server" where
  "emit_event event_type data sv = sv\<lparr>sv_events := emit event_type data (sv_events sv)\<rparr>"

section \<open>JSON of the objects\<close>

definition opt_str :: "string option \<Rightarrow> json" where
  "opt_str v = (case v of None \<Rightarrow> JNull | Some s \<Rightarrow> JStr s)"

definition opt_num :: "int option \<Rightarrow> json" where
  "opt_num v = (case v of None \<Rightarrow> JNull | Some n \<Rightarrow> JNum n)"

definition base_rule_entries :: "'a base_rule_scheme \<Rightarrow> object" where
  "base_rule_entries r =
     [(''id'', JNum (r_id r)), (''name'', JStr (r_name r)), (''url_pattern'', JStr (r_url_pattern r)),
      (''methods'', JArr (map JStr (r_methods r))), (''action'', JStr (r_action r)),
      (''priority'', JNum (r_priority r)), (''agent_id'', opt_str (r_agent_id r)),
      (''log_request_body'', JStr (r_log_request_body r)), (''log_response_body'', JStr (r_log_response_body r)),
      (''default_behavior'', opt_str (r_default_behavior r)), (''enabled'', JBool (r_enabled r))]"

definition file_rule_json :: "base_rule \<Rightarrow> json" where
  "file_rule_json r = JObj (base_rule_entries r)"

definition rule_json :: "rule \<Rightarrow> json" where
  "rule_json r = JObj (base_rule_entries r @
     [(''hit_count'', JNum (r_hit_count r)), (''hit_count_today'', JNum (r_hit_count_today r)),
      (''hit_count_date'', opt_str (r_hit_count_date r)), (''policy_id'', opt_num (r_policy_id r))])"

definition proxy_agent_json :: "proxy_agent \<Rightarrow> json" where
  "proxy_agent_json a = JObj
     [(''name'', JStr (pa_name a)), (''token_hash'', JStr (pa_token_hash a)), (''enabled'', JBool (pa_enabled a)),
      (''ip_address'', opt_str (pa_ip_address a))]"

section \<open>What the proxy is told\<close>

text \<open>\<open>sendAgentRulesReload\<close>: one list of rules per agent name, always from the database.\<close>

fun agent_rules_map :: "db \<Rightarrow> agent list \<Rightarrow> object \<Rightarrow> (js_error + object) option" where
  "agent_rules_map d [] rules_map = Some (Inr rules_map)"
| "agent_rules_map d (a # agents) rules_map =
     (case resolve_agent_rules d (Some (a_id a)) of
        None \<Rightarrow> None
      | Some (Inl err) \<Rightarrow> Some (Inl err)
      | Some (Inr rules) \<Rightarrow> agent_rules_map d agents (obj_put rules_map (a_name a) (JArr (map rule_json rules))))"

definition send_agent_rules_reload :: "env \<Rightarrow> server \<Rightarrow> (js_error + server) option" where
  "send_agent_rules_reload e sv =
     (case agent_rules_map (sv_db sv) (list_agents (sv_db sv)) [] of
        None \<Rightarrow> None
      | Some (Inl err) \<Rightarrow> Some (Inl err)
      | Some (Inr rules_map) \<Rightarrow>
          Some (Inr (send_msg e [(''type'', JStr ''rules.reload''), (''data'', JObj rules_map)] sv)))"

definition agents_reload_msg :: "db \<Rightarrow> message" where
  "agents_reload_msg d =
     [(''type'', JStr ''agents.reload''), (''data'', JArr (map proxy_agent_json (list_for_proxy d)))]"

definition ip_mapping_msg :: "db \<Rightarrow> message" where
  "ip_mapping_msg d =
     [(''type'', JStr ''agents.ipmapping''), (''data'', JObj (map (\<lambda>(ip, name). (ip, JStr name)) (ip_mapping d)))]"

text \<open>\<open>onConnect\<close> catches its errors; \<open>onRestart\<close> does not.\<close>

definition on_connect :: "env \<Rightarrow> server \<Rightarrow> server option" where
  "on_connect e sv =
     (case send_agent_rules_reload e sv of
        None \<Rightarrow> None
      | Some (Inl err) \<Rightarrow> Some sv
      | Some (Inr sv1) \<Rightarrow>
          Some (send_msg e (ip_mapping_msg (sv_db sv1)) (send_msg e (agents_reload_msg (sv_db sv1)) sv1)))"

definition on_restart :: "env \<Rightarrow> server \<Rightarrow> server option" where
  "on_restart e sv =
     (case send_agent_rules_reload e sv of
        None \<Rightarrow> None
      | Some (Inl err) \<Rightarrow> None
      | Some (Inr sv1) \<Rightarrow> Some (send_msg e (agents_reload_msg (sv_db sv1)) sv1))"

section \<open>Messages of the proxy\<close>

text \<open>
  A property of a message that is bound to a column: undefined and null are NULL, a value of another
  type than the proxy sends cannot be bound.
\<close>

definition text_at :: "object \<Rightarrow> string \<Rightarrow> js_error + string option" where
  "text_at obj k =
     (case obj_get obj k of
        None \<Rightarrow> Inr None | Some JNull \<Rightarrow> Inr None | Some (JStr s) \<Rightarrow> Inr (Some s) | Some _ \<Rightarrow> Inl TypeErr)"

definition num_at :: "object \<Rightarrow> string \<Rightarrow> js_error + int option" where
  "num_at obj k =
     (case obj_get obj k of
        None \<Rightarrow> Inr None | Some JNull \<Rightarrow> Inr None | Some (JNum n) \<Rightarrow> Inr (Some n) | Some _ \<Rightarrow> Inl TypeErr)"

definition bind_text :: "object \<Rightarrow> string \<Rightarrow> (string option \<Rightarrow> js_error + 'a) \<Rightarrow> js_error + 'a" where
  "bind_text obj k f = (case text_at obj k of Inl err \<Rightarrow> Inl err | Inr v \<Rightarrow> f v)"

definition bind_num :: "object \<Rightarrow> string \<Rightarrow> (int option \<Rightarrow> js_error + 'a) \<Rightarrow> js_error + 'a" where
  "bind_num obj k f = (case num_at obj k of Inl err \<Rightarrow> Inl err | Inr v \<Rightarrow> f v)"

definition log_entry_of :: "object \<Rightarrow> js_error + log_entry" where
  "log_entry_of d =
     bind_text d ''method'' (\<lambda>meth. bind_text d ''url'' (\<lambda>url.
     bind_text d ''request_headers'' (\<lambda>rh. bind_text d ''request_body_ref'' (\<lambda>rb.
     bind_num d ''response_status'' (\<lambda>st. bind_text d ''response_headers'' (\<lambda>sh.
     bind_text d ''response_body_ref'' (\<lambda>sb. bind_num d ''duration_ms'' (\<lambda>ms.
     bind_num d ''rule_id'' (\<lambda>rid. bind_text d ''decision'' (\<lambda>dec.
     bind_text d ''agent_id'' (\<lambda>agent. bind_text d ''mode'' (\<lambda>mode.
       Inr \<lparr>le_method = meth, le_url = url, le_request_headers = rh, le_request_body_ref = rb,
            le_response_status = st, le_response_headers = sh, le_response_body_ref = sb, le_duration_ms = ms,
            le_rule_id = rid, le_decision = dec, le_agent_id = agent, le_mode = mode\<rparr>))))))))))))"

text \<open>\<open>requestLogDAO.insert(msg.data)\<close>: reading a property of undefined throws.\<close>

definition record_log :: "env \<Rightarrow> json option \<Rightarrow> server \<Rightarrow> js_error + server \<times> object \<times> log_row option" where
  "record_log e data sv =
     (case data of
        Some (JObj d) \<Rightarrow>
          (case log_entry_of d of
             Inl err \<Rightarrow> Inl err
           | Inr entry \<Rightarrow>
               (case insert_log (e_clock e) (sv_db sv) entry of
                  Inl err \<Rightarrow> Inl err
                | Inr (db', row) \<Rightarrow> Inr (sv\<lparr>sv_db := db'\<rparr>, d, row)))
      | _ \<Rightarrow> Inl TypeErr)"

text \<open>\<open>suggested_methods ? JSON.stringify(...) : null\<close>; the proxy sends a list of strings.\<close>

definition approval_of :: "object \<Rightarrow> object \<Rightarrow> int option \<Rightarrow> js_error + approval_entry" where
  "approval_of msg d log_id =
     bind_text msg ''msg_id'' (\<lambda>i. bind_text d ''suggested_pattern'' (\<lambda>p.
       if \<not> truthy (obj_get d ''suggested_methods'')
       then Inr \<lparr>ae_request_log_id = log_id, ae_ipc_msg_id = i, ae_suggested_pattern = p, ae_suggested_methods = None\<rparr>
       else
         (case obj_get d ''suggested_methods'' of
            Some (JArr vs) \<Rightarrow>
              (case as_strings vs of
                 None \<Rightarrow> Inl TypeErr
               | Some ms \<Rightarrow> Inr \<lparr>ae_request_log_id = log_id, ae_ipc_msg_id = i, ae_suggested_pattern = p,
                                 ae_suggested_methods = Some ms\<rparr>)
          | _ \<Rightarrow> Inl TypeErr)))"

definition notify :: "env \<Rightarrow> string \<Rightarrow> json \<Rightarrow> server \<Rightarrow> js_error + server" where
  "notify e event_type data sv =
     (case dispatch (e_hmac e) (e_to_iso e) (e_net e) (e_now e) event_type data (sv_webhooks sv) of
        Inl err \<Rightarrow> Inl err
      | Inr ds \<Rightarrow> Inr (sv\<lparr>sv_notified := sv_notified sv @ ds\<rparr>))"

text \<open>
  The branch of \<open>approval.needed\<close>. The flag says whether it ran to its end; the log entry stays when the
  approval cannot be queued. The rejection of a dispatch that throws is not handled.
\<close>

definition approval_needed :: "env \<Rightarrow> object \<Rightarrow> server \<Rightarrow> (server \<times> bool) option" where
  "approval_needed e msg sv =
     (case record_log e (obj_get msg ''data'') sv of
        Inl err \<Rightarrow> Some (sv, False)
      | Inr (sv1, d, row) \<Rightarrow>
          (case approval_of msg d (map_option lr_id row) of
             Inl err \<Rightarrow> Some (sv1, False)
           | Inr entry \<Rightarrow>
               (case enqueue (e_clock e) (sv_db sv1) entry of
                  Inl err \<Rightarrow> Some (sv1, False)
                | Inr (db2, q) \<Rightarrow>
                    (let sv2 = sv1\<lparr>sv_db := db2\<rparr>;
                         sv3 = emit_event ''approval.needed''
                                 (JObj (obj_put d ''log_id'' (opt_num (map_option lr_id row)))) sv2
                     in (case notify e ''approval.needed'' (JObj d) sv3 of
                           Inl err \<Rightarrow> None
                         | Inr sv4 \<Rightarrow> Some (sv4, True))))))"

definition request_seen :: "env \<Rightarrow> string \<Rightarrow> object \<Rightarrow> server \<Rightarrow> server \<times> bool" where
  "request_seen e event_type msg sv =
     (case record_log e (obj_get msg ''data'') sv of
        Inl err \<Rightarrow> (sv, False)
      | Inr (sv1, d, row) \<Rightarrow> (emit_event event_type (JObj d) sv1, True))"

text \<open>\<open>rulesDAO.incrementHitCount\<close> of the store in use.\<close>

definition hit_rule :: "env \<Rightarrow> int \<Rightarrow> server \<Rightarrow> js_error + server" where
  "hit_rule e i sv =
     (case sv_file sv of
        None \<Rightarrow> Inr (sv\<lparr>sv_db := increment_hit_count (e_clock e) (sv_db sv) (Some i)\<rparr>)
      | Some rules \<Rightarrow>
          (case file_increment_hit_count rules (Some i) of
             Inl err \<Rightarrow> Inl err
           | Inr rules' \<Rightarrow> Inr (sv\<lparr>sv_file := Some rules'\<rparr>)))"

definition count_agent :: "object \<Rightarrow> server \<Rightarrow> server" where
  "count_agent d sv =
     (case obj_get d ''agent_id'' of
        Some (JStr name) \<Rightarrow>
          if name \<noteq> [] then sv\<lparr>sv_db := increment_request_count (sv_db sv) (Some name)\<rparr> else sv
      | _ \<Rightarrow> sv)"

definition count_hits :: "env \<Rightarrow> object \<Rightarrow> server \<Rightarrow> server" where
  "count_hits e msg sv =
     (case obj_get msg ''data'' of
        Some (JObj d) \<Rightarrow>
          (case obj_get d ''rule_id'' of
             Some (JNum i) \<Rightarrow>
               if i \<noteq> 0
               then (case hit_rule e i sv of Inl err \<Rightarrow> sv | Inr sv1 \<Rightarrow> count_agent d sv1)
               else count_agent d sv
           | _ \<Rightarrow> count_agent d sv)
      | _ \<Rightarrow> sv)"

definition on_message :: "env \<Rightarrow> json \<Rightarrow> server \<Rightarrow> server option" where
  "on_message e m sv =
     (case m of
        JObj msg \<Rightarrow>
          (case (if obj_get msg ''type'' = Some (JStr ''request.logged'')
                 then Some (request_seen e ''request.allowed'' msg sv)
                 else if obj_get msg ''type'' = Some (JStr ''request.blocked'')
                 then Some (request_seen e ''request.blocked'' msg sv)
                 else if obj_get msg ''type'' = Some (JStr ''approval.needed'')
                 then approval_needed e msg sv
                 else Some (sv, True)) of
             None \<Rightarrow> None
           | Some (sv1, ok) \<Rightarrow> Some (if ok then count_hits e msg sv1 else sv1))
      | JNull \<Rightarrow> None
      | _ \<Rightarrow> Some sv)"

fun on_messages :: "env \<Rightarrow> json list \<Rightarrow> server \<Rightarrow> server option" where
  "on_messages e [] sv = Some sv"
| "on_messages e (m # ms) sv = (case on_message e m sv of None \<Rightarrow> None | Some sv1 \<Rightarrow> on_messages e ms sv1)"

text \<open>A chunk on the socket; a line that is not JSON throws out of the listener.\<close>

definition on_data :: "env \<Rightarrow> string \<Rightarrow> server \<Rightarrow> server option" where
  "on_data e chunk sv =
     (case ipc_data chunk (sv_ipc sv) of
        Inl err \<Rightarrow> None
      | Inr (ms, ipc') \<Rightarrow> on_messages e ms (sv\<lparr>sv_ipc := ipc'\<rparr>))"

section \<open>Proxy process, expiry, SIGHUP\<close>

definition hold_timeout :: "object \<Rightarrow> int" where
  "hold_timeout cfg = (case field cfg ''proxy'' ''hold_timeout'' of Some (JNum n) \<Rightarrow> if n = 0 then 60 else n | _ \<Rightarrow> 60)"

text \<open>The interval of 30 s; \<open>holdTimeout\<close> is read once, at the start.\<close>

definition on_expire :: "env \<Rightarrow> server \<Rightarrow> server" where
  "on_expire e sv =
     (case expire_stale (e_clock e) (sv_db sv) (sv_hold_timeout sv * 2) of
        (db', n) \<Rightarrow>
          (let sv1 = sv\<lparr>sv_db := db'\<rparr> in
           if 0 < n then emit_event ''approval.resolved'' (JObj [(''expired'', JNum (int n))]) sv1 else sv1))"

text \<open>The exit of a proxy process and the restart timer, with the call of \<open>onRestart\<close> when it spawned.\<close>

definition on_proxy_exit :: "env \<Rightarrow> nat \<Rightarrow> int option \<Rightarrow> server \<Rightarrow> server" where
  "on_proxy_exit e pid exit_code sv = sv\<lparr>sv_proxy := pm_exit (e_now e) pid exit_code (sv_proxy sv)\<rparr>"

definition on_proxy_timer :: "env \<Rightarrow> server \<Rightarrow> server option" where
  "on_proxy_timer e sv =
     (let m = pm_timer (e_now e) (sv_proxy sv); sv1 = sv\<lparr>sv_proxy := m\<rparr> in
      if length (pm_restarts m) = length (pm_restarts (sv_proxy sv)) then Some sv1 else on_restart e sv1)"

definition webhook_of :: "json \<Rightarrow> webhook" where
  "webhook_of v =
     (case v of
        JObj w \<Rightarrow>
          \<lparr>wh_url = (case obj_get w ''url'' of Some (JStr s) \<Rightarrow> s | _ \<Rightarrow> ''undefined''),
           wh_secret = (case obj_get w ''secret'' of Some (JStr s) \<Rightarrow> Some s | _ \<Rightarrow> None),
           wh_events = (case obj_get w ''events'' of Some (JArr vs) \<Rightarrow> as_strings vs | _ \<Rightarrow> None),
           wh_timeout_ms = (case obj_get w ''timeout_ms'' of Some (JNum n) \<Rightarrow> Some n | _ \<Rightarrow> None),
           wh_retries = (case obj_get w ''retries'' of Some (JNum n) \<Rightarrow> Some n | _ \<Rightarrow> None)\<rparr>
      | _ \<Rightarrow> \<lparr>wh_url = ''undefined'', wh_secret = None, wh_events = None, wh_timeout_ms = None, wh_retries = None\<rparr>)"

definition webhooks_of :: "object \<Rightarrow> webhook list" where
  "webhooks_of cfg = (case obj_get cfg ''webhooks'' of Some (JArr vs) \<Rightarrow> map webhook_of vs | _ \<Rightarrow> [])"

text \<open>\<open>Object.assign(config, newConfig)\<close>.\<close>

definition object_assign :: "object \<Rightarrow> object \<Rightarrow> object" where
  "object_assign target src = foldl (\<lambda>t (k, v). obj_put t k v) target src"

text \<open>An undefined \<open>default_behavior\<close> cannot occur: \<open>validate\<close> has checked it.\<close>

definition config_update_msg :: "object \<Rightarrow> message" where
  "config_update_msg cfg =
     [(''type'', JStr ''config.update''),
      (''data'', JObj (case obj_get cfg ''default_behavior'' of None \<Rightarrow> [] | Some v \<Rightarrow> [(''default_behavior'', v)]))]"

text \<open>
  SIGHUP: what was done before an error stays done. Only a file store has a \<open>reload\<close>; the credentials of
  the management API and the hold timeout are those of the start.
\<close>

definition reload_file_rules :: "env \<Rightarrow> server \<Rightarrow> js_error + server" where
  "reload_file_rules e sv =
     (if field (sv_config sv) ''rules'' ''source'' = Some (JStr ''file'') \<and> sv_file sv \<noteq> None
      then (case reload_rules (e_rules_file e) of Inl err \<Rightarrow> Inl err | Inr rules \<Rightarrow> Inr (sv\<lparr>sv_file := Some rules\<rparr>))
      else Inr sv)"

definition on_sighup :: "env \<Rightarrow> server \<Rightarrow> server option" where
  "on_sighup e sv =
     (case load_config (e_environ e) (e_flags e) (sv_defaults sv) (e_config_text e) of
        (dflts, Inl err) \<Rightarrow> Some (sv\<lparr>sv_defaults := dflts\<rparr>)
      | (dflts, Inr new_config) \<Rightarrow>
          (let sv1 = sv\<lparr>sv_defaults := dflts, sv_webhooks := webhooks_of new_config\<rparr> in
           case reload_file_rules e sv1 of
             Inl err \<Rightarrow> Some sv1
           | Inr sv2 \<Rightarrow>
               (let sv3 = send_msg e (config_update_msg new_config) sv2 in
                case send_agent_rules_reload e sv3 of
                  None \<Rightarrow> None
                | Some (Inl err) \<Rightarrow> Some sv3
                | Some (Inr sv4) \<Rightarrow>
                    (let sv5 = send_msg e (agents_reload_msg (sv_db sv4)) sv4
                     in Some (sv5\<lparr>sv_config := object_assign (sv_config sv5) new_config\<rparr>)))))"

section \<open>Start\<close>

text \<open>\<open>String(value)\<close> and \<open>${value}\<close>.\<close>

fun js_string :: "json \<Rightarrow> string" where
  "js_string JNull = ''null''"
| "js_string (JBool b) = (if b then ''true'' else ''false'')"
| "js_string (JNum n) = show_int n"
| "js_string (JStr s) = s"
| "js_string (JArr vs) = sep_by '','' (map (\<lambda>v. if v = JNull then [] else js_string v) vs)"
| "js_string (JObj kvs) = ''[object Object]''"

definition path_in :: "string \<Rightarrow> string \<Rightarrow> string" where
  "path_in dir name = (if dir = ''/'' then dir @ name else dir @ ''/'' @ name)"

definition port_spec :: "json \<Rightarrow> string" where
  "port_spec p =
     (case p of
        JObj kvs \<Rightarrow>
          (let port = (case obj_get kvs ''port'' of None \<Rightarrow> ''undefined'' | Some v \<Rightarrow> js_string v)
           in if truthy (obj_get kvs ''tls'') then port @ '':tls'' else port)
      | _ \<Rightarrow> ''undefined'')"

definition string_or :: "string \<Rightarrow> json option \<Rightarrow> string" where
  "string_or dflt v = (if truthy v then js_string (the v) else dflt)"

text \<open>The flags of the proxy binary, as pairs.\<close>

definition proxy_flags :: "object \<Rightarrow> string \<Rightarrow> string \<Rightarrow> (string \<times> string) list" where
  "proxy_flags cfg socket_path data_dir =
     [(''--socket'', socket_path),
      (''--listen'', case field cfg ''proxy'' ''listen'' of None \<Rightarrow> ''undefined'' | Some v \<Rightarrow> js_string v),
      (''--default-behavior'', string_or ''deny'' (obj_get cfg ''default_behavior''))]
     @ (if truthy (field cfg ''proxy'' ''hold_timeout'')
        then [(''--hold-timeout'', js_string (the (field cfg ''proxy'' ''hold_timeout'')))] else [])
     @ (if truthy (field cfg ''encryption'' ''ca_key'')
        then [(''--ca-pass'', js_string (the (field cfg ''encryption'' ''ca_key'')))] else [])
     @ (if truthy (field cfg ''encryption'' ''log_key'')
        then [(''--log-key'', js_string (the (field cfg ''encryption'' ''log_key'')))] else [])
     @ (if truthy (field cfg ''transparent'' ''enabled'')
        then [(''--transparent-listen'', string_or ''0.0.0.0'' (field cfg ''transparent'' ''listen'')),
              (''--transparent-ports'',
               case field cfg ''transparent'' ''ports'' of Some (JArr ps) \<Rightarrow> sep_by '','' (map port_spec ps) | _ \<Rightarrow> [])]
        else [])
     @ [(''--ca-dir'', path_in data_dir ''ca''), (''--log-dir'', path_in data_dir ''logs'')]"

definition proxy_args :: "object \<Rightarrow> string \<Rightarrow> string \<Rightarrow> string list" where
  "proxy_args cfg socket_path data_dir =
     concat (map (\<lambda>(flag, value). [flag, value]) (proxy_flags cfg socket_path data_dir))"

datatype start_error = BadConfig config_error | StartFailed js_error

text \<open>
  \<open>startServer\<close> on the database file \<open>f\<close>, up to the registration of the handlers; the proxy itself is
  started by the command line (\<open>run_cli\<close>). The management credentials are an object of names and
  passwords.
\<close>

definition start_server :: "env \<Rightarrow> object \<Rightarrow> db_file \<Rightarrow> start_error + server" where
  "start_server e dflts f =
     (case load_config (e_environ e) (e_flags e) dflts (e_config_text e) of
        (dflts', Inl err) \<Rightarrow> Inl (BadConfig err)
      | (dflts', Inr cfg) \<Rightarrow>
          (case field cfg ''database'' ''path'' of
             Some (JStr db_path) \<Rightarrow>
               (case create_connection (e_clock e)
                       (case field cfg ''database'' ''encryption_key'' of Some (JStr k) \<Rightarrow> k | _ \<Rightarrow> []) f of
                  Inl err \<Rightarrow> Inl (StartFailed err)
                | Inr f' \<Rightarrow>
                    (case (if field cfg ''rules'' ''source'' = Some (JStr ''file'')
                           then (case reload_rules (e_rules_file e) of Inl err \<Rightarrow> Inl err | Inr rules \<Rightarrow> Inr (Some rules))
                           else Inr None) of
                       Inl err \<Rightarrow> Inl (StartFailed err)
                     | Inr store \<Rightarrow>
                         (let data_dir = e_data_dir e db_path;
                              socket_path = string_or (path_in data_dir ''ashp.sock'') (obj_get cfg ''ipc_socket'')
                          in Inr
                            \<lparr>sv_db = f_db f', sv_file = store, sv_config = cfg, sv_defaults = dflts',
                             sv_auth = (case field cfg ''management'' ''auth'' of Some (JObj a) \<Rightarrow> a | _ \<Rightarrow> []),
                             sv_hold_timeout = hold_timeout cfg,
                             sv_log_key = (case field cfg ''encryption'' ''log_key'' of
                                             Some (JStr k) \<Rightarrow> if k = [] then None else Some (e_from_hex e k)
                                           | _ \<Rightarrow> None),
                             sv_webhooks = webhooks_of cfg, sv_ipc = ipc_start (ipc_new default_buffer_size),
                             sv_events = bus_new default_event_buffer,
                             sv_proxy = manager_new (proxy_args cfg socket_path data_dir) default_restart_delay,
                             sv_started_at = e_now e, sv_notified = []\<rparr>)))
           | _ \<Rightarrow> Inl (StartFailed TypeErr)))"

text \<open>The command line: pairs of a flag (its two dashes removed) and a value, the last one may lack it.\<close>

definition flag_name :: "string \<Rightarrow> string" where
  "flag_name a = (if take 2 a = ''--'' then drop 2 a else a)"

fun cli_flags :: "string list \<Rightarrow> (string \<Rightarrow> string option) \<Rightarrow> string \<Rightarrow> string option" where
  "cli_flags [] flags = flags"
| "cli_flags [a] flags = flags(flag_name a := None)"
| "cli_flags (a # v # rest) flags = cli_flags rest (flags(flag_name a \<mapsto> v))"

definition run_cli :: "env \<Rightarrow> object \<Rightarrow> db_file \<Rightarrow> start_error + server" where
  "run_cli e dflts f =
     (case start_server e dflts f of
        Inl err \<Rightarrow> Inl err
      | Inr sv \<Rightarrow>
          Inr (if e_flags e ''start-proxy'' \<noteq> Some ''false'' then sv\<lparr>sv_proxy := pm_start (e_now e) (sv_proxy sv)\<rparr> else sv))"

text \<open>\<open>close()\<close>.\<close>

definition shut_down :: "server \<Rightarrow> server" where
  "shut_down sv = sv\<lparr>sv_proxy := pm_stop (sv_proxy sv), sv_ipc := ipc_close (sv_ipc sv)\<rparr>"

section \<open>The invariant of the server\<close>

definition ipc_ok :: "ipc \<Rightarrow> bool" where
  "ipc_ok st \<longleftrightarrow> length (ip_buffer st) \<le> ip_buffer_size st \<and> ip_buffer_size st = default_buffer_size"

definition store_ok :: "base_rule list option \<Rightarrow> bool" where
  "store_ok store = (case store of None \<Rightarrow> True | Some rules \<Rightarrow> file_ordered rules)"

definition server_ok :: "server \<Rightarrow> bool" where
  "server_ok sv \<longleftrightarrow>
     db_ok (sv_db sv) \<and> bus_ok (sv_events sv) \<and> eb_buffer_size (sv_events sv) = default_event_buffer
     \<and> ipc_ok (sv_ipc sv) \<and> store_ok (sv_file sv)"

lemma write_frame_ok [keeps]: "ipc_ok st \<Longrightarrow> ipc_ok (write_frame uuid sock st m)"
  by (simp add: ipc_ok_def write_frame_def split: prod.splits)

lemma ipc_send_ok [keeps]: "ipc_ok st \<Longrightarrow> ipc_ok (ipc_send uuid m st)"
  by (auto simp: ipc_send_def write_frame_def ipc_ok_def push_shift_bound split: option.splits prod.splits)

lemma write_frames_size: "ip_buffer_size (foldl (write_frame uuid sock) st ms) = ip_buffer_size st"
  by (induction ms arbitrary: st) (simp_all add: write_frame_def split: prod.splits)

lemma ipc_connect_ok [keeps]: "ipc_ok st \<Longrightarrow> ipc_ok (ipc_connect uuid sock st)"
  by (simp add: ipc_ok_def ipc_connect_def Let_def write_frames_size)

lemma ipc_gone_ok [keeps]: "ipc_ok st \<Longrightarrow> ipc_ok (ipc_gone sock st)"
  by (simp add: ipc_ok_def ipc_gone_def)

lemma ipc_data_ok [keeps]: "ipc_ok st \<Longrightarrow> ipc_data chunk st = Inr (ms, st') \<Longrightarrow> ipc_ok st'"
  by (auto simp: ipc_ok_def ipc_data_def split: option.splits)

lemma emit_size [simp]: "eb_buffer_size (emit t v b) = eb_buffer_size b"
  by (simp add: emit_def Let_def)

lemma send_msg_fields [simp]:
  "sv_db (send_msg e m sv) = sv_db sv" "sv_file (send_msg e m sv) = sv_file sv"
  "sv_events (send_msg e m sv) = sv_events sv" "sv_config (send_msg e m sv) = sv_config sv"
  "sv_auth (send_msg e m sv) = sv_auth sv" "sv_webhooks (send_msg e m sv) = sv_webhooks sv"
  "sv_hold_timeout (send_msg e m sv) = sv_hold_timeout sv" "sv_proxy (send_msg e m sv) = sv_proxy sv"
  "sv_ipc (send_msg e m sv) = ipc_send (e_uuid e) m (sv_ipc sv)"
  by (simp_all add: send_msg_def)

lemma emit_event_fields [simp]:
  "sv_db (emit_event t v sv) = sv_db sv" "sv_file (emit_event t v sv) = sv_file sv"
  "sv_events (emit_event t v sv) = emit t v (sv_events sv)" "sv_ipc (emit_event t v sv) = sv_ipc sv"
  "sv_config (emit_event t v sv) = sv_config sv" "sv_auth (emit_event t v sv) = sv_auth sv"
  "sv_webhooks (emit_event t v sv) = sv_webhooks sv" "sv_proxy (emit_event t v sv) = sv_proxy sv"
  by (simp_all add: emit_event_def)

lemma send_msg_ok [keeps]: "server_ok sv \<Longrightarrow> server_ok (send_msg e m sv)"
  by (simp add: server_ok_def ipc_send_ok)

lemma emit_event_ok [keeps]: "server_ok sv \<Longrightarrow> server_ok (emit_event t v sv)"
  by (simp add: server_ok_def emit_ok)

lemma set_db_ok [keeps]: "server_ok sv \<Longrightarrow> db_ok d \<Longrightarrow> server_ok (sv\<lparr>sv_db := d\<rparr>)"
  by (simp add: server_ok_def)

lemma server_db_ok: "server_ok sv \<Longrightarrow> db_ok (sv_db sv)"
  by (simp add: server_ok_def)

section \<open>The rules of every agent\<close>

text \<open>What an agent may do: the rules of its policies, as resolved from the database.\<close>

definition agent_rules :: "db \<Rightarrow> int \<Rightarrow> rule list" where
  "agent_rules d a = map rule_of (order_desc rr_priority (sort_key action_rank (agent_rows d a)))"

definition rules_reload_msg :: "db \<Rightarrow> message" where
  "rules_reload_msg d =
     [(''type'', JStr ''rules.reload''),
      (''data'', JObj (map (\<lambda>a. (a_name a, JArr (map rule_json (agent_rules d (a_id a))))) (list_agents d)))]"

lemma agent_rules_resolved: "db_ok d \<Longrightarrow> resolve_agent_rules d (Some a) = Some (Inr (agent_rules d a))"
  by (simp add: resolve_agent_rules_result agent_rules_def)

lemma agent_rules_map_result:
  assumes "db_ok d" "distinct (map a_name agents)" "fst ` set m \<inter> a_name ` set agents = {}"
  shows "agent_rules_map d agents m
    = Some (Inr (m @ map (\<lambda>a. (a_name a, JArr (map rule_json (agent_rules d (a_id a))))) agents))"
  using assms(2,3)
proof (induction agents arbitrary: m)
  case (Cons a agents)
  then have "a_name a \<notin> fst ` set m" by auto
  with Cons show ?case by (simp add: agent_rules_resolved [OF assms(1)] obj_put_new image_iff)
qed simp

lemma send_agent_rules_reload_result:
  assumes "db_ok (sv_db sv)"
  shows "send_agent_rules_reload e sv = Some (Inr (send_msg e (rules_reload_msg (sv_db sv)) sv))"
proof -
  have "distinct (map a_name (list_agents (sv_db sv)))"
    using agent_names [OF assms] by (simp add: list_agents_def comp_def deserialize_agent_def)
  then show ?thesis
    using agent_rules_map_result [OF assms, of _ "[]"]
    by (simp add: send_agent_rules_reload_def rules_reload_msg_def)
qed

section \<open>Every handler keeps the invariant\<close>

lemma enqueue_db_ok: "db_ok d \<Longrightarrow> enqueue c d entry = Inr (d', row) \<Longrightarrow> db_ok d'"
  using enqueue_Inr by blast

lemma create_connection_ok:
  assumes "file_ok f" "f_version f \<le> 4" "create_connection c key f = Inr f'"
  shows "db_ok (f_db f')"
proof -
  have d: "db_ok (f_db f)" using assms(1) by (simp add: file_ok_def)
  from assms(2) consider "f_version f = 0" | "f_version f = 1" | "f_version f = 2" | "f_version f = 3"
    | "f_version f = 4" by linarith
  then show ?thesis
    by cases (use assms(1,3) d in \<open>auto simp: create_connection_def Let_def migrate_v1_ok migrate_v2_ok
      migrate_v3_ok migrate_v4_ok split: if_splits\<close>)
qed

lemma record_log_ok:
  assumes "server_ok sv" "record_log e data sv = Inr (sv', d, row)"
  shows "server_ok sv'"
  using assms(2) insert_log_ok [OF server_db_ok [OF assms(1)]]
  by (auto simp: record_log_def assms(1) intro!: set_db_ok split: option.splits json.splits sum.splits)

lemma notify_fields:
  assumes "notify e t v sv = Inr sv'"
  shows "\<exists>ds. sv' = sv\<lparr>sv_notified := sv_notified sv @ ds\<rparr>"
  using assms by (auto simp: notify_def split: sum.splits)

lemma notify_ok: "server_ok sv \<Longrightarrow> notify e t v sv = Inr sv' \<Longrightarrow> server_ok sv'"
  using notify_fields [of e t v sv sv'] by (auto simp: server_ok_def)

lemma request_seen_ok: "server_ok sv \<Longrightarrow> server_ok (fst (request_seen e t msg sv))"
  by (auto simp: request_seen_def intro: emit_event_ok record_log_ok split: sum.splits prod.splits)

lemma approval_needed_ok:
  assumes ok: "server_ok sv" and a: "approval_needed e msg sv = Some (sv', ok')"
  shows "server_ok sv'"
proof (cases "record_log e (obj_get msg ''data'') sv")
  case (Inl err)
  with a ok show ?thesis by (simp add: approval_needed_def)
next
  case (Inr x)
  obtain sv1 d row where x: "x = (sv1, d, row)" by (cases x)
  note ok1 = record_log_ok [OF ok Inr [unfolded x]]
  show ?thesis
  proof (cases "approval_of msg d (map_option lr_id row)")
    case (Inl err)
    with a ok1 show ?thesis by (simp add: approval_needed_def Inr x)
  next
    case ent: (Inr entry)
    show ?thesis
    proof (cases "enqueue (e_clock e) (sv_db sv1) entry")
      case (Inl err)
      with a ok1 show ?thesis by (simp add: approval_needed_def Inr x ent)
    next
      case enq: (Inr y)
      obtain db2 q where y: "y = (db2, q)" by (cases y)
      have "db_ok db2" using enqueue_db_ok [OF server_db_ok [OF ok1]] enq y by blast
      then have ok3: "server_ok (emit_event ''approval.needed'' v (sv1\<lparr>sv_db := db2\<rparr>))" for v
        using ok1 by (intro emit_event_ok set_db_ok)
      from a show ?thesis
        by (auto simp: approval_needed_def Inr x ent enq y Let_def split: sum.splits dest: notify_ok [OF ok3])
    qed
  qed
qed

lemma hit_rule_ok: "server_ok sv \<Longrightarrow> hit_rule e i sv = Inr sv' \<Longrightarrow> server_ok sv'"
  by (auto simp: hit_rule_def file_increment_hit_count_def server_ok_def increment_hit_count_ok split: option.splits)

lemma count_agent_ok: "server_ok sv \<Longrightarrow> server_ok (count_agent d sv)"
  by (auto simp: count_agent_def increment_request_count_ok server_db_ok intro!: set_db_ok split: option.splits json.splits)

lemma count_hits_ok: "server_ok sv \<Longrightarrow> server_ok (count_hits e msg sv)"
  by (auto simp: count_hits_def intro: count_agent_ok hit_rule_ok split: option.splits json.splits sum.splits)

lemma on_message_ok:
  assumes "server_ok sv" "on_message e m sv = Some sv'"
  shows "server_ok sv'"
proof (cases m)
  case (JObj msg)
  define outcome where "outcome =
    (if obj_get msg ''type'' = Some (JStr ''request.logged'') then Some (request_seen e ''request.allowed'' msg sv)
     else if obj_get msg ''type'' = Some (JStr ''request.blocked'') then Some (request_seen e ''request.blocked'' msg sv)
     else if obj_get msg ''type'' = Some (JStr ''approval.needed'') then approval_needed e msg sv
     else Some (sv, True))"
  have "on_message e m sv = (case outcome of None \<Rightarrow> None
      | Some (sv1, ok) \<Rightarrow> Some (if ok then count_hits e msg sv1 else sv1))"
    by (simp add: on_message_def JObj outcome_def)
  moreover have "server_ok sv1" if "outcome = Some (sv1, ok)" for sv1 ok
    using that assms(1) request_seen_ok [OF assms(1), of e _ msg] approval_needed_ok [OF assms(1), of e msg sv1 ok]
    unfolding outcome_def by (auto split: if_splits) (metis fst_conv)+
  ultimately show ?thesis using assms(2) by (auto simp: count_hits_ok split: option.splits if_splits)
qed (use assms in \<open>auto simp: on_message_def\<close>)

lemma on_messages_ok: "server_ok sv \<Longrightarrow> on_messages e ms sv = Some sv' \<Longrightarrow> server_ok sv'"
  by (induction ms arbitrary: sv) (auto split: option.splits dest: on_message_ok)

lemma on_data_ok:
  assumes "server_ok sv" "on_data e chunk sv = Some sv'"
  shows "server_ok sv'"
proof -
  obtain ms ip where d: "ipc_data chunk (sv_ipc sv) = Inr (ms, ip)" and m: "on_messages e ms (sv\<lparr>sv_ipc := ip\<rparr>) = Some sv'"
    using assms(2) by (auto simp: on_data_def split: sum.splits)
  have "server_ok (sv\<lparr>sv_ipc := ip\<rparr>)" using assms(1) ipc_data_ok [OF _ d] by (simp add: server_ok_def)
  from on_messages_ok [OF this m] show ?thesis .
qed

lemma on_connect_result:
  assumes "server_ok sv"
  shows "on_connect e sv = Some (send_msg e (ip_mapping_msg (sv_db sv))
    (send_msg e (agents_reload_msg (sv_db sv)) (send_msg e (rules_reload_msg (sv_db sv)) sv)))"
  by (simp add: on_connect_def send_agent_rules_reload_result [OF server_db_ok [OF assms]])

lemma on_restart_result:
  assumes "server_ok sv"
  shows "on_restart e sv
    = Some (send_msg e (agents_reload_msg (sv_db sv)) (send_msg e (rules_reload_msg (sv_db sv)) sv))"
  by (simp add: on_restart_def send_agent_rules_reload_result [OF server_db_ok [OF assms]])

lemma on_expire_ok: "server_ok sv \<Longrightarrow> server_ok (on_expire e sv)"
  using expire_stale_ok [OF server_db_ok, of sv "e_clock e" "sv_hold_timeout sv * 2"]
  by (auto simp: on_expire_def Let_def intro!: emit_event_ok set_db_ok split: prod.splits)

lemma set_proxy_ok: "server_ok sv \<Longrightarrow> server_ok (sv\<lparr>sv_proxy := m\<rparr>)"
  by (simp add: server_ok_def)

lemma on_proxy_timer_ok: "server_ok sv \<Longrightarrow> \<exists>sv'. on_proxy_timer e sv = Some sv' \<and> server_ok sv'"
  using on_restart_result [OF set_proxy_ok] by (auto simp: on_proxy_timer_def Let_def set_proxy_ok send_msg_ok)

lemma reload_file_rules_ok: "server_ok sv \<Longrightarrow> reload_file_rules e sv = Inr sv' \<Longrightarrow> server_ok sv'"
  by (auto simp: reload_file_rules_def server_ok_def store_ok_def reload_ordered split: if_splits sum.splits)

lemma on_sighup_ok: "server_ok sv \<Longrightarrow> \<exists>sv'. on_sighup e sv = Some sv' \<and> server_ok sv'"
proof -
  assume ok: "server_ok sv"
  have frame: "server_ok (sv\<lparr>sv_defaults := ds\<rparr>)" "server_ok (sv\<lparr>sv_defaults := ds, sv_webhooks := ws\<rparr>)" for ds ws
    using ok by (simp_all add: server_ok_def)
  have cfg: "server_ok t \<Longrightarrow> server_ok (t\<lparr>sv_config := c\<rparr>)" for t c by (simp add: server_ok_def)
  show ?thesis
    using reload_file_rules_ok [OF frame(2)] send_agent_rules_reload_result [OF server_db_ok]
    by (auto simp: on_sighup_def frame cfg send_msg_ok Let_def split: prod.splits sum.splits)
qed

lemma start_server_ok:
  assumes "file_ok f" "f_version f \<le> 4" "start_server e dflts f = Inr sv"
  shows "server_ok sv"
proof -
  obtain dflts' cfg where l: "load_config (e_environ e) (e_flags e) dflts (e_config_text e) = (dflts', Inr cfg)"
    using assms(3) by (auto simp: start_server_def split: prod.splits sum.splits)
  obtain db_path where p: "field cfg ''database'' ''path'' = Some (JStr db_path)"
    using assms(3) by (auto simp: start_server_def l split: option.splits json.splits)
  define key where
    "key = (case field cfg ''database'' ''encryption_key'' of Some (JStr k) \<Rightarrow> k | _ \<Rightarrow> [])"
  define store where
    "store = (if field cfg ''rules'' ''source'' = Some (JStr ''file'')
      then (case reload_rules (e_rules_file e) of Inl err \<Rightarrow> Inl err | Inr rules \<Rightarrow> Inr (Some rules)) else Inr None)"
  obtain f' where c: "create_connection (e_clock e) key f = Inr f'"
    using assms(3) unfolding start_server_def l prod.case sum.case p option.case json.case key_def [symmetric]
    by (auto split: sum.splits)
  obtain st where st: "store = Inr st"
    using assms(3) unfolding start_server_def l prod.case sum.case p option.case json.case key_def [symmetric] c
      store_def [symmetric]
    by (auto split: sum.splits)
  have sv: "sv_db sv = f_db f'" "sv_file sv = st" "sv_events sv = bus_new default_event_buffer"
      "sv_ipc sv = ipc_start (ipc_new default_buffer_size)"
    using assms(3) unfolding start_server_def l prod.case sum.case p option.case json.case key_def [symmetric] c
      store_def [symmetric] st Let_def by auto
  have "store_ok st"
    using st reload_ordered [of "e_rules_file e"] by (auto simp: store_def store_ok_def split: if_splits sum.splits)
  then show ?thesis
    using create_connection_ok [OF assms(1,2) c]
    by (simp add: server_ok_def sv bus_new_ok ipc_ok_def ipc_start_def ipc_new_def) (simp add: bus_new_def)
qed

section \<open>Properties\<close>

text \<open>
  The proxy is given exactly the rules of every agent: building the map always ends, and the message
  sent has one entry per agent, under its name, holding the rules its policies resolve to, and no other
  entry.
\<close>

theorem proxy_gets_policy_rules:
  assumes "server_ok sv"
  shows "\<exists>m. send_agent_rules_reload e sv
      = Some (Inr (send_msg e [(''type'', JStr ''rules.reload''), (''data'', JObj m)] sv))
    \<and> map fst m = map a_name (list_agents (sv_db sv)) \<and> distinct (map fst m)
    \<and> (\<forall>a \<in> set (list_agents (sv_db sv)). \<exists>rs. resolve_agent_rules (sv_db sv) (Some (a_id a)) = Some (Inr rs)
        \<and> map_of m (a_name a) = Some (JArr (map rule_json rs)))"
proof -
  note d = server_db_ok [OF assms]
  let ?m = "map (\<lambda>a. (a_name a, JArr (map rule_json (agent_rules (sv_db sv) (a_id a))))) (list_agents (sv_db sv))"
  have n: "distinct (map a_name (list_agents (sv_db sv)))"
    using agent_names [OF d] by (simp add: list_agents_def comp_def deserialize_agent_def)
  have "map_of ?m (a_name a) = Some (JArr (map rule_json (agent_rules (sv_db sv) (a_id a))))"
    if "a \<in> set (list_agents (sv_db sv))" for a
    by (rule map_of_is_SomeI) (use n that in \<open>auto simp: comp_def\<close>)
  then show ?thesis
    using send_agent_rules_reload_result [OF d, of e] n agent_rules_resolved [OF d]
    by (intro exI [of _ ?m]) (simp add: rules_reload_msg_def comp_def)
qed

text \<open>The parts of the branch: the log entry, the queued approval, the notification.\<close>

lemma held_is_logged:
  assumes "db_ok (sv_db sv)" "log_entry_of d = Inr entry" "obj_get d ''rule_id'' = None"
    and "le_method entry = Some meth" "le_url entry = Some url" "le_decision entry = Some ''held''"
    and "obj_get msg ''data'' = Some (JObj d)"
  obtains db1 l where "record_log e (obj_get msg ''data'') sv = Inr (sv\<lparr>sv_db := db1\<rparr>, d, Some l)"
    and "t_log db1 = t_log (sv_db sv) @ [l]" "t_queue db1 = t_queue (sv_db sv)" "db_ok db1"
    and "lr_method l = meth" "lr_url l = url" "lr_decision l = ''held''"
proof -
  have rid: "le_rule_id entry = None"
    using assms(2,3) by (auto simp: log_entry_of_def bind_text_def bind_num_def num_at_def split: sum.splits)
  obtain db1 row where ins: "insert_log (e_clock e) (sv_db sv) entry = Inr (db1, row)"
    using assms(4-6) rid by (auto simp: insert_log_def Let_def log_check_def new_log_row_def fk_def)
  let ?l = "new_log_row (e_clock e) (seq_log (sv_db sv) + 1) entry meth url ''held''"
  from insert_log_Inr [OF assms(1) ins] assms(4-6) have row: "row = Some ?l" "db_ok db1"
      "db1 = sv_db sv\<lparr>t_log := t_log (sv_db sv) @ [?l], seq_log := seq_log (sv_db sv) + 1\<rparr>" by auto
  have "t_log db1 = t_log (sv_db sv) @ [?l]" "t_queue db1 = t_queue (sv_db sv)" by (simp_all add: row(3))
  moreover have "lr_method ?l = meth" "lr_url ?l = url" "lr_decision ?l = ''held''" by (simp_all add: new_log_row_def)
  moreover have "record_log e (obj_get msg ''data'') sv = Inr (sv\<lparr>sv_db := db1\<rparr>, d, Some ?l)"
    by (simp add: record_log_def assms(2,7) ins row(1))
  ultimately show thesis using that row(2) by blast
qed

lemma held_is_queued:
  assumes "db_ok d1" "log_exists d1 log_id"
  obtains d2 q where "enqueue c d1 \<lparr>ae_request_log_id = Some log_id, ae_ipc_msg_id = mid, ae_suggested_pattern = p,
      ae_suggested_methods = ms\<rparr> = Inr (d2, Some q)"
    and "t_queue d2 = t_queue d1 @ [q]" "t_log d2 = t_log d1"
    and "aq_status q = ''pending''" "aq_ipc_msg_id q = mid" "aq_request_log_id q = log_id" "aq_suggested_pattern q = p"
proof -
  let ?ent = "\<lparr>ae_request_log_id = Some log_id, ae_ipc_msg_id = mid, ae_suggested_pattern = p, ae_suggested_methods = ms\<rparr>"
  obtain d2 q where enq: "enqueue c d1 ?ent = Inr (d2, q)" using assms(2) by (simp add: enqueue_def Let_def)
  moreover have "t_log d2 = t_log d1" using enq by (auto simp: enqueue_def Let_def split: if_splits)
  ultimately show thesis
    using enqueue_Inr [OF assms(1) enq] that [of d2 "new_approval_row c (seq_queue d1 + 1) ?ent log_id"]
    by (simp add: new_approval_row_def)
qed

lemma notify_subscribed:
  assumes "list_all (\<lambda>w. wh_events w \<noteq> None) (sv_webhooks sv)"
  obtains ds where "notify e event_type v sv = Inr (sv\<lparr>sv_notified := sv_notified sv @ ds\<rparr>)"
    and "map fst ds = filter (\<lambda>w. event_type \<in> set (the (wh_events w))) (sv_webhooks sv)"
proof -
  let ?ds = "map (\<lambda>w. (w, case wh_secret w of None \<Rightarrow> []
      | Some s \<Rightarrow> deliver (e_hmac e) (e_to_iso e) (e_net e) w s event_type v (e_now e) 0))
      (filter (\<lambda>w. event_type \<in> set (the (wh_events w))) (sv_webhooks sv))"
  have "notify e event_type v sv = Inr (sv\<lparr>sv_notified := sv_notified sv @ ?ds\<rparr>)"
    using assms by (simp add: notify_def dispatch_def list_all_iff)
  then show thesis by (rule that) (simp add: comp_def)
qed


text \<open>
  In file mode the proxy and the server do not speak of the same rules: the rules sent to the proxy are
  those of the database whatever the file holds, and a request reported with the id of a rule that only
  the file has leaves no trace at all, neither log entry nor event nor counter.
\<close>

theorem file_mode_gap:
  assumes "sv_file sv = Some rules"
    and "obj_get msg ''type'' \<in> {Some (JStr ''request.logged''), Some (JStr ''request.blocked'')}"
    and "obj_get msg ''data'' = Some (JObj d)" "obj_get d ''rule_id'' = Some (JNum n)" "\<not> rule_exists (sv_db sv) n"
  shows "on_message e (JObj msg) sv = Some sv
    \<and> send_agent_rules_reload e (sv\<lparr>sv_file := Some rules'\<rparr>)
        = map_option (map_sum id (\<lambda>t. t\<lparr>sv_file := Some rules'\<rparr>)) (send_agent_rules_reload e sv)"
proof
  have "\<exists>err. record_log e (Some (JObj d)) sv = Inl err"
  proof (cases "log_entry_of d")
    case (Inr entry)
    then have "le_rule_id entry = Some n"
      using assms(4) by (auto simp: log_entry_of_def bind_text_def bind_num_def num_at_def split: sum.splits)
    then have "\<exists>err. insert_log (e_clock e) (sv_db sv) entry = Inl err"
      using assms(5) by (auto simp: insert_log_def Let_def new_log_row_def fk_def split: option.splits)
    with Inr show ?thesis by (auto simp: record_log_def)
  qed (simp add: record_log_def)
  then show "on_message e (JObj msg) sv = Some sv"
    using assms(2,3) by (auto simp: on_message_def request_seen_def)
  show "send_agent_rules_reload e (sv\<lparr>sv_file := Some rules'\<rparr>)
      = map_option (map_sum id (\<lambda>t. t\<lparr>sv_file := Some rules'\<rparr>)) (send_agent_rules_reload e sv)"
    by (simp add: send_agent_rules_reload_def send_msg_def split: option.splits sum.splits)
qed

text \<open>
  A live reload ends, keeps the database, the management credentials, the log key and the hold timeout of
  the start, and is decided by the configuration file: when it does not load nothing but the defaults can
  change; when it loads the webhooks are replaced, and, unless the rules file fails to load (then that is
  all), the proxy is told the default behaviour, the rules and the agents, in this order, and the settings
  are merged over the old ones.
\<close>

theorem sighup_effect:
  assumes "server_ok sv"
  shows "\<exists>sv'. on_sighup e sv = Some sv' \<and> sv_db sv' = sv_db sv \<and> sv_auth sv' = sv_auth sv
    \<and> sv_log_key sv' = sv_log_key sv \<and> sv_hold_timeout sv' = sv_hold_timeout sv
    \<and> (case load_config (e_environ e) (e_flags e) (sv_defaults sv) (e_config_text e) of
         (dflts, Inl err) \<Rightarrow> sv' = sv\<lparr>sv_defaults := dflts\<rparr>
       | (dflts, Inr cfg) \<Rightarrow>
           sv_webhooks sv' = webhooks_of cfg
           \<and> (case reload_file_rules e sv of
                Inl err \<Rightarrow> sv_ipc sv' = sv_ipc sv \<and> sv_config sv' = sv_config sv \<and> sv_file sv' = sv_file sv
              | Inr t \<Rightarrow> sv_file sv' = sv_file t \<and> sv_config sv' = object_assign (sv_config sv) cfg
                  \<and> sv_ipc sv' = foldl (\<lambda>ip m. ipc_send (e_uuid e) m ip) (sv_ipc sv)
                      [config_update_msg cfg, rules_reload_msg (sv_db sv), agents_reload_msg (sv_db sv)]))"
proof -
  obtain dflts res where l: "load_config (e_environ e) (e_flags e) (sv_defaults sv) (e_config_text e) = (dflts, res)"
    by fastforce
  show ?thesis
  proof (cases res)
    case (Inl err)
    then show ?thesis by (simp add: on_sighup_def l)
  next
    case (Inr cfg)
    define sv1 where "sv1 = sv\<lparr>sv_defaults := dflts, sv_webhooks := webhooks_of cfg\<rparr>"
    have sv1: "reload_file_rules e sv1
        = map_sum id (\<lambda>t. t\<lparr>sv_defaults := dflts, sv_webhooks := webhooks_of cfg\<rparr>) (reload_file_rules e sv)"
      by (auto simp: reload_file_rules_def sv1_def split: sum.splits)
    show ?thesis
    proof (cases "reload_file_rules e sv")
      case (Inl err)
      then have "on_sighup e sv = Some sv1" by (simp add: on_sighup_def l \<open>res = Inr cfg\<close> sv1 Let_def flip: sv1_def)
      then show ?thesis by (simp add: l \<open>res = Inr cfg\<close> Inl sv1_def)
    next
      case (Inr t)
      have f: "sv_db t = sv_db sv" "sv_auth t = sv_auth sv" "sv_log_key t = sv_log_key sv"
          "sv_hold_timeout t = sv_hold_timeout sv" "sv_ipc t = sv_ipc sv" "sv_config t = sv_config sv"
        using Inr by (auto simp: reload_file_rules_def split: if_splits sum.splits)
      define sv3 where
        "sv3 = send_msg e (config_update_msg cfg) (t\<lparr>sv_defaults := dflts, sv_webhooks := webhooks_of cfg\<rparr>)"
      have db3: "sv_db sv3 = sv_db sv" by (simp add: sv3_def f(1))
      have "send_agent_rules_reload e sv3 = Some (Inr (send_msg e (rules_reload_msg (sv_db sv)) sv3))"
        using send_agent_rules_reload_result [of sv3 e] server_db_ok [OF assms] by (simp add: db3)
      then have "on_sighup e sv = Some ((send_msg e (agents_reload_msg (sv_db sv)) (send_msg e (rules_reload_msg (sv_db sv)) sv3))
          \<lparr>sv_config := object_assign (sv_config sv) cfg\<rparr>)"
        by (simp add: on_sighup_def l \<open>res = Inr cfg\<close> sv1 Inr Let_def db3 flip: sv1_def sv3_def) (simp add: sv3_def f)
      then show ?thesis
        by (intro exI conjI) (assumption, simp_all add: l \<open>res = Inr cfg\<close> Inr sv3_def send_msg_def f)
    qed
  qed
qed

text \<open>
  One bad line ends the server: when the bytes from the proxy complete a line that is not JSON (or that is
  the value null), nothing handles the exception and the process does not go on.
\<close>

theorem malformed_line_stops:
  assumes "newline \<notin> set line" "to_utf8 (line @ [newline]) = line @ [newline]" "ip_partial (sv_ipc sv) = []"
    and "trim line \<noteq> []" "json_parse (trim line) \<in> {None, Some JNull}"
  shows "on_data e (line @ [newline]) sv = None"
proof -
  have two: "split_nl (line @ [newline]) = [line, []]" using assms(1) by (induction line) auto
  consider "json_parse (trim line) = None" | "json_parse (trim line) = Some JNull" using assms(5) by auto
  then show ?thesis
  proof cases
    case 1
    then have "parse_frames (line @ [newline]) = None"
      unfolding parse_frames_def two by (simp add: Let_def assms(4))
    then show ?thesis unfolding on_data_def ipc_data_def assms(2,3) append_Nil by simp
  next
    case 2
    then have "parse_frames (line @ [newline]) = Some ([JNull], [])"
      unfolding parse_frames_def two by (simp add: Let_def assms(4))
    then show ?thesis unfolding on_data_def ipc_data_def assms(2,3) append_Nil by (simp add: on_message_def)
  qed
qed

section \<open>The properties at concrete inputs\<close>

definition sample_env :: env where
  "sample_env =
     \<lparr>e_clock = sample_clock, e_now = 0, e_to_iso = (\<lambda>_. []), e_environ = Map.empty, e_flags = Map.empty,
      e_config_text = None, e_rules_file = Inr None, e_read_file = (\<lambda>_. None), e_read_at = (\<lambda>_ _ _. None),
      e_from_hex = (\<lambda>_. []), e_data_dir = id, e_rx = literal_rx, e_uuid = (\<lambda>_. ''u''), e_token = ''t'', e_hash = id,
      e_compare = (=), e_hkdf = toy_hkdf, e_gcm_dec = toy_dec, e_hmac = (\<lambda>s b. s), e_net = (\<lambda>_ _. (Response 200, 1)),
      e_message = (\<lambda>_. ''error'')\<rparr>"

definition sample_server :: "db \<Rightarrow> server" where
  "sample_server d =
     \<lparr>sv_db = d, sv_file = None, sv_config = defaults, sv_defaults = defaults, sv_auth = [(''u'', JStr ''p'')],
      sv_hold_timeout = 60, sv_log_key = Some [7], sv_webhooks = [], sv_ipc = ipc_start (ipc_new default_buffer_size),
      sv_events = bus_new default_event_buffer, sv_proxy = manager_new [] default_restart_delay, sv_started_at = 0,
      sv_notified = []\<rparr>"

lemma sample_server_ok: "db_ok d \<Longrightarrow> server_ok (sample_server d)"
  by (simp add: server_ok_def sample_server_def bus_new_ok ipc_ok_def ipc_start_def ipc_new_def store_ok_def)
    (simp add: bus_new_def)

theorem proxy_gets_policy_rules_witness:
  "\<exists>m. send_agent_rules_reload sample_env (sample_server tree_db)
      = Some (Inr (send_msg sample_env [(''type'', JStr ''rules.reload''), (''data'', JObj m)] (sample_server tree_db)))
    \<and> map fst m = [''a'']"
  using proxy_gets_policy_rules [OF sample_server_ok [OF tree_db_ok], of sample_env]
  by (auto simp: sample_server_def list_agents_def tree_db_def sample_agent_def deserialize_agent_def)

definition sample_held :: object where
  "sample_held =
     [(''agent_id'', JStr ''a''), (''url'', JStr ''x''), (''method'', JStr ''GET''), (''decision'', JStr ''held''),
      (''suggested_pattern'', JStr ''x''), (''suggested_methods'', JArr (map JStr [''GET'']))]"

definition sample_needed :: object where
  "sample_needed = [(''type'', JStr ''approval.needed''), (''msg_id'', JStr ''m''), (''data'', JObj sample_held)]"


theorem file_mode_gap_witness:
  "on_message sample_env (JObj [(''type'', JStr ''request.logged''), (''data'', JObj [(''rule_id'', JNum 9)])])
     (sample_server tree_db\<lparr>sv_file := Some []\<rparr>) = Some (sample_server tree_db\<lparr>sv_file := Some []\<rparr>)"
  using file_mode_gap [of "sample_server tree_db\<lparr>sv_file := Some []\<rparr>" "[]"
      "[(''type'', JStr ''request.logged''), (''data'', JObj [(''rule_id'', JNum 9)])]" "[(''rule_id'', JNum 9)]" 9 sample_env "[]"]
  by (simp add: obj_get_def rule_exists_def sample_server_def tree_db_def sample_rule_def)

theorem sighup_effect_witness:
  "\<exists>sv'. on_sighup sample_env (sample_server tree_db) = Some sv' \<and> sv' = sample_server tree_db"
  using sighup_effect [OF sample_server_ok [OF tree_db_ok], of sample_env]
  by (simp add: sample_env_def load_config_def)

theorem malformed_line_stops_witness: "on_data sample_env (''x'' @ [newline]) (sample_server tree_db) = None"
proof -
  have "to_utf8 (''x'' @ [newline]) = ''x'' @ [newline]" by (rule to_utf8_ascii) (simp add: code_def)
  moreover have "trim ''x'' = ''x''" by (simp add: trim_def trim_ws_def)
  moreover have "json_parse ''x'' = None" by code_simp
  ultimately show ?thesis
    using malformed_line_stops [of "''x''" "sample_server tree_db" sample_env]
    by (simp add: sample_server_def ipc_start_def ipc_new_def)
qed

end
