(* ===== verification/Api.thy ===== *)
theory Api
  imports Server
begin

text \<open>
  The management API of \<open>api/*.js\<close>: the two authentications, one handler per route, the error handler and
  the order in which \<open>index.js\<close> mounts them. A request is its route with the typed values the handler reads
  from path, query and body (an id that is not a number, and an absent or null value, is \<open>None\<close>), and its
  Authorization header. A handler returns the state and either a response or the error passed to
  \<open>next\<close>; what it did before an error stays done. \<open>None\<close> is a server that does not go on.
\<close>

section \<open>Responses\<close>

datatype body = NoBody | Json json | Bytes bytes | EventStream

record response =
  rs_status :: nat
  rs_challenge :: bool
  rs_body :: body

type_synonym outcome_of = "(server \<times> (js_error + response)) option"

definition reply :: "nat \<Rightarrow> json \<Rightarrow> response" where
  "reply status v = \<lparr>rs_status = status, rs_challenge = False, rs_body = Json v\<rparr>"

definition error_json :: "string \<Rightarrow> json" where
  "error_json text = JObj [(''error'', JStr text)]"

definition no_content :: response where
  "no_content = \<lparr>rs_status = 204, rs_challenge = False, rs_body = NoBody\<rparr>"

definition ok_json :: json where
  "ok_json = JObj [(''ok'', JBool True)]"

text \<open>The messages of the errors the code itself makes; those of the libraries are a parameter.\<close>

definition error_text :: "env \<Rightarrow> js_error \<Rightarrow> string" where
  "error_text e err =
     (case err of
        CycleSelf \<Rightarrow> ''cycle: self-reference not allowed''
      | CycleLoop \<Rightarrow> ''cycle: adding this relationship would create a cycle''
      | ReadOnly \<Rightarrow> ''Rules are read-only in file mode''
      | _ \<Rightarrow> e_message e err)"

text \<open>\<open>errorHandler\<close>: none of these errors carries a \<open>status\<close>.\<close>

definition error_handler :: "env \<Rightarrow> js_error \<Rightarrow> response" where
  "error_handler e err =
     reply 500 (error_json (if error_text e err = [] then ''Internal server error'' else error_text e err))"

section \<open>Basic authentication\<close>

text \<open>\<open>Buffer.from(text, 'base64')\<close>: both alphabets, other characters are skipped, spare bits are dropped.\<close>

definition base64_value :: "char \<Rightarrow> nat option" where
  "base64_value c =
     (let n = code c in
      if 65 \<le> n \<and> n \<le> 90 then Some (n - 65)
      else if 97 \<le> n \<and> n \<le> 122 then Some (n - 71)
      else if 48 \<le> n \<and> n \<le> 57 then Some (n + 4)
      else if c = CHR ''+'' \<or> c = CHR ''-'' then Some 62
      else if c = CHR ''/'' \<or> c = CHR ''_'' then Some 63
      else None)"

fun base64_bytes :: "nat list \<Rightarrow> string" where
  "base64_bytes (a # b # c # d # rest) =
     char_of (4 * a + b div 16) # char_of (16 * (b mod 16) + c div 4) # char_of (64 * (c mod 4) + d)
       # base64_bytes rest"
| "base64_bytes [a, b, c] = [char_of (4 * a + b div 16), char_of (16 * (b mod 16) + c div 4)]"
| "base64_bytes [a, b] = [char_of (4 * a + b div 16)]"
| "base64_bytes _ = []"

definition base64_decode :: "string \<Rightarrow> string" where
  "base64_decode s = base64_bytes (List.map_filter base64_value s)"

definition unauthorized :: response where
  "unauthorized = \<lparr>rs_status = 401, rs_challenge = True, rs_body = Json (error_json ''Unauthorized'')\<rparr>"

definition credentials :: "string \<Rightarrow> (string \<times> string) option" where
  "credentials header =
     (if take 6 header \<noteq> ''Basic '' then None
      else
        (let decoded = to_utf8 (base64_decode (drop 6 header)) in
         if CHR '':'' \<notin> set decoded then None
         else Some (takeWhile (\<lambda>c. c \<noteq> CHR '':'') decoded, tl (dropWhile (\<lambda>c. c \<noteq> CHR '':'') decoded))))"

definition basic_auth :: "object \<Rightarrow> string option \<Rightarrow> bool" where
  "basic_auth auth_map header =
     (case header of
        None \<Rightarrow> False
      | Some h \<Rightarrow>
          (case credentials h of
             None \<Rightarrow> False
           | Some (user, pass) \<Rightarrow>
               (case obj_get auth_map user of Some (JStr p) \<Rightarrow> p \<noteq> [] \<and> p = pass | _ \<Rightarrow> False)))"

section \<open>Rules\<close>

text \<open>The operations of the store in use.\<close>

definition rules_list_json :: "server \<Rightarrow> js_error + json list" where
  "rules_list_json sv =
     (case sv_file sv of
        None \<Rightarrow> (case list_rules (sv_db sv) None of Inl err \<Rightarrow> Inl err | Inr rs \<Rightarrow> Inr (map rule_json rs))
      | Some rules \<Rightarrow> (case file_list rules of Inl err \<Rightarrow> Inl err | Inr rs \<Rightarrow> Inr (map file_rule_json rs)))"

definition rules_get_json :: "server \<Rightarrow> int option \<Rightarrow> js_error + json option" where
  "rules_get_json sv i =
     (case sv_file sv of
        None \<Rightarrow> (case get_rule (sv_db sv) i of Inl err \<Rightarrow> Inl err | Inr r \<Rightarrow> Inr (map_option rule_json r))
      | Some rules \<Rightarrow> (case file_get rules i of Inl err \<Rightarrow> Inl err | Inr r \<Rightarrow> Inr (map_option file_rule_json r)))"

text \<open>The matched rule and its action; the file store ignores the policy.\<close>

definition rules_match :: "env \<Rightarrow> server \<Rightarrow> string \<Rightarrow> string \<Rightarrow> int option \<Rightarrow> (json \<times> string) option" where
  "rules_match e sv url meth policy =
     (case sv_file sv of
        None \<Rightarrow> map_option (\<lambda>r. (rule_json r, r_action r)) (match_rule (e_rx e) (sv_db sv) url meth policy)
      | Some rules \<Rightarrow> map_option (\<lambda>r. (file_rule_json r, r_action r)) (file_match (e_rx e) rules url meth))"

definition rules_create :: "server \<Rightarrow> rule_input \<Rightarrow> js_error + server \<times> rule option" where
  "rules_create sv inp =
     (case sv_file sv of
        None \<Rightarrow>
          (case create_rule (sv_db sv) inp of Inl err \<Rightarrow> Inl err | Inr (d, r) \<Rightarrow> Inr (sv\<lparr>sv_db := d\<rparr>, r))
      | Some rules \<Rightarrow>
          (case file_create rules inp of Inl err \<Rightarrow> Inl err | Inr (rules', r) \<Rightarrow> Inr (sv\<lparr>sv_file := Some rules'\<rparr>, None)))"

definition rules_update :: "server \<Rightarrow> int option \<Rightarrow> rule_change list \<Rightarrow> js_error + server \<times> rule option" where
  "rules_update sv i changes =
     (case sv_file sv of
        None \<Rightarrow>
          (case update_rule (sv_db sv) i changes of Inl err \<Rightarrow> Inl err | Inr (d, r) \<Rightarrow> Inr (sv\<lparr>sv_db := d\<rparr>, r))
      | Some rules \<Rightarrow>
          (case file_update rules i changes of
             Inl err \<Rightarrow> Inl err | Inr (rules', r) \<Rightarrow> Inr (sv\<lparr>sv_file := Some rules'\<rparr>, None)))"

definition rules_delete :: "server \<Rightarrow> int option \<Rightarrow> js_error + server" where
  "rules_delete sv i =
     (case sv_file sv of
        None \<Rightarrow> Inr (sv\<lparr>sv_db := delete_rule (sv_db sv) i\<rparr>)
      | Some rules \<Rightarrow>
          (case file_delete rules i of Inl err \<Rightarrow> Inl err | Inr rules' \<Rightarrow> Inr (sv\<lparr>sv_file := Some rules'\<rparr>)))"

text \<open>The file store has no \<open>moveToPolicy\<close>.\<close>

definition rules_move :: "server \<Rightarrow> int option \<Rightarrow> int option \<Rightarrow> js_error + server \<times> rule option" where
  "rules_move sv i policy =
     (case sv_file sv of
        None \<Rightarrow>
          (case move_to_policy (sv_db sv) i policy of Inl err \<Rightarrow> Inl err | Inr (d, r) \<Rightarrow> Inr (sv\<lparr>sv_db := d\<rparr>, r))
      | Some rules \<Rightarrow> Inl TypeErr)"

definition source_is_file :: "server \<Rightarrow> bool" where
  "source_is_file sv \<longleftrightarrow> field (sv_config sv) ''rules'' ''source'' = Some (JStr ''file'')"

definition read_only_reply :: response where
  "read_only_reply = reply 403 (error_json ''Rules are read-only in file mode'')"

text \<open>\<open>sendRulesReload\<close>: the whole list of the store, without agents.\<close>

definition send_rules_reload :: "env \<Rightarrow> server \<Rightarrow> js_error + server" where
  "send_rules_reload e sv =
     (case rules_list_json sv of
        Inl err \<Rightarrow> Inl err
      | Inr rules \<Rightarrow> Inr (send_msg e [(''type'', JStr ''rules.reload''), (''data'', JArr rules)] sv))"

definition get_rules :: "server \<Rightarrow> js_error + response" where
  "get_rules sv = (case rules_list_json sv of Inl err \<Rightarrow> Inl err | Inr rules \<Rightarrow> Inr (reply 200 (JArr rules)))"

definition get_rule_by_id :: "server \<Rightarrow> int option \<Rightarrow> js_error + response" where
  "get_rule_by_id sv i =
     (case rules_get_json sv i of
        Inl err \<Rightarrow> Inl err
      | Inr None \<Rightarrow> Inr (reply 404 (error_json ''Rule not found''))
      | Inr (Some r) \<Rightarrow> Inr (reply 200 r))"

definition test_rule :: "env \<Rightarrow> server \<Rightarrow> string \<Rightarrow> string \<Rightarrow> response" where
  "test_rule e sv url meth =
     (case rules_match e sv url meth None of
        Some (r, act) \<Rightarrow> reply 200 (JObj [(''match'', r), (''decision'', JStr act)])
      | None \<Rightarrow> reply 200 (JObj ((''match'', JNull) #
          (case obj_get (sv_config sv) ''default_behavior'' of None \<Rightarrow> [] | Some v \<Rightarrow> [(''decision'', v)]))))"

definition rule_id_json :: "rule \<Rightarrow> json" where
  "rule_id_json r = JObj [(''rule_id'', JNum (r_id r))]"

definition post_rule :: "env \<Rightarrow> rule_input \<Rightarrow> server \<Rightarrow> server \<times> (js_error + response)" where
  "post_rule e inp sv =
     (if source_is_file sv then (sv, Inr read_only_reply)
      else
        (case rules_create sv inp of
           Inl err \<Rightarrow> (sv, Inl err)
         | Inr (sv1, r) \<Rightarrow>
             (case send_rules_reload e sv1 of
                Inl err \<Rightarrow> (sv1, Inl err)
              | Inr sv2 \<Rightarrow>
                  (case r of
                     None \<Rightarrow> (sv2, Inl TypeErr)
                   | Some rule \<Rightarrow>
                       (emit_event ''rules.changed'' (rule_id_json rule) sv2, Inr (reply 201 (rule_json rule)))))))"

definition put_rule :: "env \<Rightarrow> int option \<Rightarrow> rule_change list \<Rightarrow> server \<Rightarrow> server \<times> (js_error + response)" where
  "put_rule e i changes sv =
     (if source_is_file sv then (sv, Inr read_only_reply)
      else
        (case rules_update sv i changes of
           Inl err \<Rightarrow> (sv, Inl err)
         | Inr (sv1, None) \<Rightarrow> (sv1, Inr (reply 404 (error_json ''Rule not found'')))
         | Inr (sv1, Some rule) \<Rightarrow>
             (case send_rules_reload e sv1 of
                Inl err \<Rightarrow> (sv1, Inl err)
              | Inr sv2 \<Rightarrow>
                  (emit_event ''rules.changed'' (rule_id_json rule) sv2, Inr (reply 200 (rule_json rule))))))"

definition delete_rule_route :: "env \<Rightarrow> int option \<Rightarrow> server \<Rightarrow> server \<times> (js_error + response)" where
  "delete_rule_route e i sv =
     (if source_is_file sv then (sv, Inr read_only_reply)
      else
        (case rules_delete sv i of
           Inl err \<Rightarrow> (sv, Inl err)
         | Inr sv1 \<Rightarrow>
             (case send_rules_reload e sv1 of
                Inl err \<Rightarrow> (sv1, Inl err)
              | Inr sv2 \<Rightarrow> (emit_event ''rules.changed'' (JObj []) sv2, Inr no_content))))"

definition move_rule :: "env \<Rightarrow> int option \<Rightarrow> int option \<Rightarrow> server \<Rightarrow> outcome_of" where
  "move_rule e i policy sv =
     (if source_is_file sv then Some (sv, Inr read_only_reply)
      else
        (case rules_move sv i policy of
           Inl err \<Rightarrow> Some (sv, Inl err)
         | Inr (sv1, None) \<Rightarrow> Some (sv1, Inr (reply 404 (error_json ''Rule not found'')))
         | Inr (sv1, Some rule) \<Rightarrow>
             (case send_agent_rules_reload e sv1 of
                None \<Rightarrow> None
              | Some (Inl err) \<Rightarrow> Some (sv1, Inl err)
              | Some (Inr sv2) \<Rightarrow>
                  Some (emit_event ''rules.changed'' (rule_id_json rule) sv2, Inr (reply 200 (rule_json rule))))))"

section \<open>Policies\<close>

definition policy_entries :: "policy \<Rightarrow> object" where
  "policy_entries p =
     [(''id'', JNum (p_id p)), (''name'', JStr (p_name p)), (''description'', JStr (p_description p)),
      (''created_at'', JStr (p_created_at p))]"

definition policy_json :: "policy \<Rightarrow> json" where
  "policy_json p = JObj (policy_entries p)"

text \<open>
  The tail of the policy routes: \<open>await sendAgentRulesReload()\<close>, the event, the response.
\<close>

definition policies_changed :: "env \<Rightarrow> json \<Rightarrow> response \<Rightarrow> server \<Rightarrow> outcome_of" where
  "policies_changed e data resp sv =
     (case send_agent_rules_reload e sv of
        None \<Rightarrow> None
      | Some (Inl err) \<Rightarrow> Some (sv, Inl err)
      | Some (Inr sv1) \<Rightarrow> Some (emit_event ''policies.changed'' data sv1, Inr resp))"

definition policy_id_json :: "int option \<Rightarrow> json" where
  "policy_id_json i = JObj [(''policy_id'', opt_num i)]"

definition get_policies :: "server \<Rightarrow> response" where
  "get_policies sv = reply 200 (JArr (map policy_json (list_policies (sv_db sv))))"

definition match_policies :: "env \<Rightarrow> server \<Rightarrow> string \<Rightarrow> string \<Rightarrow> response" where
  "match_policies e sv url meth =
     reply 200 (JArr (map policy_json
       (filter (\<lambda>p. rules_match e sv url meth (Some (p_id p)) \<noteq> None) (list_policies (sv_db sv)))))"

definition get_policy_by_id :: "server \<Rightarrow> int option \<Rightarrow> response" where
  "get_policy_by_id sv i =
     (case get_policy (sv_db sv) i of
        None \<Rightarrow> reply 404 (error_json ''Policy not found'')
      | Some p \<Rightarrow> reply 200 (JObj (policy_entries p @
          [(''agents'', JArr (map (\<lambda>(a, name). JObj [(''id'', JNum a), (''name'', JStr name)])
                              (get_policy_agents (sv_db sv) i))),
           (''children'', JArr (map policy_json (get_children (sv_db sv) i)))])))"

definition post_policy :: "env \<Rightarrow> string option \<Rightarrow> string option \<Rightarrow> server \<Rightarrow> outcome_of" where
  "post_policy e name description sv =
     (case create_policy (e_clock e) (sv_db sv) name description of
        Inl err \<Rightarrow> Some (sv, Inl err)
      | Inr (d, p) \<Rightarrow>
          (case send_agent_rules_reload e (sv\<lparr>sv_db := d\<rparr>) of
             None \<Rightarrow> None
           | Some (Inl err) \<Rightarrow> Some (sv\<lparr>sv_db := d\<rparr>, Inl err)
           | Some (Inr sv1) \<Rightarrow>
               (case p of
                  None \<Rightarrow> Some (sv1, Inl TypeErr)
                | Some pol \<Rightarrow>
                    Some (emit_event ''policies.changed'' (policy_id_json (Some (p_id pol))) sv1,
                          Inr (reply 201 (policy_json pol))))))"

definition put_policy :: "env \<Rightarrow> int option \<Rightarrow> policy_change list \<Rightarrow> server \<Rightarrow> outcome_of" where
  "put_policy e i changes sv =
     (case update_policy (sv_db sv) i changes of
        Inl err \<Rightarrow> Some (sv, Inl err)
      | Inr (d, None) \<Rightarrow> Some (sv\<lparr>sv_db := d\<rparr>, Inr (reply 404 (error_json ''Policy not found'')))
      | Inr (d, Some pol) \<Rightarrow>
          policies_changed e (policy_id_json (Some (p_id pol))) (reply 200 (policy_json pol)) (sv\<lparr>sv_db := d\<rparr>))"

definition delete_policy_route :: "env \<Rightarrow> int option \<Rightarrow> server \<Rightarrow> outcome_of" where
  "delete_policy_route e i sv =
     policies_changed e (JObj []) no_content (sv\<lparr>sv_db := delete_policy (sv_db sv) i\<rparr>)"

text \<open>An error whose message speaks of a cycle is a conflict; \<open>cyclic\<close> is the test \<open>/cycle/i\<close>.\<close>

definition cyclic :: "string \<Rightarrow> bool" where
  "cyclic text \<longleftrightarrow> sql_like ''%cycle%'' text"

definition child_conflict :: "env \<Rightarrow> js_error \<Rightarrow> js_error + response" where
  "child_conflict e err = (if cyclic (error_text e err) then Inr (reply 409 (error_json (error_text e err))) else Inl err)"

definition post_child :: "env \<Rightarrow> int option \<Rightarrow> int option \<Rightarrow> server \<Rightarrow> outcome_of" where
  "post_child e i child sv =
     (case add_child (sv_db sv) i child of
        None \<Rightarrow> None
      | Some (Inl err) \<Rightarrow> Some (sv, child_conflict e err)
      | Some (Inr d) \<Rightarrow>
          (case policies_changed e (policy_id_json i) (reply 201 ok_json) (sv\<lparr>sv_db := d\<rparr>) of
             None \<Rightarrow> None
           | Some (sv1, Inl err) \<Rightarrow> Some (sv1, child_conflict e err)
           | Some (sv1, Inr resp) \<Rightarrow> Some (sv1, Inr resp)))"

definition delete_child :: "env \<Rightarrow> int option \<Rightarrow> int option \<Rightarrow> server \<Rightarrow> outcome_of" where
  "delete_child e i child sv =
     policies_changed e (policy_id_json i) no_content (sv\<lparr>sv_db := remove_child (sv_db sv) i child\<rparr>)"

definition post_policy_agent :: "env \<Rightarrow> int option \<Rightarrow> int option \<Rightarrow> server \<Rightarrow> outcome_of" where
  "post_policy_agent e i agent sv =
     (case assign_to_agent (sv_db sv) i agent of
        Inl err \<Rightarrow> Some (sv, Inl err)
      | Inr d \<Rightarrow> policies_changed e (policy_id_json i) (reply 201 ok_json) (sv\<lparr>sv_db := d\<rparr>))"

definition delete_policy_agent :: "env \<Rightarrow> int option \<Rightarrow> int option \<Rightarrow> server \<Rightarrow> outcome_of" where
  "delete_policy_agent e i agent sv =
     policies_changed e (policy_id_json i) no_content (sv\<lparr>sv_db := unassign_from_agent (sv_db sv) i agent\<rparr>)"

section \<open>Agents\<close>

definition agent_entries :: "agent \<Rightarrow> object" where
  "agent_entries a =
     [(''id'', JNum (a_id a)), (''name'', JStr (a_name a)), (''description'', JStr (a_description a)),
      (''enabled'', JBool (a_enabled a)), (''request_count'', JNum (a_request_count a)),
      (''created_at'', JStr (a_created_at a)), (''ip_address'', opt_str (a_ip_address a))]"

definition agent_json :: "agent \<Rightarrow> json" where
  "agent_json a = JObj (agent_entries a)"

definition send_agents_reload :: "env \<Rightarrow> server \<Rightarrow> server" where
  "send_agents_reload e sv = send_msg e (ip_mapping_msg (sv_db sv)) (send_msg e (agents_reload_msg (sv_db sv)) sv)"

definition get_agents :: "server \<Rightarrow> response" where
  "get_agents sv = reply 200 (JArr (map agent_json (list_agents (sv_db sv))))"

definition agent_missing :: response where
  "agent_missing = reply 404 (error_json ''Agent not found'')"

definition get_agent_by_id :: "server \<Rightarrow> int option \<Rightarrow> response" where
  "get_agent_by_id sv i =
     (case get_agent (sv_db sv) i of None \<Rightarrow> agent_missing | Some a \<Rightarrow> reply 200 (agent_json a))"

definition post_agent :: "env \<Rightarrow> string option \<Rightarrow> string option \<Rightarrow> server \<Rightarrow> server \<times> (js_error + response)" where
  "post_agent e name description sv =
     (case create_agent (e_hash e) (e_clock e) (e_token e) (sv_db sv) name description of
        Inl err \<Rightarrow> (sv, Inl err)
      | Inr (d, a, token) \<Rightarrow>
          (send_agents_reload e (sv\<lparr>sv_db := d\<rparr>),
           Inr (reply 201 (JObj (agent_entries a @ [(''token'', JStr token)])))))"

definition put_agent :: "env \<Rightarrow> int option \<Rightarrow> agent_fields \<Rightarrow> server \<Rightarrow> server \<times> (js_error + response)" where
  "put_agent e i f sv =
     (case update_agent (sv_db sv) i f of
        Inl err \<Rightarrow> (sv, Inl err)
      | Inr (d, None) \<Rightarrow> (sv\<lparr>sv_db := d\<rparr>, Inr agent_missing)
      | Inr (d, Some a) \<Rightarrow> (send_agents_reload e (sv\<lparr>sv_db := d\<rparr>), Inr (reply 200 (agent_json a))))"

definition delete_agent_route :: "env \<Rightarrow> int option \<Rightarrow> server \<Rightarrow> server \<times> (js_error + response)" where
  "delete_agent_route e i sv =
     (send_agents_reload e (sv\<lparr>sv_db := delete_agent (sv_db sv) i\<rparr>), Inr no_content)"

definition rotate_agent_token :: "env \<Rightarrow> int option \<Rightarrow> server \<Rightarrow> server \<times> (js_error + response)" where
  "rotate_agent_token e i sv =
     (case rotate_token (e_hash e) (e_token e) (sv_db sv) i of
        (d, None) \<Rightarrow> (sv\<lparr>sv_db := d\<rparr>, Inr agent_missing)
      | (d, Some token) \<Rightarrow>
          (send_agents_reload e (sv\<lparr>sv_db := d\<rparr>), Inr (reply 200 (JObj [(''token'', JStr token)]))))"

text \<open>\<open>POST /api/agents/register-ip\<close>, with the credentials of the agent itself.\<close>

definition given :: "string option \<Rightarrow> bool" where
  "given v \<longleftrightarrow> v \<noteq> None \<and> v \<noteq> Some []"

definition register_ip_route ::
  "env \<Rightarrow> string option \<Rightarrow> string option \<Rightarrow> string option \<Rightarrow> server \<Rightarrow> server \<times> (js_error + response)" where
  "register_ip_route e name token ip sv =
     (if \<not> given name \<or> \<not> given token \<or> \<not> given ip
      then (sv, Inr (reply 400 (error_json ''name, token, and ip_address required'')))
      else
        (case authenticate (e_compare e) (sv_db sv) (the name) (the token) of
           None \<Rightarrow> (sv, Inr (reply 401 (error_json ''Invalid agent credentials'')))
         | Some a \<Rightarrow>
             (let sv1 = sv\<lparr>sv_db := register_ip (sv_db sv) (Some (a_id a)) ip\<rparr>
              in (send_msg e (ip_mapping_msg (sv_db sv1)) sv1, Inr (reply 200 ok_json)))))"

section \<open>Approvals\<close>

definition approval_entries :: "approval_row \<Rightarrow> object" where
  "approval_entries q =
     [(''id'', JNum (aq_id q)), (''request_log_id'', JNum (aq_request_log_id q)),
      (''ipc_msg_id'', opt_str (aq_ipc_msg_id q)), (''status'', JStr (aq_status q)),
      (''created_at'', JStr (aq_created_at q)), (''resolved_at'', opt_str (aq_resolved_at q)),
      (''resolved_by'', opt_str (aq_resolved_by q)), (''create_rule'', JNum (aq_create_rule q)),
      (''suggested_pattern'', opt_str (aq_suggested_pattern q)),
      (''suggested_methods'', opt_str (aq_suggested_methods q))]"

definition get_approvals :: "server \<Rightarrow> response" where
  "get_approvals sv = reply 200 (JArr (map (\<lambda>(q, req). JObj (approval_entries q @
     [(''method'', opt_str (map_option fst req)), (''url'', opt_str (map_option snd req))])) (list_pending (sv_db sv))))"

definition approval_resolve_msg :: "approval_row \<Rightarrow> string \<Rightarrow> message" where
  "approval_resolve_msg q act =
     [(''type'', JStr ''approval.resolve''), (''ref'', opt_str (aq_ipc_msg_id q)),
      (''data'', JObj [(''action'', JStr act)])]"

definition suggested_rule :: "approval_row \<Rightarrow> string \<Rightarrow> string \<Rightarrow> string list \<Rightarrow> rule_input" where
  "suggested_rule q act pattern ms =
     \<lparr>ri_name = Some (''Auto: '' @ pattern), ri_url_pattern = Some pattern, ri_methods = Some ms,
      ri_action = Some (if act = ''approve'' then ''allow'' else ''deny''), ri_priority = Some 50, ri_agent_id = None,
      ri_log_request_body = None, ri_log_response_body = None, ri_default_behavior = None,
      ri_enabled = Some True, ri_policy_id = None\<rparr>"

text \<open>The optional rule: it has no policy, and the reload message has no data.\<close>

definition auto_rule :: "env \<Rightarrow> approval_row \<Rightarrow> string \<Rightarrow> bool \<Rightarrow> server \<Rightarrow> js_error + server" where
  "auto_rule e q act wanted sv =
     (if \<not> (wanted \<and> given (aq_suggested_pattern q)) then Inr sv
      else
        (case (if given (aq_suggested_methods q) then json_strings (the (aq_suggested_methods q)) else Some []) of
           None \<Rightarrow> Inl SyntaxErr
         | Some ms \<Rightarrow>
             (case rules_create sv (suggested_rule q act (the (aq_suggested_pattern q)) ms) of
                Inl err \<Rightarrow> Inl err
              | Inr (sv1, r) \<Rightarrow>
                  Inr (emit_event ''rules.changed'' (JObj []) (send_msg e [(''type'', JStr ''rules.reload'')] sv1)))))"

definition resolve_approval ::
  "env \<Rightarrow> int option \<Rightarrow> string option \<Rightarrow> bool \<Rightarrow> server \<Rightarrow> server \<times> (js_error + response)" where
  "resolve_approval e i act wanted sv =
     (if act \<notin> {Some ''approve'', Some ''reject''}
      then (sv, Inr (reply 400 (error_json ''action must be \"approve\" or \"reject\"'')))
      else
        (case resolve (e_clock e) (sv_db sv) i
                \<lparr>re_action = act, re_resolved_by = Some ''api'', re_create_rule = wanted\<rparr> of
           Inl err \<Rightarrow> (sv, Inl err)
         | Inr (d, None) \<Rightarrow>
             (sv\<lparr>sv_db := d\<rparr>, Inr (reply 404 (error_json ''Approval not found or already resolved'')))
         | Inr (d, Some q) \<Rightarrow>
             (let sv1 = send_msg e (approval_resolve_msg q (the act)) (sv\<lparr>sv_db := d\<rparr>) in
              case auto_rule e q (the act) wanted sv1 of
                Inl err \<Rightarrow> (sv1, Inl err)
              | Inr sv2 \<Rightarrow>
                  (emit_event ''approval.resolved'' (JObj [(''id'', JNum (aq_id q)), (''action'', JStr (the act))]) sv2,
                   Inr (reply 200 (JObj (approval_entries q)))))))"

section \<open>Logs\<close>

record log_query =
  lq_text :: "string \<Rightarrow> string option"
  lq_limit :: "string option"
  lq_offset :: "string option"

definition int_or :: "int \<Rightarrow> string option \<Rightarrow> int" where
  "int_or dflt v =
     (case v of None \<Rightarrow> dflt
      | Some s \<Rightarrow> (case parse_int s of None \<Rightarrow> dflt | Some n \<Rightarrow> if n = 0 then dflt else n))"

definition nonempty :: "string option \<Rightarrow> string option" where
  "nonempty v = (if given v then v else None)"

definition query_filter :: "log_query \<Rightarrow> log_filter" where
  "query_filter q =
     \<lparr>lf_method = nonempty (lq_text q ''method''), lf_decision = nonempty (lq_text q ''decision''),
      lf_url = nonempty (lq_text q ''url''), lf_from = nonempty (lq_text q ''from''), lf_to = nonempty (lq_text q ''to''),
      lf_agent_id = nonempty (lq_text q ''agent_id''), lf_mode = nonempty (lq_text q ''mode''),
      lf_limit = Some (int_or 50 (lq_limit q)), lf_offset = Some (int_or 0 (lq_offset q))\<rparr>"

definition log_json :: "log_row \<Rightarrow> json" where
  "log_json l = JObj
     [(''id'', JNum (lr_id l)), (''timestamp'', JStr (lr_timestamp l)), (''method'', JStr (lr_method l)),
      (''url'', JStr (lr_url l)), (''request_headers'', opt_str (lr_request_headers l)),
      (''request_body_ref'', opt_str (lr_request_body_ref l)), (''response_status'', opt_num (lr_response_status l)),
      (''response_headers'', opt_str (lr_response_headers l)), (''response_body_ref'', opt_str (lr_response_body_ref l)),
      (''duration_ms'', opt_num (lr_duration_ms l)), (''rule_id'', opt_num (lr_rule_id l)),
      (''decision'', JStr (lr_decision l)), (''agent_id'', opt_str (lr_agent_id l)), (''mode'', opt_str (lr_mode l))]"

definition get_logs :: "server \<Rightarrow> log_query \<Rightarrow> response" where
  "get_logs sv q = reply 200 (JArr (map log_json (query_log (sv_db sv) (query_filter q))))"

definition log_missing :: response where
  "log_missing = reply 404 (error_json ''Log entry not found'')"

definition get_log_by_id :: "server \<Rightarrow> int option \<Rightarrow> response" where
  "get_log_by_id sv i = (case get_log (sv_db sv) i of None \<Rightarrow> log_missing | Some l \<Rightarrow> reply 200 (log_json l))"

text \<open>\<open>ref.split(':')\<close>, of which the first three parts are used.\<close>

fun split_colon :: "string \<Rightarrow> string list" where
  "split_colon [] = [[]]"
| "split_colon (c # s) =
     (if c = CHR '':'' then [] # split_colon s
      else (case split_colon s of [] \<Rightarrow> [[c]] | part # parts \<Rightarrow> (c # part) # parts))"

definition part_int :: "string list \<Rightarrow> nat \<Rightarrow> int option" where
  "part_int parts k = (if k < length parts then parse_int (parts ! k) else None)"

text \<open>\<open>path.replace(/\/[^/]+$/, '')\<close>: the last component goes, unless it is empty.\<close>

definition data_dir_of :: "string \<Rightarrow> string" where
  "data_dir_of path =
     (let rest = dropWhile (\<lambda>c. c \<noteq> CHR ''/'') (rev path) in
      if rest = [] \<or> last (CHR ''/'' # path) = CHR ''/'' then path else rev (tl rest))"

definition body_path :: "string \<Rightarrow> string \<Rightarrow> string" where
  "body_path db_path file =
     (if take 5 file = ''logs/'' then data_dir_of db_path @ ''/'' @ file else data_dir_of db_path @ ''/logs/'' @ file)"

datatype body_field = RequestBodyRef | ResponseBodyRef

definition ref_of :: "body_field \<Rightarrow> log_row \<Rightarrow> string option" where
  "ref_of k l = (case k of RequestBodyRef \<Rightarrow> lr_request_body_ref l | ResponseBodyRef \<Rightarrow> lr_response_body_ref l)"

text \<open>
  \<open>streamBody\<close>: \<open>Buffer.alloc\<close> throws on a length that is not a number or negative, the read on such an
  offset; \<open>e_read_at path n off\<close> is the buffer of n bytes after the read at the offset (\<open>None\<close> when the file cannot be opened or read).
\<close>

definition stream_body :: "env \<Rightarrow> server \<Rightarrow> int option \<Rightarrow> body_field \<Rightarrow> js_error + response" where
  "stream_body e sv i k =
     (case get_log (sv_db sv) i of
        None \<Rightarrow> Inr log_missing
      | Some l \<Rightarrow>
          if \<not> given (ref_of k l) then Inr (reply 404 (error_json ''No body recorded''))
          else
            (let parts = split_colon (the (ref_of k l)); off = part_int parts 1 in
             case field (sv_config sv) ''database'' ''path'' of
               Some (JStr db_path) \<Rightarrow>
                 (case (part_int parts 2, off) of
                    (Some len, Some n) \<Rightarrow>
                      if len < 0 then Inl TypeErr
                      else
                        (case e_read_at e (body_path db_path (hd parts)) (nat len) n of
                           None \<Rightarrow> Inl TypeErr
                         | Some buf \<Rightarrow>
                             (case decrypt_record (e_hkdf e) (e_gcm_dec e) (sv_log_key sv) n buf of
                                Inl err \<Rightarrow> Inl err
                              | Inr plain \<Rightarrow> Inr \<lparr>rs_status = 200, rs_challenge = False, rs_body = Bytes plain\<rparr>))
                  | _ \<Rightarrow> Inl TypeErr)
             | _ \<Rightarrow> Inl TypeErr))"

section \<open>Status\<close>

definition get_status_route :: "env \<Rightarrow> server \<Rightarrow> js_error + response" where
  "get_status_route e sv =
     (case rules_list_json sv of
        Inl err \<Rightarrow> Inl err
      | Inr rules \<Rightarrow>
          (let st = get_status (e_now e) (sv_proxy sv);
               opt = (\<lambda>k v. case v of None \<Rightarrow> [] | Some x \<Rightarrow> [(k, x)])
           in Inr (reply 200 (JObj (
             [(''version'', JStr (case e_environ e ''ASHP_VERSION'' of None \<Rightarrow> ''dev'' | Some s \<Rightarrow> if s = [] then ''dev'' else s)),
              (''commit'', JStr (case e_environ e ''ASHP_COMMIT'' of None \<Rightarrow> ''unknown'' | Some s \<Rightarrow> if s = [] then ''unknown'' else s)),
              (''proxy'', JObj
                [(''running'', JBool (ps_running st)), (''pid'', opt_num (map_option int (ps_pid st))),
                 (''uptime_ms'', JNum (ps_uptime_ms st)), (''connected'', JBool (ipc_connected (sv_ipc sv)))]),
              (''management'', JObj [(''uptime_ms'', JNum (e_now e - sv_started_at sv))]),
              (''rules_count'', JNum (int (length rules)))]
             @ opt ''rules_source'' (field (sv_config sv) ''rules'' ''source'')
             @ opt ''db_path'' (field (sv_config sv) ''database'' ''path'')
             @ opt ''default_behavior'' (obj_get (sv_config sv) ''default_behavior'')
             @ [(''transparent'', JObj
                  [(''enabled'', if truthy (field (sv_config sv) ''transparent'' ''enabled'')
                                 then the (field (sv_config sv) ''transparent'' ''enabled'') else JBool False),
                   (''ports'', if truthy (field (sv_config sv) ''transparent'' ''ports'')
                               then the (field (sv_config sv) ''transparent'' ''ports'') else JArr [])])])))))"

definition get_ca_certificate :: "env \<Rightarrow> server \<Rightarrow> js_error + response" where
  "get_ca_certificate e sv =
     (case field (sv_config sv) ''database'' ''path'' of
        Some (JStr db_path) \<Rightarrow>
          (case e_read_file e (data_dir_of db_path @ ''/ca/root.crt'') of
             None \<Rightarrow> Inr (reply 404 (error_json ''CA certificate not found''))
           | Some pem \<Rightarrow> Inr \<lparr>rs_status = 200, rs_challenge = False, rs_body = Bytes pem\<rparr>)
      | _ \<Rightarrow> Inl TypeErr)"

section \<open>The application\<close>

datatype request =
    GetStatus
  | GetCaCertificate
  | RegisterIp "string option" "string option" "string option"
  | GetRules
  | GetRule "int option"
  | TestRule string string
  | PostRule rule_input
  | PutRule "int option" "rule_change list"
  | DeleteRule "int option"
  | MoveRule "int option" "int option"
  | GetLogs log_query
  | GetLog "int option"
  | GetBody "int option" body_field
  | GetApprovals
  | ResolveApproval "int option" "string option" bool
  | GetAgents
  | GetAgent "int option"
  | PostAgent "string option" "string option"
  | PutAgent "int option" agent_fields
  | DeleteAgent "int option"
  | RotateToken "int option"
  | GetPolicies
  | MatchPolicies string string
  | GetPolicy "int option"
  | PostPolicy "string option" "string option"
  | PutPolicy "int option" "policy_change list"
  | DeletePolicy "int option"
  | PostChild "int option" "int option"
  | DeleteChild "int option" "int option"
  | PostPolicyAgent "int option" "int option"
  | DeletePolicyAgent "int option" "int option"
  | GetEvents nat "string option"

text \<open>The routes mounted before the Basic Auth gate.\<close>

fun is_public :: "request \<Rightarrow> bool" where
  "is_public GetStatus = True"
| "is_public GetCaCertificate = True"
| "is_public (RegisterIp _ _ _) = True"
| "is_public _ = False"

fun route :: "env \<Rightarrow> request \<Rightarrow> server \<Rightarrow> outcome_of" where
  "route e GetStatus sv = Some (sv, get_status_route e sv)"
| "route e GetCaCertificate sv = Some (sv, get_ca_certificate e sv)"
| "route e (RegisterIp name token ip) sv = Some (register_ip_route e name token ip sv)"
| "route e GetRules sv = Some (sv, get_rules sv)"
| "route e (GetRule i) sv = Some (sv, get_rule_by_id sv i)"
| "route e (TestRule url meth) sv = Some (sv, Inr (test_rule e sv url meth))"
| "route e (PostRule inp) sv = Some (post_rule e inp sv)"
| "route e (PutRule i changes) sv = Some (put_rule e i changes sv)"
| "route e (DeleteRule i) sv = Some (delete_rule_route e i sv)"
| "route e (MoveRule i policy) sv = move_rule e i policy sv"
| "route e (GetLogs q) sv = Some (sv, Inr (get_logs sv q))"
| "route e (GetLog i) sv = Some (sv, Inr (get_log_by_id sv i))"
| "route e (GetBody i k) sv = Some (sv, stream_body e sv i k)"
| "route e GetApprovals sv = Some (sv, Inr (get_approvals sv))"
| "route e (ResolveApproval i act wanted) sv = Some (resolve_approval e i act wanted sv)"
| "route e GetAgents sv = Some (sv, Inr (get_agents sv))"
| "route e (GetAgent i) sv = Some (sv, Inr (get_agent_by_id sv i))"
| "route e (PostAgent name description) sv = Some (post_agent e name description sv)"
| "route e (PutAgent i f) sv = Some (put_agent e i f sv)"
| "route e (DeleteAgent i) sv = Some (delete_agent_route e i sv)"
| "route e (RotateToken i) sv = Some (rotate_agent_token e i sv)"
| "route e GetPolicies sv = Some (sv, Inr (get_policies sv))"
| "route e (MatchPolicies url meth) sv = Some (sv, Inr (match_policies e sv url meth))"
| "route e (GetPolicy i) sv = Some (sv, Inr (get_policy_by_id sv i))"
| "route e (PostPolicy name description) sv = post_policy e name description sv"
| "route e (PutPolicy i changes) sv = put_policy e i changes sv"
| "route e (DeletePolicy i) sv = delete_policy_route e i sv"
| "route e (PostChild i child) sv = post_child e i child sv"
| "route e (DeleteChild i child) sv = delete_child e i child sv"
| "route e (PostPolicyAgent i agent) sv = post_policy_agent e i agent sv"
| "route e (DeletePolicyAgent i agent) sv = delete_policy_agent e i agent sv"
| "route e (GetEvents client last_id) sv =
     Some (sv\<lparr>sv_events := add_client client last_id (sv_events sv)\<rparr>,
           Inr \<lparr>rs_status = 200, rs_challenge = False, rs_body = EventStream\<rparr>)"

definition handle_request :: "env \<Rightarrow> string option \<Rightarrow> request \<Rightarrow> server \<Rightarrow> (server \<times> response) option" where
  "handle_request e authorization req sv =
     (if \<not> is_public req \<and> \<not> basic_auth (sv_auth sv) authorization then Some (sv, unauthorized)
      else
        (case route e req sv of
           None \<Rightarrow> None
         | Some (sv1, Inl err) \<Rightarrow> Some (sv1, error_handler e err)
         | Some (sv1, Inr resp) \<Rightarrow> Some (sv1, resp)))"

end
