(* ===== verification/System.thy ===== *)
theory System
  imports Api
begin

text \<open>
  The running server: every input it may receive is one step, and the states it may reach from the opening
  of a database file. What the components promise separately is put together here: the invariant of all
  reachable states, that every request is answered, what a stranger may do, and that the proxy is told.
\<close>

section \<open>Steps\<close>

datatype input =
    Http "string option" request
  | ProxyConnect nat
  | ProxyData string
  | ProxyGone nat
  | ProxyExit nat "int option"
  | ProxyTimer
  | Hangup
  | ExpireTick
  | ClientGone nat

definition on_proxy_connect :: "env \<Rightarrow> nat \<Rightarrow> server \<Rightarrow> server option" where
  "on_proxy_connect e sock sv = on_connect e (sv\<lparr>sv_ipc := ipc_connect (e_uuid e) sock (sv_ipc sv)\<rparr>)"

fun server_step :: "env \<Rightarrow> input \<Rightarrow> server \<Rightarrow> server option" where
  "server_step e (Http authorization req) sv = map_option fst (handle_request e authorization req sv)"
| "server_step e (ProxyConnect sock) sv = on_proxy_connect e sock sv"
| "server_step e (ProxyData chunk) sv = on_data e chunk sv"
| "server_step e (ProxyGone sock) sv = Some (sv\<lparr>sv_ipc := ipc_gone sock (sv_ipc sv)\<rparr>)"
| "server_step e (ProxyExit pid exit_code) sv = Some (on_proxy_exit e pid exit_code sv)"
| "server_step e ProxyTimer sv = on_proxy_timer e sv"
| "server_step e Hangup sv = on_sighup e sv"
| "server_step e ExpireTick sv = Some (on_expire e sv)"
| "server_step e (ClientGone client) sv = Some (sv\<lparr>sv_events := client_closed client (sv_events sv)\<rparr>)"

inductive reachable :: "server \<Rightarrow> bool" where
  reachable_start: "file_ok f \<Longrightarrow> f_version f \<le> 4 \<Longrightarrow> run_cli e dflts f = Inr sv \<Longrightarrow> reachable sv"
| reachable_step: "reachable sv \<Longrightarrow> server_step e i sv = Some sv' \<Longrightarrow> reachable sv'"

inductive_cases reachableE: "reachable sv"

section \<open>Every route keeps the invariant and answers\<close>

text \<open>The outcome of a handler that answered in a state that satisfies the invariant.\<close>

definition answered :: "outcome_of \<Rightarrow> bool" where
  "answered x \<longleftrightarrow> (\<exists>sv res. x = Some (sv, res) \<and> server_ok sv)"

lemma answered_Some [simp]: "answered (Some (sv, res)) \<longleftrightarrow> server_ok sv"
  by (simp add: answered_def)

lemma rules_list_json_result:
  assumes "server_ok sv"
  shows "\<exists>rules. rules_list_json sv = Inr rules"
  using list_rules_ok [OF server_db_ok [OF assms]]
  by (auto simp: rules_list_json_def file_list_def split: option.splits)

lemma send_rules_reload_result:
  assumes "server_ok sv"
  shows "\<exists>rules. send_rules_reload e sv
    = Inr (send_msg e [(''type'', JStr ''rules.reload''), (''data'', JArr rules)] sv)"
  using rules_list_json_result [OF assms] by (auto simp: send_rules_reload_def)

lemma rules_create_ok: "server_ok sv \<Longrightarrow> rules_create sv inp = Inr (sv', r) \<Longrightarrow> server_ok sv'"
  by (auto simp: rules_create_def file_create_def server_ok_def create_rule_ok split: option.splits sum.splits)

lemma rules_update_ok: "server_ok sv \<Longrightarrow> rules_update sv i ch = Inr (sv', r) \<Longrightarrow> server_ok sv'"
  by (auto simp: rules_update_def file_update_def server_ok_def update_rule_ok split: option.splits sum.splits)

lemma rules_delete_ok: "server_ok sv \<Longrightarrow> rules_delete sv i = Inr sv' \<Longrightarrow> server_ok sv'"
  by (auto simp: rules_delete_def file_delete_def server_ok_def delete_rule_ok split: option.splits)

lemma rules_move_ok: "server_ok sv \<Longrightarrow> rules_move sv i p = Inr (sv', r) \<Longrightarrow> server_ok sv'"
  by (auto simp: rules_move_def server_ok_def move_to_policy_ok(1) split: option.splits sum.splits)

lemma post_rule_ok: "server_ok sv \<Longrightarrow> answered (Some (post_rule e inp sv))"
  using send_rules_reload_result [of _ e] rules_create_ok [of sv inp]
  by (fastforce simp: post_rule_def answered_def intro: emit_event_ok send_msg_ok split: sum.splits option.splits)

lemma put_rule_ok: "server_ok sv \<Longrightarrow> answered (Some (put_rule e i ch sv))"
  using send_rules_reload_result [of _ e] rules_update_ok [of sv i ch]
  by (fastforce simp: put_rule_def answered_def intro: emit_event_ok send_msg_ok split: sum.splits option.splits)

lemma delete_rule_route_ok: "server_ok sv \<Longrightarrow> answered (Some (delete_rule_route e i sv))"
  using send_rules_reload_result [of _ e] rules_delete_ok [of sv i]
  by (fastforce simp: delete_rule_route_def answered_def intro: emit_event_ok send_msg_ok split: sum.splits)

lemma send_agents: "server_ok sv \<Longrightarrow> send_agent_rules_reload e sv = Some (Inr (send_msg e (rules_reload_msg (sv_db sv)) sv))"
  by (simp add: send_agent_rules_reload_result server_db_ok)

lemma move_rule_ok: "server_ok sv \<Longrightarrow> answered (move_rule e i p sv)"
  using send_agents rules_move_ok [of sv i p]
  by (fastforce simp: move_rule_def intro: emit_event_ok send_msg_ok split: sum.splits option.splits)

lemma policies_changed_result:
  assumes "server_ok sv"
  shows "policies_changed e data resp sv
    = Some (emit_event ''policies.changed'' data (send_msg e (rules_reload_msg (sv_db sv)) sv), Inr resp)"
  by (simp add: policies_changed_def send_agents [OF assms])

lemma policies_changed_ok: "server_ok sv \<Longrightarrow> answered (policies_changed e data resp sv)"
  by (simp add: policies_changed_result emit_event_ok send_msg_ok)

lemma post_policy_ok: "server_ok sv \<Longrightarrow> answered (post_policy e name description sv)"
  using create_policy_ok [OF server_db_ok, of sv "e_clock e" name description] send_agents [OF set_db_ok]
  by (auto simp: post_policy_def intro!: emit_event_ok send_msg_ok set_db_ok split: sum.splits option.splits)

lemma put_policy_ok: "server_ok sv \<Longrightarrow> answered (put_policy e i ch sv)"
  using update_policy_ok [OF server_db_ok, of sv i ch]
  by (auto simp: put_policy_def intro!: policies_changed_ok set_db_ok split: sum.splits option.splits)

lemma delete_policy_route_ok: "server_ok sv \<Longrightarrow> answered (delete_policy_route e i sv)"
  by (auto simp: delete_policy_route_def intro!: policies_changed_ok set_db_ok delete_policy_ok server_db_ok)

lemma add_child_answers:
  assumes "db_ok d"
  shows "\<exists>x. add_child d p c = Some x"
proof -
  obtain b where "cycle_check d p c = Some b"
    using cycle_check_returns [OF edges_acyclic [OF assms], of p c] by blast
  then show ?thesis by (simp add: add_child_def)
qed

lemma post_child_ok:
  assumes "server_ok sv"
  shows "answered (post_child e i child sv)"
proof -
  obtain x where x: "add_child (sv_db sv) i child = Some x"
    using add_child_answers [OF server_db_ok [OF assms]] by blast
  show ?thesis
  proof (cases x)
    case (Inl err)
    with assms show ?thesis by (simp add: post_child_def x)
  next
    case (Inr d)
    have ok: "server_ok (sv\<lparr>sv_db := d\<rparr>)"
      using add_child_ok [OF server_db_ok [OF assms]] x Inr assms by (blast intro: set_db_ok)
    then show ?thesis
      by (simp add: post_child_def x Inr policies_changed_result [OF ok] emit_event_ok send_msg_ok)
  qed
qed

lemma delete_child_ok: "server_ok sv \<Longrightarrow> answered (delete_child e i child sv)"
  by (auto simp: delete_child_def intro!: policies_changed_ok set_db_ok remove_child_ok server_db_ok)

lemma post_policy_agent_ok: "server_ok sv \<Longrightarrow> answered (post_policy_agent e i agent sv)"
  using assign_to_agent_ok [OF server_db_ok, of sv i agent]
  by (auto simp: post_policy_agent_def intro!: policies_changed_ok set_db_ok split: sum.splits)

lemma delete_policy_agent_ok: "server_ok sv \<Longrightarrow> answered (delete_policy_agent e i agent sv)"
  by (auto simp: delete_policy_agent_def intro!: policies_changed_ok set_db_ok unassign_from_agent_ok server_db_ok)

lemma send_agents_reload_ok [keeps]: "server_ok sv \<Longrightarrow> server_ok (send_agents_reload e sv)"
  by (simp add: send_agents_reload_def send_msg_ok)

lemma post_agent_ok: "server_ok sv \<Longrightarrow> answered (Some (post_agent e name description sv))"
  using create_agent_ok [OF server_db_ok, of sv "e_hash e" "e_clock e" "e_token e" name description]
  by (auto simp: post_agent_def answered_def intro!: send_agents_reload_ok set_db_ok split: sum.splits)

lemma put_agent_ok: "server_ok sv \<Longrightarrow> answered (Some (put_agent e i f sv))"
  using update_agent_Inr(1) [OF server_db_ok, of sv i f]
  by (auto simp: put_agent_def answered_def intro!: send_agents_reload_ok set_db_ok split: sum.splits option.splits)

lemma delete_agent_route_ok: "server_ok sv \<Longrightarrow> answered (Some (delete_agent_route e i sv))"
  by (auto simp: delete_agent_route_def intro!: send_agents_reload_ok set_db_ok delete_agent_ok server_db_ok)

lemma rotate_agent_token_ok: "server_ok sv \<Longrightarrow> answered (Some (rotate_agent_token e i sv))"
  using rotate_token_ok [OF server_db_ok, of sv "e_hash e" "e_token e" i]
  by (auto simp: rotate_agent_token_def answered_def intro!: send_agents_reload_ok set_db_ok
      split: prod.splits option.splits)

lemma register_ip_route_ok: "server_ok sv \<Longrightarrow> answered (Some (register_ip_route e name token ip sv))"
  by (auto simp: register_ip_route_def answered_def Let_def intro!: send_msg_ok set_db_ok register_ip_ok server_db_ok
      split: option.splits)

lemma auto_rule_ok: "server_ok sv \<Longrightarrow> auto_rule e q act wanted sv = Inr sv' \<Longrightarrow> server_ok sv'"
  by (auto simp: auto_rule_def intro!: emit_event_ok send_msg_ok dest: rules_create_ok
      split: if_splits option.splits sum.splits)

lemma resolve_ok:
  assumes "db_ok d" "resolve c d i a = Inr (d', res)"
  shows "db_ok d'"
  by (rule resolve_Inr [OF assms]) (simp_all add: assms(1))

lemma resolve_approval_ok: "server_ok sv \<Longrightarrow> answered (Some (resolve_approval e i act wanted sv))"
  using resolve_ok [OF server_db_ok, of sv "e_clock e" i]
  by (auto simp: resolve_approval_def answered_def Let_def intro!: emit_event_ok send_msg_ok set_db_ok
      dest: auto_rule_ok [rotated] split: sum.splits option.splits)

lemma client_sizes [simp]:
  "eb_buffer_size (client_closed c b) = eb_buffer_size b" "eb_buffer_size (add_client c h b) = eb_buffer_size b"
proof -
  have "eb_buffer_size (foldl (\<lambda>b e. if x < int (ev_id e) then send_event c e b else b) b es) = eb_buffer_size b" for x b es
    by (induction es arbitrary: b) simp_all
  then show "eb_buffer_size (add_client c h b) = eb_buffer_size b"
    by (simp add: add_client_def Let_def split: option.splits)
qed (simp add: client_closed_def)

lemma get_events_ok: "server_ok sv \<Longrightarrow> server_ok (sv\<lparr>sv_events := add_client c h (sv_events sv)\<rparr>)"
  by (simp add: server_ok_def add_client_ok)

lemma route_ok: "server_ok sv \<Longrightarrow> answered (route e req sv)"
  by (cases req) (simp_all add: post_rule_ok put_rule_ok delete_rule_route_ok move_rule_ok post_policy_ok put_policy_ok
      delete_policy_route_ok post_child_ok delete_child_ok post_policy_agent_ok delete_policy_agent_ok post_agent_ok
      put_agent_ok delete_agent_route_ok rotate_agent_token_ok register_ip_route_ok resolve_approval_ok get_events_ok)

lemma handle_request_answers:
  assumes "server_ok sv"
  shows "\<exists>sv' r. handle_request e a req sv = Some (sv', r) \<and> server_ok sv'"
  using route_ok [OF assms, of e req] assms
  by (auto simp: handle_request_def answered_def split: sum.splits)

lemma server_step_ok:
  assumes ok: "server_ok sv" and step: "server_step e i sv = Some sv'"
  shows "server_ok sv'"
proof (cases i)
  case (Http a req)
  with handle_request_answers [OF ok, of e a req] step show ?thesis by auto
next
  case (ProxyConnect sock)
  have "server_ok (sv\<lparr>sv_ipc := ipc_connect (e_uuid e) sock (sv_ipc sv)\<rparr>)"
    using ok by (simp add: server_ok_def ipc_connect_ok)
  with on_connect_result [OF this, of e] step ProxyConnect show ?thesis by (auto simp: on_proxy_connect_def send_msg_ok)
next
  case (ProxyData chunk)
  with step on_data_ok [OF ok] show ?thesis by simp
next
  case (ProxyTimer)
  with step on_proxy_timer_ok [OF ok, of e] show ?thesis by auto
next
  case (Hangup)
  with step on_sighup_ok [OF ok, of e] show ?thesis by auto
next
  case (ExpireTick)
  with step on_expire_ok [OF ok, of e] show ?thesis by auto
next
  case (ClientGone c)
  with step ok show ?thesis by (auto simp: server_ok_def client_closed_ok)
next
  case (ProxyGone sock)
  with step ok show ?thesis by (auto simp: server_ok_def ipc_gone_ok)
next
  case (ProxyExit pid exit_code)
  with step ok show ?thesis by (auto simp: server_ok_def on_proxy_exit_def)
qed

lemma reachable_ok: "reachable sv \<Longrightarrow> server_ok sv"
proof (induction rule: reachable.induct)
  case (reachable_start f e dflts sv)
  then show ?case
    using start_server_ok [OF reachable_start(1,2), of e dflts]
    by (auto simp: run_cli_def set_proxy_ok split: sum.splits if_splits)
next
  case (reachable_step sv e i sv')
  then show ?case using server_step_ok by blast
qed

section \<open>Properties of the running server\<close>



text \<open>
  C5: A stranger can do nothing: a request without valid management credentials leaves the server exactly as
  it was, and gets nothing but the challenge unless its route is public; the one exception is an agent that
  registers its address with its own name and token, which changes that agent's address and tells the
  proxy, nothing else.
\<close>

theorem stranger_harmless:
  assumes "\<not> basic_auth (sv_auth sv) a" "handle_request e a req sv = Some (sv', r)"
  shows "sv' = sv \<and> (if is_public req then True else r = unauthorized)
    \<or> (\<exists>name token ip ag. req = RegisterIp (Some name) (Some token) (Some ip)
        \<and> authenticate (e_compare e) (sv_db sv) name token = Some ag
        \<and> sv' = send_msg e (ip_mapping_msg (register_ip (sv_db sv) (Some (a_id ag)) (Some ip)))
            (sv\<lparr>sv_db := register_ip (sv_db sv) (Some (a_id ag)) (Some ip)\<rparr>)
        \<and> r = reply 200 ok_json)"
proof (cases "is_public req")
  case False
  with assms show ?thesis by (simp add: handle_request_def)
next
  case True
  then consider "req = GetStatus" | "req = GetCaCertificate" | n t i where "req = RegisterIp n t i"
    by (cases req) auto
  then show ?thesis
  proof cases
    case 3
    with assms(2) show ?thesis
      by (auto simp: handle_request_def register_ip_route_def given_def Let_def split: if_splits option.splits)
  qed (use assms(2) in \<open>auto simp: handle_request_def split: sum.splits\<close>)
qed

fun changes_policies :: "request \<Rightarrow> bool" where
  "changes_policies (MoveRule _ _) = True"
| "changes_policies (PostPolicy _ _) = True"
| "changes_policies (PutPolicy _ _) = True"
| "changes_policies (DeletePolicy _) = True"
| "changes_policies (PostChild _ _) = True"
| "changes_policies (DeleteChild _ _) = True"
| "changes_policies (PostPolicyAgent _ _) = True"
| "changes_policies (DeletePolicyAgent _ _) = True"
| "changes_policies _ = False"

lemma move_to_policy_none:
  assumes "db_ok d" "move_to_policy d i p = Inr (d', None)"
  shows "d' = d"
proof -
  have "row_by_id rr_id (t_rules d) i = None"
    using move_to_policy_ok(2) [OF assms] by (cases "row_by_id rr_id (t_rules d) i") auto
  with assms(2) show ?thesis
    by (auto simp: move_to_policy_def Let_def update_where_none split: if_splits sum.splits)
qed

lemma update_policy_none:
  assumes "update_policy d i ch = Inr (d', None)"
  shows "d' = d"
proof (cases "row_by_id pr_id (t_policies d) i")
  case (Some row)
  let ?cols = "filter (\<lambda>c. c \<noteq> PcId \<and> c \<noteq> PcCreatedAt) ch"
  have run: "(if ?cols \<noteq> [] then run_policy_update d i ?cols row else Inr d) = Inr d'" and none: "get_policy d' i = None"
    using assms Some by (auto simp: update_policy_def Let_def split: sum.splits)
  have "d' = d \<or> (\<exists>row'. pr_id row' = pr_id row \<and> d' = d\<lparr>t_policies := update_where pr_id i (\<lambda>_. row') (t_policies d)\<rparr>)"
    using run by (auto simp: run_policy_update_def dest: apply_policy_changes_id split: if_splits sum.splits)
  then show ?thesis
  proof
    assume "\<exists>row'. pr_id row' = pr_id row \<and> d' = d\<lparr>t_policies := update_where pr_id i (\<lambda>_. row') (t_policies d)\<rparr>"
    then obtain row' where r: "pr_id row' = pr_id row" "d' = d\<lparr>t_policies := update_where pr_id i (\<lambda>_. row') (t_policies d)\<rparr>"
      by blast
    have "\<And>r. Some (pr_id r) = i \<Longrightarrow> pr_id row' = pr_id r" using row_by_id_SomeD [OF Some] r(1) by simp
    from row_by_id_update_where [where key = pr_id and i = i and f = "\<lambda>_. row'", OF this, of "t_policies d" i] Some none
    show ?thesis by (simp add: get_policy_def r(2))
  qed
qed (use assms in \<open>simp add: update_policy_def\<close>)

text \<open>What a route that changes policies does: it fails and changes nothing, or it tells the proxy.\<close>

definition told :: "env \<Rightarrow> server \<Rightarrow> outcome_of \<Rightarrow> bool" where
  "told e sv x \<longleftrightarrow>
     (case x of
        None \<Rightarrow> True
      | Some (sv', Inl err) \<Rightarrow> sv' = sv
      | Some (sv', Inr r) \<Rightarrow>
          if rs_status r \<in> {200, 201, 204}
          then sv_ipc sv' = ipc_send (e_uuid e) (rules_reload_msg (sv_db sv')) (sv_ipc sv)
          else sv' = sv)"

lemma told_simps [simp]:
  "told e sv (Some (sv', Inl err)) \<longleftrightarrow> sv' = sv"
  "told e sv (Some (sv', Inr r)) \<longleftrightarrow>
     (if rs_status r \<in> {200, 201, 204}
      then sv_ipc sv' = ipc_send (e_uuid e) (rules_reload_msg (sv_db sv')) (sv_ipc sv) else sv' = sv)"
  by (simp_all add: told_def)

lemma reply_status [simp]: "rs_status (reply n v) = n" "rs_status no_content = 204"
  by (simp_all add: reply_def no_content_def)

lemma told_policies_changed:
  "server_ok sv \<Longrightarrow> db_ok d \<Longrightarrow> rs_status resp \<in> {200, 201, 204} \<Longrightarrow>
     told e sv (policies_changed e data resp (sv\<lparr>sv_db := d\<rparr>))"
  by (simp add: policies_changed_result set_db_ok)

lemma told_move_rule:
  assumes "server_ok sv"
  shows "told e sv (move_rule e i p sv)"
proof (cases "sv_file sv")
  case None
  show ?thesis
  proof (cases "move_to_policy (sv_db sv) i p")
    case (Inl err)
    then show ?thesis by (simp add: move_rule_def rules_move_def None read_only_reply_def)
  next
    case (Inr x)
    obtain d r where x: "x = (d, r)" by (cases x)
    note m = Inr [unfolded x]
    note ok = set_db_ok [OF assms move_to_policy_ok(1) [OF server_db_ok [OF assms] m]]
    show ?thesis
    proof (cases r)
      case None
      then have "d = sv_db sv" using move_to_policy_none [OF server_db_ok [OF assms]] m by blast
      then show ?thesis using m None \<open>sv_file sv = None\<close> by (simp add: move_rule_def rules_move_def read_only_reply_def)
    next
      case (Some rule)
      then show ?thesis using m \<open>sv_file sv = None\<close>
        by (simp add: move_rule_def rules_move_def read_only_reply_def send_agents [OF ok])
    qed
  qed
qed (simp add: move_rule_def rules_move_def read_only_reply_def)

lemma create_policy_found:
  assumes "db_ok d" "create_policy c d name description = Inr (d', res)"
  shows "\<exists>p. res = Some p"
proof -
  obtain n where d': "d' = d\<lparr>t_policies := t_policies d @ [new_policy_row c (seq_policies d + 1) n description],
      seq_policies := seq_policies d + 1\<rparr>" and res: "res = get_policy d' (Some (seq_policies d + 1))"
    using assms(2) by (auto simp: create_policy_def Let_def split: option.splits if_splits)
  have "pr_id (new_policy_row c (seq_policies d + 1) n description) = seq_policies d + 1" by (simp add: new_policy_row_def)
  from row_by_id_new [OF policies_table_ok [OF assms(1)] this] show ?thesis by (simp add: res d' get_policy_def)
qed

lemma told_post_policy:
  assumes "server_ok sv"
  shows "told e sv (post_policy e name description sv)"
proof (cases "create_policy (e_clock e) (sv_db sv) name description")
  case (Inr x)
  obtain d p where x: "x = (d, p)" by (cases x)
  note ok = server_db_ok [OF assms]
  from create_policy_found [OF ok Inr [unfolded x]] obtain pol where "p = Some pol" by blast
  then show ?thesis
    using send_agents [OF set_db_ok [OF assms create_policy_ok [OF ok Inr [unfolded x]]]]
    by (simp add: post_policy_def Inr x)
qed (simp add: post_policy_def)

lemma told_put_policy:
  assumes "server_ok sv"
  shows "told e sv (put_policy e i ch sv)"
proof (cases "update_policy (sv_db sv) i ch")
  case (Inr x)
  obtain d p where x: "x = (d, p)" by (cases x)
  show ?thesis
  proof (cases p)
    case None
    then show ?thesis using update_policy_none [of "sv_db sv" i ch d] Inr by (simp add: put_policy_def x)
  next
    case (Some pol)
    have "db_ok d" using update_policy_ok [OF server_db_ok [OF assms]] Inr x by blast
    from told_policies_changed [OF assms this] show ?thesis by (simp add: put_policy_def Inr x Some)
  qed
qed (simp add: put_policy_def)

lemma told_post_child:
  assumes "server_ok sv"
  shows "told e sv (post_child e i child sv)"
proof -
  obtain x where x: "add_child (sv_db sv) i child = Some x"
    using add_child_answers [OF server_db_ok [OF assms]] by blast
  show ?thesis
  proof (cases x)
    case (Inl err)
    then show ?thesis by (simp add: post_child_def x child_conflict_def)
  next
    case (Inr d)
    have "db_ok d" using add_child_ok [OF server_db_ok [OF assms]] x Inr by blast
    from policies_changed_result [OF set_db_ok [OF assms this]] show ?thesis by (simp add: post_child_def x Inr)
  qed
qed

lemma told_post_policy_agent:
  assumes "server_ok sv"
  shows "told e sv (post_policy_agent e i agent sv)"
proof (cases "assign_to_agent (sv_db sv) i agent")
  case (Inr d)
  then have "db_ok d" using assign_to_agent_ok [OF server_db_ok [OF assms]] by blast
  from told_policies_changed [OF assms this] show ?thesis by (simp add: post_policy_agent_def Inr)
qed (simp add: post_policy_agent_def)

lemma told_routes:
  assumes "server_ok sv"
  shows "told e sv (delete_policy_route e i sv)" "told e sv (delete_child e i child sv)"
    "told e sv (delete_policy_agent e i agent sv)"
  using assms
  by (simp_all add: delete_policy_route_def delete_child_def delete_policy_agent_def told_policies_changed server_db_ok
      delete_policy_ok remove_child_ok unassign_from_agent_ok)


lemma resolve_pending:
  assumes "db_ok d" "row_by_id aq_id (t_queue d) (Some i) = Some q" "aq_status q = ''pending''"
    and "act \<in> {''approve'', ''reject''}"
  shows "\<exists>d' q'. resolve c d (Some i) \<lparr>re_action = Some act, re_resolved_by = Some who, re_create_rule = wanted\<rparr> = Inr (d', Some q')
    \<and> db_ok d' \<and> row_by_id aq_id (t_queue d') (Some i) = Some q'
    \<and> aq_status q' = (if act = ''approve'' then ''approved'' else ''rejected'')
    \<and> aq_ipc_msg_id q' = aq_ipc_msg_id q \<and> aq_suggested_pattern q' = aq_suggested_pattern q"
proof -
  let ?a = "\<lparr>re_action = Some act, re_resolved_by = Some who, re_create_rule = wanted\<rparr>"
  let ?st = "if act = ''approve'' then ''approved'' else ''rejected''"
  have st: "resolved_status (re_action ?a) = Some ?st" using assms(4) by (auto simp: resolved_status_def)
  have "approval_check (resolved_row c ?st ?a q)" by (simp add: approval_check_def resolved_row_def)
  then obtain d' res where r: "resolve c d (Some i) ?a = Inr (d', res)"
    using assms(2,3) st by (simp add: resolve_def Let_def del: resolution.select_convs)
  show ?thesis
  proof (rule resolve_Inr [OF assms(1) r])
    assume "res = None" "\<And>row. row_by_id aq_id (t_queue d) (Some i) = Some row \<Longrightarrow> aq_status row \<noteq> ''pending''"
    with assms(2,3) show ?thesis by blast
  next
    fix row status
    assume h: "row_by_id aq_id (t_queue d) (Some i) = Some row" "resolved_status (re_action ?a) = Some status"
      "d' = d\<lparr>t_queue := update_where aq_id (Some i) (resolved_row c status ?a) (t_queue d)\<rparr>"
      "res = Some (resolved_row c status ?a row)" "db_ok d'"
    have k: "\<And>r. Some (aq_id r) = Some i \<Longrightarrow> aq_id (resolved_row c status ?a r) = aq_id r" by (simp add: resolved_row_def)
    have row: "row = q" "status = ?st" using h(1,2) assms(2) st by auto
    have "row_by_id aq_id (t_queue d') (Some i) = Some (resolved_row c status ?a q)"
      by (simp add: h(3) row_by_id_update_where [where key = aq_id and i = "Some i" and f = "resolved_row c status ?a", OF k] assms(2))
    then show ?thesis using h(4,5) r row by (auto simp: resolved_row_def)
  qed
qed

text \<open>The rule made on top of a decision: only the database store can, and there it always can.\<close>

lemma auto_rule_result:
  assumes "server_ok sv" "q \<in> set (t_queue (sv_db sv))"
  shows "(\<not> (wanted \<and> given (aq_suggested_pattern q)) \<and> auto_rule e q act wanted sv = Inr sv)
    \<or> (wanted \<and> given (aq_suggested_pattern q) \<and> sv_file sv \<noteq> None \<and> auto_rule e q act wanted sv = Inl ReadOnly)
    \<or> (sv_file sv = None \<and> (\<exists>sv2. auto_rule e q act wanted sv = Inr sv2 \<and> t_queue (sv_db sv2) = t_queue (sv_db sv)
        \<and> sv_auth sv2 = sv_auth sv \<and> sv_ipc sv2 = ipc_send (e_uuid e) [(''type'', JStr ''rules.reload'')] (sv_ipc sv)))"
proof (cases "wanted \<and> given (aq_suggested_pattern q)")
  case False
  then show ?thesis by (simp add: auto_rule_def)
next
  case True
  note ok = server_db_ok [OF assms(1)]
  have "case aq_suggested_methods q of None \<Rightarrow> True | Some t \<Rightarrow> json_strings t \<noteq> None"
    using ok assms(2) by (auto simp: db_ok_def queue_ok_def)
  then have "\<exists>ms. (if given (aq_suggested_methods q) then json_strings (the (aq_suggested_methods q)) else Some []) = Some ms"
    by (cases "aq_suggested_methods q") (auto simp: given_def)
  then obtain ms where ms:
    "(if given (aq_suggested_methods q) then json_strings (the (aq_suggested_methods q)) else Some []) = Some ms" by blast
  let ?inp = "suggested_rule q act (the (aq_suggested_pattern q)) ms"
  show ?thesis
  proof (cases "sv_file sv")
    case (Some rules)
    then have "rules_create sv ?inp = Inl ReadOnly" by (simp add: rules_create_def file_create_def)
    with True ms Some show ?thesis by (simp add: auto_rule_def)
  next
    case None
    have "\<exists>d' k. insert_rule (sv_db sv) ?inp = Inr (d', k)"
      by (simp add: insert_rule_def suggested_rule_def Let_def rule_check_def new_rule_row_def fk_def)
    then obtain d' k where ins: "insert_rule (sv_db sv) ?inp = Inr (d', k)" by blast
    note i = insert_rule_ok [OF ok ins]
    then have cr: "create_rule (sv_db sv) ?inp = Inr (d', map_option rule_of (row_by_id rr_id (t_rules d') (Some k)))"
      using get_rule_ok [OF i(1)] by (simp add: create_rule_def ins)
    have "t_queue d' = t_queue (sv_db sv)" using i(3) by auto
    then show ?thesis
      using True None cr by (simp add: auto_rule_def ms rules_create_def)
  qed
qed

text \<open>The course of an authorised decision on a pending entry, and of a later one.\<close>

lemma resolve_approval_step:
  assumes "server_ok sv" "basic_auth (sv_auth sv) a"
    and "row_by_id aq_id (t_queue (sv_db sv)) (Some i) = Some q" "aq_status q = ''pending''"
    and "act \<in> {''approve'', ''reject''}"
  obtains sv1 q' where "server_ok sv1" "row_by_id aq_id (t_queue (sv_db sv1)) (Some i) = Some q'"
    and "aq_status q' = (if act = ''approve'' then ''approved'' else ''rejected'')"
    and "aq_suggested_pattern q' = aq_suggested_pattern q"
    and "sv_file sv1 = sv_file sv" "sv_auth sv1 = sv_auth sv"
    and "sv_ipc sv1 = ipc_send (e_uuid e) (approval_resolve_msg q act) (sv_ipc sv)"
    and "handle_request e a (ResolveApproval (Some i) (Some act) wanted) sv
      = (case auto_rule e q' act wanted sv1 of
           Inl err \<Rightarrow> Some (sv1, error_handler e err)
         | Inr sv2 \<Rightarrow> Some (emit_event ''approval.resolved'' (JObj [(''id'', JNum (aq_id q')), (''action'', JStr act)]) sv2,
             reply 200 (JObj (approval_entries q'))))"
proof -
  let ?act = "\<lparr>re_action = Some act, re_resolved_by = Some ''api'', re_create_rule = wanted\<rparr>"
  from resolve_pending [OF server_db_ok [OF assms(1)] assms(3-5)] obtain d q' where
    r: "resolve (e_clock e) (sv_db sv) (Some i) ?act = Inr (d, Some q')" and d: "db_ok d"
    and q': "row_by_id aq_id (t_queue d) (Some i) = Some q'" "aq_status q' = (if act = ''approve'' then ''approved'' else ''rejected'')"
      "aq_ipc_msg_id q' = aq_ipc_msg_id q" "aq_suggested_pattern q' = aq_suggested_pattern q"
    by metis
  define sv1 where "sv1 = send_msg e (approval_resolve_msg q' act) (sv\<lparr>sv_db := d\<rparr>)"
  have msg: "approval_resolve_msg q' act = approval_resolve_msg q act" by (simp add: approval_resolve_msg_def q'(3))
  have one: "handle_request e a (ResolveApproval (Some i) (Some act) wanted) sv
      = (case auto_rule e q' act wanted sv1 of
           Inl err \<Rightarrow> Some (sv1, error_handler e err)
         | Inr sv2 \<Rightarrow> Some (emit_event ''approval.resolved'' (JObj [(''id'', JNum (aq_id q')), (''action'', JStr act)]) sv2,
             reply 200 (JObj (approval_entries q'))))"
    using assms(2,5) by (auto simp: handle_request_def resolve_approval_def r sv1_def Let_def split: sum.splits)
  have "server_ok sv1" unfolding sv1_def by (intro send_msg_ok set_db_ok assms(1) d)
  then show thesis
    by (rule that) (simp_all only: one, simp_all add: sv1_def msg q')
qed

lemma resolve_approval_again:
  assumes "basic_auth (sv_auth sv) a" "row_by_id aq_id (t_queue (sv_db sv)) (Some i) = Some q" "aq_status q \<noteq> ''pending''"
    and "act \<in> {''approve'', ''reject''}"
  shows "handle_request e a (ResolveApproval (Some i) (Some act) wanted) sv
    = Some (sv, reply 404 (error_json ''Approval not found or already resolved''))"
  using assms by (auto simp: handle_request_def resolve_approval_def resolve_def)

text \<open>
  C6: The answer of a human reaches the held request, once: an authorised approval or rejection of a pending
  entry records it, sends the proxy first of all the decision under the id of the held request, and no
  later decision on the entry, whatever it is, changes anything or sends anything. It is answered 200, except
  that in file mode a rule asked for on top cannot be made: then the answer is 500 although the decision
  stands and was sent.
\<close>

theorem approval_answered:
  assumes "server_ok sv" "basic_auth (sv_auth sv) a"
    and "row_by_id aq_id (t_queue (sv_db sv)) (Some i) = Some q" "aq_status q = ''pending''"
    and "act \<in> {''approve'', ''reject''}" "act2 \<in> {''approve'', ''reject''}"
  shows "\<exists>sv' r q' more. handle_request e a (ResolveApproval (Some i) (Some act) wanted) sv = Some (sv', r)
    \<and> row_by_id aq_id (t_queue (sv_db sv')) (Some i) = Some q'
    \<and> aq_status q' = (if act = ''approve'' then ''approved'' else ''rejected'')
    \<and> sv_ipc sv' = foldl (\<lambda>ip m. ipc_send (e_uuid e) m ip) (sv_ipc sv) (approval_resolve_msg q act # more)
    \<and> rs_status r = (if wanted \<and> given (aq_suggested_pattern q) \<and> sv_file sv \<noteq> None then 500 else 200)
    \<and> (\<exists>r2. handle_request e2 a (ResolveApproval (Some i) (Some act2) wanted2) sv' = Some (sv', r2) \<and> rs_status r2 = 404)"
proof -
  obtain sv1 q' where sv1: "server_ok sv1" "row_by_id aq_id (t_queue (sv_db sv1)) (Some i) = Some q'"
      "aq_status q' = (if act = ''approve'' then ''approved'' else ''rejected'')" "aq_suggested_pattern q' = aq_suggested_pattern q"
      "sv_file sv1 = sv_file sv" "sv_auth sv1 = sv_auth sv"
      "sv_ipc sv1 = ipc_send (e_uuid e) (approval_resolve_msg q act) (sv_ipc sv)"
    and step: "handle_request e a (ResolveApproval (Some i) (Some act) wanted) sv
      = (case auto_rule e q' act wanted sv1 of
           Inl err \<Rightarrow> Some (sv1, error_handler e err)
         | Inr sv2 \<Rightarrow> Some (emit_event ''approval.resolved'' (JObj [(''id'', JNum (aq_id q')), (''action'', JStr act)]) sv2,
             reply 200 (JObj (approval_entries q'))))"
    by (rule resolve_approval_step [OF assms(1-5), of e wanted])
  let ?ev = "emit_event ''approval.resolved'' (JObj [(''id'', JNum (aq_id q')), (''action'', JStr act)])"
  have "aq_status q' \<noteq> ''pending''" by (simp add: sv1(3))
  then have again: "handle_request e2 a (ResolveApproval (Some i) (Some act2) wanted2) t
      = Some (t, reply 404 (error_json ''Approval not found or already resolved''))"
    if "sv_auth t = sv_auth sv" "t_queue (sv_db t) = t_queue (sv_db sv1)" for t
    using resolve_approval_again [of t a i q' act2] assms(2,6) that sv1(2) by simp
  have fails: "rs_status (error_handler e ReadOnly) = 500" by (simp add: error_handler_def)
  consider (unasked) "auto_rule e q' act wanted sv1 = Inr sv1" "\<not> (wanted \<and> given (aq_suggested_pattern q))"
    | (refused) "auto_rule e q' act wanted sv1 = Inl ReadOnly" "wanted \<and> given (aq_suggested_pattern q) \<and> sv_file sv \<noteq> None"
    | (made) sv2 where "auto_rule e q' act wanted sv1 = Inr sv2" "sv_file sv = None"
        "t_queue (sv_db sv2) = t_queue (sv_db sv1)" "sv_auth sv2 = sv_auth sv"
        "sv_ipc sv2 = ipc_send (e_uuid e) [(''type'', JStr ''rules.reload'')] (sv_ipc sv1)"
    using auto_rule_result [OF sv1(1), where q = q' and e = e and act = act and wanted = wanted] row_by_id_SomeD [OF sv1(2)]
    unfolding sv1(4,5,6) by blast
  then show ?thesis
  proof cases
    case unasked
    then show ?thesis unfolding step unasked(1) sum.case
      by (intro exI [of _ "?ev sv1"] exI [of _ "reply 200 (JObj (approval_entries q'))"] exI [of _ q'] exI [of _ "[]"])
        (auto simp: again sv1)
  next
    case refused
    then show ?thesis unfolding step refused(1) sum.case
      by (intro exI [of _ sv1] exI [of _ "error_handler e ReadOnly"] exI [of _ q'] exI [of _ "[]"])
        (auto simp: again sv1 fails)
  next
    case made
    then show ?thesis unfolding step made(1) sum.case
      by (intro exI [of _ "?ev sv2"] exI [of _ "reply 200 (JObj (approval_entries q'))"] exI [of _ q']
            exI [of _ "[[(''type'', JStr ''rules.reload'')]]"])
        (simp add: again sv1)
  qed
qed

text \<open>
  Rules kept in a file are read-only for the API: whatever the request, the rules of the file are the same
  after it, and an authorised request to create, change, delete or move a rule is answered 403 and changes
  nothing, as long as the configuration says so too.
\<close>

theorem file_rules_read_only:
  assumes "sv_file sv = Some rules" "handle_request e a req sv = Some (sv', r)"
  shows "sv_file sv' = Some rules
    \<and> (if basic_auth (sv_auth sv) a \<and> source_is_file sv
          \<and> ((\<exists>inp. req = PostRule inp) \<or> (\<exists>i ch. req = PutRule i ch) \<or> (\<exists>i. req = DeleteRule i) \<or> (\<exists>i p. req = MoveRule i p))
       then sv' = sv \<and> r = read_only_reply else True)"
proof -
  have reload: "sv_file t' = sv_file t" if "send_agent_rules_reload e t = Some (Inr t')" for t t'
    using that by (auto simp: send_agent_rules_reload_def split: option.splits sum.splits)
  have flat: "sv_file t' = sv_file t" if "send_rules_reload e t = Inr t'" for t t'
    using that by (auto simp: send_rules_reload_def split: sum.splits)
  have pc: "sv_file t' = sv_file t" if "policies_changed e v resp t = Some (t', x)" for t t' v resp x
    using that reload by (auto simp: policies_changed_def split: option.splits sum.splits)
  have ag: "sv_file (send_agents_reload e t) = sv_file t" for t by (simp add: send_agents_reload_def)
  have auto: "sv_file t' = Some rules" if "sv_file t = Some rules" "auto_rule e q act w t = Inr t'" for t t' q act w
    using that(2,1) by (auto simp: auto_rule_def rules_create_def file_create_def split: if_splits option.splits)
  have store: "rules_create sv inp = Inl ReadOnly" "rules_update sv i ch = Inl ReadOnly" "rules_delete sv i = Inl ReadOnly"
      "rules_move sv i p = Inl TypeErr" for inp i ch p
    by (simp_all add: rules_create_def rules_update_def rules_delete_def rules_move_def file_create_def file_update_def
        file_delete_def assms(1))
  have "sv_file t = Some rules" if "route e req sv = Some (t, x)" for t x
  proof (cases req)
    case (ResolveApproval i act w)
    with that assms(1) show ?thesis
      by (auto simp: resolve_approval_def Let_def split: if_splits sum.splits option.splits)
        (drule auto [rotated], simp_all)+
  qed (use that assms(1) in \<open>auto simp: post_rule_def put_rule_def delete_rule_route_def move_rule_def store ag
      post_policy_def put_policy_def delete_policy_route_def post_child_def delete_child_def post_policy_agent_def
      delete_policy_agent_def post_agent_def put_agent_def delete_agent_route_def rotate_agent_token_def
      register_ip_route_def Let_def dest: pc reload split: if_splits sum.splits option.splits prod.splits\<close>)
  moreover have "sv' = sv \<and> r = read_only_reply" if "basic_auth (sv_auth sv) a" "source_is_file sv"
      "(\<exists>inp. req = PostRule inp) \<or> (\<exists>i ch. req = PutRule i ch) \<or> (\<exists>i. req = DeleteRule i) \<or> (\<exists>i p. req = MoveRule i p)"
    using that assms(2)
    by (auto simp: handle_request_def post_rule_def put_rule_def delete_rule_route_def move_rule_def)
  ultimately show ?thesis
    using assms by (auto simp: handle_request_def split: if_splits option.splits sum.splits)
qed

text \<open>
  What the proxy logged can be read back: when a body reference names a file, an offset and a length, and
  the bytes there are the record that encryption of the body at that offset made, an authorised request for
  the body returns exactly the body.
\<close>

theorem logged_body_readable:
  assumes "basic_auth (sv_auth sv) a" "get_log (sv_db sv) (Some i) = Some l"
    and "ref_of k l = Some (file @ '':'' @ show_nat off @ '':'' @ show_nat (length rec))" "CHR '':'' \<notin> set file"
    and "field (sv_config sv) ''database'' ''path'' = Some (JStr db_path)" "sv_log_key sv = Some key"
    and "e_read_at e (body_path db_path file) (length rec) (int off) = Some rec"
    and "\<And>k n p c t. gcm_enc k n p = (c, t) \<Longrightarrow> length c = length p \<and> length t = 16 \<and> e_gcm_dec e k n c t = Some p"
    and "length nonce = 12" "encrypt_record (e_hkdf e) gcm_enc nonce (Some key) (int off) body = Inr rec"
  shows "handle_request e a (GetBody (Some i) k) sv
    = Some (sv, \<lparr>rs_status = 200, rs_challenge = False, rs_body = Bytes body\<rparr>)"
proof -
  have nc: "CHR '':'' \<notin> set (show_nat n)" for n
    using show_nat_digits [of n] by (auto simp: list_all_iff is_digit_def code_def)
  have sc: "split_colon (x @ CHR '':'' # y) = x # split_colon y" if "CHR '':'' \<notin> set x" for x y
    using that by (induction x) auto
  have s1: "split_colon x = [x]" if "CHR '':'' \<notin> set x" for x using that by (induction x) auto
  have parts: "split_colon (file @ CHR '':'' # show_nat off @ CHR '':'' # show_nat (length rec))
      = [file, show_nat off, show_nat (length rec)]"
    using sc [OF assms(4)] sc [OF nc] s1 [OF nc] by simp
  have g: "given (ref_of k l)" by (simp add: given_def assms(3))
  have dec: "decrypt_record (e_hkdf e) (e_gcm_dec e) (Some key) (int off) rec = Inr body"
    by (rule decrypt_encrypted(1) [where gcm_enc = gcm_enc and nonce = nonce, OF _ assms(9,10)]) (rule assms(8))
  have "stream_body e sv (Some i) k = Inr \<lparr>rs_status = 200, rs_challenge = False, rs_body = Bytes body\<rparr>"
    using assms(7) dec
    by (simp add: stream_body_def assms(2,5,6) g Let_def)
      (simp add: assms(3,6) parts part_int_def parse_int_show_nat)
  then show ?thesis using assms(1) by (simp add: handle_request_def)
qed

section \<open>The properties at concrete inputs\<close>

definition start_config :: object where
  "start_config = [(''database'', JObj [(''path'', JStr ''d/a.db''), (''encryption_key'', JStr ''k'')])]"

definition start_env :: env where
  "start_env = sample_env\<lparr>e_config_text := Some (stringify (JObj start_config))\<rparr>"

lemma sample_start: "\<exists>sv. run_cli start_env defaults \<lparr>f_version = 0, f_db = empty_db\<rparr> = Inr sv"
proof -
  have parse: "json_parse (stringify (JObj start_config)) = Some (JObj start_config)"
    by (rule js.dec_enc) (simp add: start_config_def)
  have "\<exists>cfg. load_config Map.empty Map.empty defaults (Some (stringify (JObj start_config))) = (defaults, Inr cfg)
      \<and> field cfg ''database'' ''path'' = Some (JStr ''d/a.db'')
      \<and> field cfg ''database'' ''encryption_key'' = Some (JStr ''k'') \<and> field cfg ''rules'' ''source'' = Some (JStr ''db'')"
    unfolding load_config_def option.case parse
    by (simp add: entries_def cli_map_def defaults_def obj_get_def validate_def field_def env_prefix_def
        start_config_def del: stringify.simps)
  then obtain cfg where
    "load_config Map.empty Map.empty defaults (Some (stringify (JObj start_config))) = (defaults, Inr cfg)"
    "field cfg ''database'' ''path'' = Some (JStr ''d/a.db'')"
    "field cfg ''database'' ''encryption_key'' = Some (JStr ''k'')" "field cfg ''rules'' ''source'' = Some (JStr ''db'')"
    by blast
  then show ?thesis
    by (simp add: run_cli_def start_server_def start_env_def sample_env_def create_connection_def Let_def
        del: stringify.simps)
qed

lemma sample_reachable: "\<exists>sv. run_cli start_env defaults \<lparr>f_version = 0, f_db = empty_db\<rparr> = Inr sv \<and> reachable sv"
  using sample_start reachable_start [OF new_file_ok] by fastforce

lemma sample_auth: "basic_auth (sv_auth (sample_server d)) (Some ''Basic dTpw'')"
proof -
  have "credentials ''Basic dTpw'' = Some (''u'', ''p'')" by code_simp
  then show ?thesis by (simp add: basic_auth_def sample_server_def obj_get_def)
qed



theorem stranger_harmless_witness:
  "handle_request sample_env None (DeletePolicy (Some 1)) (sample_server tree_db) = Some (sample_server tree_db, unauthorized)"
proof -
  obtain sv r where h: "handle_request sample_env None (DeletePolicy (Some 1)) (sample_server tree_db) = Some (sv, r)"
    using handle_request_answers [OF sample_server_ok [OF tree_db_ok]] by blast
  have "\<not> basic_auth (sv_auth (sample_server tree_db)) None" by (simp add: basic_auth_def)
  from stranger_harmless [OF this h] h show ?thesis by simp
qed


theorem approval_answered_witness:
  "\<exists>sv r. handle_request sample_env (Some ''Basic dTpw'') (ResolveApproval (Some 1) (Some ''approve'') False)
       (sample_server queue_db) = Some (sv, r) \<and> rs_status r = 200"
  using approval_answered [OF sample_server_ok [OF queue_db_ok] sample_auth [of queue_db], of 1 pending_row "''approve''"
      "''reject''" sample_env False] queue_db_pending
  by (fastforce simp: sample_server_def)

theorem file_rules_read_only_witness:
  "handle_request sample_env (Some ''Basic dTpw'') (DeleteRule (Some 1))
       (sample_server tree_db\<lparr>sv_file := Some [], sv_config := [(''rules'', JObj [(''source'', JStr ''file'')])]\<rparr>)
     = Some (sample_server tree_db\<lparr>sv_file := Some [], sv_config := [(''rules'', JObj [(''source'', JStr ''file'')])]\<rparr>,
         read_only_reply)"
proof -
  let ?sv = "sample_server tree_db\<lparr>sv_file := Some [], sv_config := [(''rules'', JObj [(''source'', JStr ''file'')])]\<rparr>"
  have "server_ok ?sv"
    using sample_server_ok [OF tree_db_ok] by (simp add: server_ok_def store_ok_def file_ordered_def)
  then obtain sv r where h: "handle_request sample_env (Some ''Basic dTpw'') (DeleteRule (Some 1)) ?sv = Some (sv, r)"
    using handle_request_answers by blast
  have "sv_file ?sv = Some []" by simp
  from file_rules_read_only [OF this h] h sample_auth [of tree_db] show ?thesis
    by (simp add: source_is_file_def field_def obj_get_def)
qed

definition body_db :: db where
  "body_db = log_db\<lparr>t_log := [sample_log_row\<lparr>lr_request_body_ref := Some ''f:0:37''\<rparr>]\<rparr>"

definition body_record :: bytes where
  "body_record = (case encrypt_record toy_hkdf toy_enc (replicate 12 0) (Some [7]) 0 [1] of Inl _ \<Rightarrow> [] | Inr r \<Rightarrow> r)"

lemma body_record_facts:
  defines "e \<equiv> sample_env\<lparr>e_read_at := (\<lambda>_ _ _. Some body_record)\<rparr>"
  shows "get_log (sv_db (sample_server body_db)) (Some 1) = Some (sample_log_row\<lparr>lr_request_body_ref := Some ''f:0:37''\<rparr>)"
    and "ref_of RequestBodyRef (sample_log_row\<lparr>lr_request_body_ref := Some ''f:0:37''\<rparr>)
      = Some (''f'' @ '':'' @ show_nat 0 @ '':'' @ show_nat (length body_record))"
    and "CHR '':'' \<notin> set ''f''"
    and "field (sv_config (sample_server body_db)) ''database'' ''path'' = Some (JStr ''data/ashp.db'')"
    and "sv_log_key (sample_server body_db) = Some [7]"
    and "e_read_at e (body_path ''data/ashp.db'' ''f'') (length body_record) (int 0) = Some body_record"
    and "length (replicate 12 (0 :: 8 word)) = 12"
    and "encrypt_record (e_hkdf e) toy_enc (replicate 12 0) (Some [7]) (int 0) [1] = Inr body_record"
proof -
  have len: "length body_record = 37"
    by (simp add: body_record_def encrypt_record_def derive_record_key_def toy_enc_def Let_def u32_le_def)
  have show37: "show_nat 37 = ''37''" "show_nat 0 = ''0''" by code_simp+
  show "get_log (sv_db (sample_server body_db)) (Some 1) = Some (sample_log_row\<lparr>lr_request_body_ref := Some ''f:0:37''\<rparr>)"
    by (simp add: get_log_def sample_server_def body_db_def row_by_id_def sample_log_row_def new_log_row_def)
  show "ref_of RequestBodyRef (sample_log_row\<lparr>lr_request_body_ref := Some ''f:0:37''\<rparr>)
      = Some (''f'' @ '':'' @ show_nat 0 @ '':'' @ show_nat (length body_record))"
    by (simp add: ref_of_def len show37)
  show "CHR '':'' \<notin> set ''f''" "length (replicate 12 (0 :: 8 word)) = 12" by simp_all
  show "field (sv_config (sample_server body_db)) ''database'' ''path'' = Some (JStr ''data/ashp.db'')"
    by (simp add: sample_server_def defaults_def field_def obj_get_def)
  show "sv_log_key (sample_server body_db) = Some [7]" by (simp add: sample_server_def)
  show "e_read_at e (body_path ''data/ashp.db'' ''f'') (length body_record) (int 0) = Some body_record" by (simp add: e_def)
  show "encrypt_record (e_hkdf e) toy_enc (replicate 12 0) (Some [7]) (int 0) [1] = Inr body_record"
    by (simp add: e_def body_record_def sample_env_def encrypt_record_def derive_record_key_def toy_enc_def Let_def u32_le_def)
qed

theorem logged_body_readable_witness:
  "handle_request (sample_env\<lparr>e_read_at := (\<lambda>_ _ _. Some body_record)\<rparr>) (Some ''Basic dTpw'')
       (GetBody (Some 1) RequestBodyRef) (sample_server body_db)
     = Some (sample_server body_db, \<lparr>rs_status = 200, rs_challenge = False, rs_body = Bytes [1]\<rparr>)"
proof -
  let ?e = "sample_env\<lparr>e_read_at := (\<lambda>_ _ _. Some body_record)\<rparr>"
  have gcm: "length c = length p \<and> length t = 16 \<and> e_gcm_dec ?e k n c t = Some p" if "toy_enc k n p = (c, t)" for k n p c t
    using that toy_inverse [of k n c t p] by (auto simp: sample_env_def toy_enc_def simp del: replicate.simps)
  show ?thesis by (rule logged_body_readable [OF sample_auth body_record_facts(1-6) gcm body_record_facts(7,8)])
qed

end
