(* ===== verification/Proxy_Rules.thy ===== *)
theory Proxy_Rules
  imports System
begin

text \<open>
  The other end of \<open>rules.reload\<close>: how the Go proxy decodes the message (\<open>ashp-proxy/main.go\<close>), keeps the
  rules per agent and picks the rule of a request (\<open>rules/evaluator.go\<close>). Go's regular expressions and its
  \<open>sort.Slice\<close> are parameters. With the server's model this tells what the messages of the API do to the
  decisions of the proxy.
\<close>

section \<open>Decoding\<close>

record go_rule =
  gr_id :: int
  gr_url_pattern :: string
  gr_methods :: "string list"
  gr_action :: string
  gr_priority :: int
  gr_enabled :: bool
  gr_default_behavior :: string
  gr_log_request_body :: string
  gr_log_response_body :: string

text \<open>
  \<open>json.Unmarshal\<close> into a field: an absent key and null leave the zero value, a value of another type too but
  the whole call then reports an error (the flag); a number must be one of Go's 64-bit \<open>int\<close>.
\<close>

definition go_string :: "object \<Rightarrow> string \<Rightarrow> string \<times> bool" where
  "go_string kvs k =
     (case obj_get kvs k of
        Some (JStr s) \<Rightarrow> (s, True) | None \<Rightarrow> ([], True) | Some JNull \<Rightarrow> ([], True) | Some _ \<Rightarrow> ([], False))"

definition go_int :: "object \<Rightarrow> string \<Rightarrow> int \<times> bool" where
  "go_int kvs k =
     (case obj_get kvs k of
        Some (JNum n) \<Rightarrow> if - (2 ^ 63) \<le> n \<and> n < 2 ^ 63 then (n, True) else (0, False)
      | None \<Rightarrow> (0, True) | Some JNull \<Rightarrow> (0, True) | Some _ \<Rightarrow> (0, False))"

definition go_bool :: "object \<Rightarrow> string \<Rightarrow> bool \<times> bool" where
  "go_bool kvs k =
     (case obj_get kvs k of
        Some (JBool b) \<Rightarrow> (b, True) | None \<Rightarrow> (False, True) | Some JNull \<Rightarrow> (False, True) | Some _ \<Rightarrow> (False, False))"

definition go_strings :: "object \<Rightarrow> string \<Rightarrow> string list \<times> bool" where
  "go_strings kvs k =
     (case obj_get kvs k of
        Some (JArr vs) \<Rightarrow>
          (map (\<lambda>v. case v of JStr s \<Rightarrow> s | _ \<Rightarrow> []) vs, list_all (\<lambda>v. case v of JStr _ \<Rightarrow> True | JNull \<Rightarrow> True | _ \<Rightarrow> False) vs)
      | None \<Rightarrow> ([], True) | Some JNull \<Rightarrow> ([], True) | Some _ \<Rightarrow> ([], False))"

definition zero_rule :: go_rule where
  "zero_rule =
     \<lparr>gr_id = 0, gr_url_pattern = [], gr_methods = [], gr_action = [], gr_priority = 0, gr_enabled = False,
      gr_default_behavior = [], gr_log_request_body = [], gr_log_response_body = []\<rparr>"

definition decode_rule :: "json \<Rightarrow> go_rule \<times> bool" where
  "decode_rule v =
     (case v of
        JNull \<Rightarrow> (zero_rule, True)
      | JObj kvs \<Rightarrow>
          (\<lparr>gr_id = fst (go_int kvs ''id''), gr_url_pattern = fst (go_string kvs ''url_pattern''),
            gr_methods = fst (go_strings kvs ''methods''), gr_action = fst (go_string kvs ''action''),
            gr_priority = fst (go_int kvs ''priority''), gr_enabled = fst (go_bool kvs ''enabled''),
            gr_default_behavior = fst (go_string kvs ''default_behavior''),
            gr_log_request_body = fst (go_string kvs ''log_request_body''),
            gr_log_response_body = fst (go_string kvs ''log_response_body'')\<rparr>,
           snd (go_int kvs ''id'') \<and> snd (go_string kvs ''url_pattern'') \<and> snd (go_strings kvs ''methods'')
           \<and> snd (go_string kvs ''action'') \<and> snd (go_int kvs ''priority'') \<and> snd (go_bool kvs ''enabled'')
           \<and> snd (go_string kvs ''default_behavior'') \<and> snd (go_string kvs ''log_request_body'')
           \<and> snd (go_string kvs ''log_response_body''))
      | _ \<Rightarrow> (zero_rule, False))"

text \<open>\<open>[]rules.Rule\<close>; an absent \<open>data\<close> is an empty input, which is an error.\<close>

definition decode_rules :: "json option \<Rightarrow> go_rule list \<times> bool" where
  "decode_rules data =
     (case data of
        Some (JArr vs) \<Rightarrow> (map (\<lambda>v. fst (decode_rule v)) vs, list_all (\<lambda>v. snd (decode_rule v)) vs)
      | Some JNull \<Rightarrow> ([], True)
      | _ \<Rightarrow> ([], False))"

text \<open>\<open>map[string][]rules.Rule\<close>; \<open>None\<close> is an error.\<close>

definition decode_map :: "json option \<Rightarrow> (string \<times> go_rule list) list option" where
  "decode_map data =
     (case data of
        Some (JObj kvs) \<Rightarrow>
          if list_all (\<lambda>(k, v). snd (decode_rules (Some v))) kvs
          then Some (map (\<lambda>(k, v). (k, fst (decode_rules (Some v)))) kvs) else None
      | Some JNull \<Rightarrow> Some []
      | _ \<Rightarrow> None)"

section \<open>The evaluator\<close>

type_synonym compiled = "go_rule \<times> (string \<Rightarrow> bool)"
type_synonym evaluator = "string \<Rightarrow> compiled list option"

fun compile_rules :: "(string \<Rightarrow> (string \<Rightarrow> bool) option) \<Rightarrow> go_rule list \<Rightarrow> compiled list" where
  "compile_rules compile [] = []"
| "compile_rules compile (r # rs) =
     (if \<not> gr_enabled r then compile_rules compile rs
      else
        (case compile (gr_url_pattern r) of
           None \<Rightarrow> compile_rules compile rs
         | Some re \<Rightarrow> (r, re) # compile_rules compile rs))"

definition load_map ::
  "(string \<Rightarrow> (string \<Rightarrow> bool) option) \<Rightarrow> (compiled list \<Rightarrow> compiled list) \<Rightarrow> (string \<times> go_rule list) list \<Rightarrow> evaluator" where
  "load_map compile sorter agent_map =
     map_of (map (\<lambda>(agent, rs). (agent, sorter (compile_rules compile rs))) agent_map)"

definition all_agents :: string where
  "all_agents = ''__all__''"

definition load_flat ::
  "(string \<Rightarrow> (string \<Rightarrow> bool) option) \<Rightarrow> (compiled list \<Rightarrow> compiled list) \<Rightarrow> go_rule list \<Rightarrow> evaluator" where
  "load_flat compile sorter rs = load_map compile sorter [(all_agents, rs)]"

definition bucket :: "evaluator \<Rightarrow> string \<Rightarrow> compiled list" where
  "bucket ev agent = (case ev agent of None \<Rightarrow> [] | Some rs \<Rightarrow> rs)"

fun first_match :: "compiled list \<Rightarrow> string \<Rightarrow> string \<Rightarrow> go_rule option" where
  "first_match [] url meth = None"
| "first_match ((r, re) # rs) url meth =
     (if \<not> re url then first_match rs url meth
      else if gr_methods r \<noteq> [] \<and> \<not> list_ex (\<lambda>m. m = ''*'' \<or> m = meth) (gr_methods r) then first_match rs url meth
      else Some r)"

definition go_match :: "evaluator \<Rightarrow> string \<Rightarrow> string \<Rightarrow> string \<Rightarrow> go_rule option" where
  "go_match ev agent url meth =
     (let rs = bucket ev agent;
          rs' = (if rs = [] \<and> agent \<noteq> all_agents then bucket ev all_agents else rs)
      in first_match rs' url meth)"

text \<open>The branch \<open>rules.reload\<close> of the message handler; the other messages do not touch the evaluator.\<close>

definition proxy_message ::
  "(string \<Rightarrow> (string \<Rightarrow> bool) option) \<Rightarrow> (compiled list \<Rightarrow> compiled list) \<Rightarrow> message \<Rightarrow> evaluator \<Rightarrow> evaluator" where
  "proxy_message compile sorter msg ev =
     (if obj_get msg ''type'' = Some (JStr ''rules.reload'')
      then (case decode_map (obj_get msg ''data'') of
              Some agent_map \<Rightarrow> load_map compile sorter agent_map
            | None \<Rightarrow> load_flat compile sorter (fst (decode_rules (obj_get msg ''data''))))
      else ev)"

section \<open>What a request may match\<close>

text \<open>A rule of the server as the proxy reads it, whether it applies to a request, and what a sort does.\<close>

definition go_rule_of :: "rule \<Rightarrow> go_rule" where
  "go_rule_of r =
     \<lparr>gr_id = r_id r, gr_url_pattern = r_url_pattern r, gr_methods = r_methods r, gr_action = r_action r,
      gr_priority = r_priority r, gr_enabled = r_enabled r,
      gr_default_behavior = (case r_default_behavior r of None \<Rightarrow> [] | Some s \<Rightarrow> s),
      gr_log_request_body = r_log_request_body r, gr_log_response_body = r_log_response_body r\<rparr>"

definition applies :: "(string \<Rightarrow> (string \<Rightarrow> bool) option) \<Rightarrow> rule \<Rightarrow> string \<Rightarrow> string \<Rightarrow> bool" where
  "applies compile r url meth \<longleftrightarrow>
     r_enabled r \<and> (case compile (r_url_pattern r) of None \<Rightarrow> False | Some re \<Rightarrow> re url)
     \<and> (r_methods r = [] \<or> ''*'' \<in> set (r_methods r) \<or> meth \<in> set (r_methods r))"

definition sorts :: "(compiled list \<Rightarrow> compiled list) \<Rightarrow> bool" where
  "sorts sorter \<longleftrightarrow>
     (\<forall>rs. mset (sorter rs) = mset rs \<and> sorted_wrt (\<lambda>x y. gr_priority (fst y) \<le> gr_priority (fst x)) (sorter rs))"

definition fits_int64 :: "rule_row \<Rightarrow> bool" where
  "fits_int64 row \<longleftrightarrow>
     - (2 ^ 63) \<le> rr_id row \<and> rr_id row < 2 ^ 63 \<and> - (2 ^ 63) \<le> rr_priority row \<and> rr_priority row < 2 ^ 63"

lemma go_strings_list: "go_strings kvs k = (ms, True)" if "obj_get kvs k = Some (JArr (map JStr ms))"
  using that by (simp add: go_strings_def comp_def list_all_iff)

lemma decode_rule_json:
  assumes "fits_int64 row" "r_id (rule_of row) = rr_id row" "r_priority (rule_of row) = rr_priority row"
  shows "decode_rule (rule_json (rule_of row)) = (go_rule_of (rule_of row), True)"
proof -
  obtain kvs where kvs: "rule_json (rule_of row) = JObj kvs"
    and g: "obj_get kvs ''id'' = Some (JNum (rr_id row))" "obj_get kvs ''url_pattern'' = Some (JStr (r_url_pattern (rule_of row)))"
      "obj_get kvs ''methods'' = Some (JArr (map JStr (r_methods (rule_of row))))"
      "obj_get kvs ''action'' = Some (JStr (r_action (rule_of row)))" "obj_get kvs ''priority'' = Some (JNum (rr_priority row))"
      "obj_get kvs ''enabled'' = Some (JBool (r_enabled (rule_of row)))"
      "obj_get kvs ''default_behavior'' = Some (opt_str (r_default_behavior (rule_of row)))"
      "obj_get kvs ''log_request_body'' = Some (JStr (r_log_request_body (rule_of row)))"
      "obj_get kvs ''log_response_body'' = Some (JStr (r_log_response_body (rule_of row)))"
    by (simp add: rule_json_def base_rule_entries_def obj_get_def assms(2,3))
  show ?thesis
    using assms(1)
    by (simp add: decode_rule_def kvs go_int_def go_string_def go_bool_def go_strings_list [OF g(3)] g go_rule_of_def
        fits_int64_def opt_str_def assms(2,3) split: option.split)
qed

text \<open>What a list of rules decides about a request: nothing when none applies, else one of highest priority.\<close>

definition decides ::
  "(string \<Rightarrow> (string \<Rightarrow> bool) option) \<Rightarrow> rule list \<Rightarrow> string \<Rightarrow> string \<Rightarrow> go_rule option \<Rightarrow> bool" where
  "decides compile rs url meth res \<longleftrightarrow>
     (case res of
        None \<Rightarrow> \<forall>r \<in> set rs. \<not> applies compile r url meth
      | Some g \<Rightarrow> \<exists>r \<in> set rs. g = go_rule_of r \<and> applies compile r url meth
                   \<and> (\<forall>r' \<in> set rs. applies compile r' url meth \<longrightarrow> r_priority r' \<le> r_priority r))"

definition hits_compiled :: "string \<Rightarrow> string \<Rightarrow> compiled \<Rightarrow> bool" where
  "hits_compiled url meth c \<longleftrightarrow>
     snd c url \<and> (gr_methods (fst c) = [] \<or> ''*'' \<in> set (gr_methods (fst c)) \<or> meth \<in> set (gr_methods (fst c)))"

lemma first_match_find: "first_match cs url meth = map_option fst (find (hits_compiled url meth) cs)"
  by (induction cs) (auto simp: hits_compiled_def list_ex_iff)

lemma compiled_set:
  "set (compile_rules compile rs) = {(r, re). r \<in> set rs \<and> gr_enabled r \<and> compile (gr_url_pattern r) = Some re}"
  by (induction rs) (auto split: option.splits)

lemma compiled_applies:
  "(\<exists>c \<in> set (compile_rules compile (map go_rule_of rs)). fst c = g \<and> hits_compiled url meth c)
    \<longleftrightarrow> (\<exists>r \<in> set rs. g = go_rule_of r \<and> applies compile r url meth)"
  by (auto simp: compiled_set hits_compiled_def applies_def go_rule_of_def split: option.splits) fastforce+

lemma first_match_decides:
  assumes "sorts sorter"
  shows "decides compile rs url meth (first_match (sorter (compile_rules compile (map go_rule_of rs))) url meth)"
proof -
  let ?cs = "sorter (compile_rules compile (map go_rule_of rs))"
  have "mset ?cs = mset (compile_rules compile (map go_rule_of rs))" using assms by (simp add: sorts_def)
  then have set: "set ?cs = set (compile_rules compile (map go_rule_of rs))" by (rule mset_eq_setD)
  have sorted: "sorted_wrt (\<lambda>x y. gr_priority (fst y) \<le> gr_priority (fst x)) ?cs" using assms by (simp add: sorts_def)
  show ?thesis
  proof (cases "find (hits_compiled url meth) ?cs")
    case None
    then have "\<not> hits_compiled url meth c" if "c \<in> set ?cs" for c
      using that by (cases c) (auto simp: find_None_iff)
    then have "\<not> applies compile r url meth" if "r \<in> set rs" for r
      using that compiled_applies [of compile rs "go_rule_of r" url meth] unfolding set by blast
    then show ?thesis unfolding first_match_find None decides_def by simp
  next
    case (Some c)
    then obtain i where i: "i < length ?cs" "c = ?cs ! i" "hits_compiled url meth c"
      "\<And>j. j < i \<Longrightarrow> \<not> hits_compiled url meth (?cs ! j)" by (auto simp: find_Some_iff)
    have best: "gr_priority (fst c') \<le> gr_priority (fst c)" if c': "c' \<in> set ?cs" "hits_compiled url meth c'" for c'
    proof -
      obtain j where j: "j < length ?cs" "c' = ?cs ! j" using c'(1) by (auto simp: in_set_conv_nth)
      with i(4) c'(2) have "i \<le> j" by (meson not_le)
      with sorted i j show ?thesis by (cases "i = j") (auto simp: sorted_wrt_iff_nth_less)
    qed
    have "c \<in> set (compile_rules compile (map go_rule_of rs))" using i(1,2) set nth_mem by blast
    then obtain r where r: "r \<in> set rs" "fst c = go_rule_of r" "applies compile r url meth"
      using compiled_applies [of compile rs "fst c" url meth] i(3) by blast
    have "r_priority r' \<le> r_priority r" if r': "r' \<in> set rs" "applies compile r' url meth" for r'
    proof -
      obtain c' where "c' \<in> set ?cs" "fst c' = go_rule_of r'" "hits_compiled url meth c'"
        using compiled_applies [of compile rs "go_rule_of r'" url meth] r' unfolding set by blast
      with best have "gr_priority (go_rule_of r') \<le> gr_priority (go_rule_of r)" using r(2) by metis
      then show ?thesis by (simp add: go_rule_of_def)
    qed
    with r show ?thesis unfolding first_match_find Some decides_def by auto
  qed
qed

text \<open>The two forms of the message, as the server makes them.\<close>

lemma decode_rules_json:
  assumes "db_ok d" "rows \<subseteq> set (t_rules d)" "set rs \<subseteq> rule_of ` rows" "\<forall>row \<in> set (t_rules d). fits_int64 row"
  shows "decode_rules (Some (JArr (map rule_json rs))) = (map go_rule_of rs, True)"
proof -
  have "decode_rule (rule_json r) = (go_rule_of r, True)" if mem: "r \<in> set rs" for r
  proof -
    obtain row where row: "row \<in> set (t_rules d)" "r = rule_of row" using mem assms(2,3) by blast
    show ?thesis
      unfolding row(2) using assms(4) row(1) rule_of_hits(2,3) [OF assms(1) row(1)] by (intro decode_rule_json) auto
  qed
  then show ?thesis by (simp add: decode_rules_def list_all_iff)
qed

lemma agent_rules_rows: "set (agent_rules d a) \<subseteq> rule_of ` set (t_rules d)"
  by (auto simp: agent_rules_def agent_rows_def)

definition flat_reload_msg :: "db \<Rightarrow> message" where
  "flat_reload_msg d =
     [(''type'', JStr ''rules.reload''),
      (''data'', JArr (map rule_json (map rule_of (order_desc rr_priority (t_rules d)))))]"

lemma proxy_message_flat:
  assumes "decode_rules (Some (JArr vs)) = (rs, True)"
  shows "go_match (proxy_message compile sorter [(''type'', JStr ''rules.reload''), (''data'', JArr vs)] ev) agent url meth
    = first_match (sorter (compile_rules compile rs)) url meth"
proof -
  have g: "obj_get [(''type'', JStr ''rules.reload''), (''data'', JArr vs)] ''type'' = Some (JStr ''rules.reload'')"
    "obj_get [(''type'', JStr ''rules.reload''), (''data'', JArr vs)] ''data'' = Some (JArr vs)"
    by (simp_all add: obj_get_def)
  have p: "proxy_message compile sorter [(''type'', JStr ''rules.reload''), (''data'', JArr vs)] ev = load_flat compile sorter rs"
    unfolding proxy_message_def g by (simp add: decode_map_def assms)
  show ?thesis
    unfolding p load_flat_def load_map_def go_match_def bucket_def Let_def
    by (cases "agent = all_agents") simp_all
qed

lemma proxy_after_flat:
  assumes "db_ok d" "\<forall>row \<in> set (t_rules d). fits_int64 row" "sorts sorter"
  shows "decides compile (map rule_of (t_rules d)) url meth
    (go_match (proxy_message compile sorter (flat_reload_msg d) ev) agent url meth)"
proof -
  define rs where "rs = map rule_of (order_desc rr_priority (t_rules d))"
  have set: "set rs = rule_of ` set (t_rules d)" by (simp add: rs_def)
  have "decode_rules (Some (JArr (map rule_json rs))) = (map go_rule_of rs, True)"
    by (rule decode_rules_json [OF assms(1) subset_refl _ assms(2)]) (simp add: set)
  then have "go_match (proxy_message compile sorter (flat_reload_msg d) ev) agent url meth
      = first_match (sorter (compile_rules compile (map go_rule_of rs))) url meth"
    unfolding flat_reload_msg_def rs_def [symmetric] by (rule proxy_message_flat)
  moreover have "decides compile rs url meth x = decides compile (map rule_of (t_rules d)) url meth x" for x
    by (cases x) (simp_all add: decides_def set)
  ultimately show ?thesis using first_match_decides [OF assms(3), of compile rs url meth] by simp
qed

lemma proxy_after_map:
  assumes "db_ok d" "\<forall>row \<in> set (t_rules d). fits_int64 row"
  shows "proxy_message compile sorter (rules_reload_msg d) ev
    = map_of (map (\<lambda>a. (a_name a, sorter (compile_rules compile (map go_rule_of (agent_rules d (a_id a)))))) (list_agents d))"
proof -
  have r: "decode_rules (Some (JArr (map rule_json (agent_rules d (a_id a))))) = (map go_rule_of (agent_rules d (a_id a)), True)"
    for a by (rule decode_rules_json [OF assms(1) subset_refl agent_rules_rows assms(2)])
  show ?thesis
    by (simp add: proxy_message_def rules_reload_msg_def obj_get_def decode_map_def list_all_iff r load_map_def comp_def)
qed

section \<open>Properties\<close>

text \<open>
  C1: Each agent gets the rules of its own policies: once the proxy has processed the per-agent message the server
  sends on connection, a reload or a change of policies, the rule it picks for a request of an agent is one
  of highest priority among the enabled rules of that agent's policies that match, and none when none of
  them matches, whatever rules the proxy held before; a name that is no agent gets no rule. Needed are that
  no agent is called \<open>__all__\<close>, that ids and priorities fit in 64 bits, and that Go's sort sorts.
\<close>

theorem proxy_enforces_policies:
  assumes "db_ok d" "\<forall>row \<in> set (t_rules d). fits_int64 row" "sorts sorter" "''__all__'' \<notin> a_name ` set (list_agents d)"
  shows "(\<forall>a \<in> set (list_agents d). decides compile (agent_rules d (a_id a)) url meth
      (go_match (proxy_message compile sorter (rules_reload_msg d) ev) (a_name a) url meth))
    \<and> (\<forall>name. name \<notin> a_name ` set (list_agents d) \<longrightarrow>
         go_match (proxy_message compile sorter (rules_reload_msg d) ev) name url meth = None)"
proof -
  define f where "f a = sorter (compile_rules compile (map go_rule_of (agent_rules d (a_id a))))" for a :: agent
  define ev' where "ev' = map_of (map (\<lambda>a. (a_name a, f a)) (list_agents d))"
  have p: "proxy_message compile sorter (rules_reload_msg d) ev = ev'"
    using proxy_after_map [OF assms(1,2)] by (simp add: ev'_def f_def)
  have distinct: "distinct (map a_name (list_agents d))"
    using agent_names [OF assms(1)] by (simp add: list_agents_def comp_def deserialize_agent_def)
  have none: "ev' name = None" if "name \<notin> a_name ` set (list_agents d)" for name
    using that by (auto simp: ev'_def map_of_eq_None_iff)
  have fallback: "bucket ev' all_agents = []" using none assms(4) by (simp add: bucket_def all_agents_def)
  have lookup: "go_match ev' (a_name a) url meth = first_match (f a) url meth" if "a \<in> set (list_agents d)" for a
  proof -
    have "ev' (a_name a) = Some (f a)"
      unfolding ev'_def by (rule map_of_is_SomeI) (use that distinct in \<open>auto simp: comp_def\<close>)
    then show ?thesis by (simp add: go_match_def bucket_def [of _ "a_name a"] fallback Let_def)
  qed
  have "decides compile (agent_rules d (a_id a)) url meth (go_match ev' (a_name a) url meth)"
    if "a \<in> set (list_agents d)" for a
    unfolding lookup [OF that] f_def by (rule first_match_decides [OF assms(3)])
  moreover have "go_match ev' name url meth = None" if "name \<notin> a_name ` set (list_agents d)" for name
    using none [OF that] fallback by (simp add: go_match_def bucket_def [of _ name] Let_def)
  ultimately show ?thesis unfolding p by blast
qed

fun edits_rules :: "request \<Rightarrow> bool" where
  "edits_rules (PostRule _) = True"
| "edits_rules (PutRule _ _) = True"
| "edits_rules (DeleteRule _) = True"
| "edits_rules _ = False"

lemma send_rules_reload_flat:
  assumes "server_ok sv" "sv_file sv = None"
  shows "send_rules_reload e sv = Inr (send_msg e (flat_reload_msg (sv_db sv)) sv)"
  using list_rules_ok [OF server_db_ok [OF assms(1)]]
  by (simp add: send_rules_reload_def rules_list_json_def assms(2) flat_reload_msg_def)

lemma edit_sends_flat:
  assumes "server_ok sv" "sv_file sv = None" "edits_rules req" "handle_request e a req sv = Some (sv', r)"
    and "rs_status r \<in> {200, 201, 204}"
  shows "sv_ipc sv' = ipc_send (e_uuid e) (flat_reload_msg (sv_db sv')) (sv_ipc sv)"
proof -
  have st: "rs_status unauthorized = 401" "\<And>err. rs_status (error_handler e err) = 500" "rs_status read_only_reply = 403"
    by (simp_all add: unauthorized_def error_handler_def read_only_reply_def)
  have c: "server_ok t" "sv_file t = None" "sv_ipc t = sv_ipc sv" if "rules_create sv inp = Inr (t, x)" for inp t x
    using that rules_create_ok [OF assms(1) that] by (auto simp: rules_create_def assms(2) split: sum.splits)
  have u: "server_ok t" "sv_file t = None" "sv_ipc t = sv_ipc sv" if "rules_update sv i ch = Inr (t, x)" for i ch t x
    using that rules_update_ok [OF assms(1) that] by (auto simp: rules_update_def assms(2) split: sum.splits)
  have d: "server_ok t" "sv_file t = None" "sv_ipc t = sv_ipc sv" if "rules_delete sv i = Inr t" for i t
    using that rules_delete_ok [OF assms(1) that] by (auto simp: rules_delete_def assms(2))
  have auth: "basic_auth (sv_auth sv) a" using assms(3,4,5) st by (cases req) (auto simp: handle_request_def split: if_splits)
  show ?thesis
  proof (cases req)
    case (PostRule inp)
    with assms(4,5) auth show ?thesis
      by (auto simp: handle_request_def post_rule_def st send_rules_reload_flat c
          split: if_splits sum.splits option.splits prod.splits)
  next
    case (PutRule i ch)
    with assms(4,5) auth show ?thesis
      by (auto simp: handle_request_def put_rule_def st send_rules_reload_flat u
          split: if_splits sum.splits option.splits prod.splits)
  next
    case (DeleteRule i)
    with assms(4,5) auth show ?thesis
      by (auto simp: handle_request_def delete_rule_route_def st send_rules_reload_flat d
          split: if_splits sum.splits option.splits prod.splits)
  qed (use assms(3) in simp_all)
qed

text \<open>
  C9: Creating, changing or deleting a rule suspends the separation of the agents: each such request that
  succeeds sends the proxy one message, and the proxy that processes it decides the request of any agent,
  known or not, by the rules of all policies together, until the next per-agent message.
\<close>

theorem rule_edit_drops_isolation:
  assumes "server_ok sv" "sv_file sv = None" "edits_rules req" "handle_request e a req sv = Some (sv', r)"
    and "rs_status r \<in> {200, 201, 204}" "\<forall>row \<in> set (t_rules (sv_db sv')). fits_int64 row" "sorts sorter"
  shows "\<exists>msg. sv_ipc sv' = ipc_send (e_uuid e) msg (sv_ipc sv)
    \<and> (\<forall>ev agent url meth. decides compile (map rule_of (t_rules (sv_db sv'))) url meth
         (go_match (proxy_message compile sorter msg ev) agent url meth))"
proof -
  have "server_ok sv'" using handle_request_answers [OF assms(1), of e a req] assms(4) by auto
  with proxy_after_flat [OF server_db_ok _ assms(7)] edit_sends_flat [OF assms(1-5)] assms(6) show ?thesis by blast
qed

lemma empty_reload:
  assumes "sorts sorter"
  shows "go_match (proxy_message compile sorter [(''type'', JStr ''rules.reload'')] ev) agent url meth = None"
proof -
  have g: "obj_get [(''type'', JStr ''rules.reload'')] ''type'' = Some (JStr ''rules.reload'')"
      "obj_get [(''type'', JStr ''rules.reload'')] ''data'' = None"
    by (simp_all add: obj_get_def)
  have p: "proxy_message compile sorter [(''type'', JStr ''rules.reload'')] ev = load_flat compile sorter []"
    unfolding proxy_message_def g by (simp add: decode_map_def decode_rules_def)
  have "mset (sorter []) = mset []" using assms unfolding sorts_def by blast
  then have "sorter [] = []" by simp
  then show ?thesis
    unfolding p load_flat_def load_map_def go_match_def bucket_def Let_def
    by (cases "agent = all_agents") simp_all
qed


section \<open>The properties at concrete inputs\<close>

text \<open>A sort and a matcher for the witnesses: sorting by key, and patterns taken as texts.\<close>

definition sample_sort :: "compiled list \<Rightarrow> compiled list" where
  "sample_sort = sort_key (\<lambda>c. - gr_priority (fst c))"

lemma sample_sort_sorts: "sorts sample_sort"
proof -
  have "sorted_wrt (\<lambda>x y. gr_priority (fst y) \<le> gr_priority (fst x)) (sample_sort rs)" for rs
    using sorted_sort_key [of "\<lambda>c. - gr_priority (fst c)" rs]
    by (simp add: sample_sort_def sorted_map sorted_wrt_map)
  then show ?thesis by (simp add: sorts_def sample_sort_def)
qed

lemma tree_db_fits: "\<forall>row \<in> set (t_rules tree_db). fits_int64 row"
  by (simp add: tree_db_def fits_int64_def sample_rule_def)

theorem proxy_enforces_policies_witness:
  "go_match (proxy_message (\<lambda>p. Some ((=) p)) sample_sort (rules_reload_msg tree_db) Map.empty) ''nobody'' ''x'' ''GET'' = None"
proof -
  have names: "a_name ` set (list_agents tree_db) = {''a''}"
    by (simp add: list_agents_def tree_db_def sample_agent_def deserialize_agent_def)
  from proxy_enforces_policies [OF tree_db_ok tree_db_fits sample_sort_sorts, of "\<lambda>p. Some ((=) p)" "''x''" "''GET''" Map.empty]
  show ?thesis unfolding names by simp
qed

lemma delete_rule_answer:
  assumes "server_ok sv" "sv_file sv = None" "\<not> source_is_file sv" "basic_auth (sv_auth sv) a"
  shows "\<exists>sv'. handle_request e a (DeleteRule i) sv = Some (sv', no_content) \<and> sv_db sv' = delete_rule (sv_db sv) i"
proof -
  have "server_ok (sv\<lparr>sv_db := delete_rule (sv_db sv) i\<rparr>)"
    by (intro set_db_ok assms(1) delete_rule_ok server_db_ok)
  from send_rules_reload_flat [OF this] show ?thesis
    using assms(2-4) by (simp add: handle_request_def delete_rule_route_def rules_delete_def)
qed

theorem rule_edit_drops_isolation_witness:
  "\<exists>sv msg. handle_request sample_env (Some ''Basic dTpw'') (DeleteRule None) (sample_server tree_db) = Some (sv, no_content)
     \<and> (\<forall>ev agent url meth. decides (\<lambda>p. Some ((=) p)) (map rule_of (t_rules tree_db)) url meth
           (go_match (proxy_message (\<lambda>p. Some ((=) p)) sample_sort msg ev) agent url meth))"
proof -
  note ok = sample_server_ok [OF tree_db_ok]
  have none: "sv_file (sample_server tree_db) = None" and db: "sv_db (sample_server tree_db) = tree_db"
    by (simp_all add: sample_server_def)
  have src: "\<not> source_is_file (sample_server tree_db)"
    by (simp add: source_is_file_def sample_server_def defaults_def field_def obj_get_def)
  from delete_rule_answer [OF ok none src sample_auth, of sample_env None] obtain sv where
    h: "handle_request sample_env (Some ''Basic dTpw'') (DeleteRule None) (sample_server tree_db) = Some (sv, no_content)"
    and d: "sv_db sv = delete_rule tree_db None" unfolding db by blast
  have "delete_rule tree_db None = tree_db" by (simp add: delete_rule_def)
  with d have "sv_db sv = tree_db" by simp
  then have f: "\<forall>row \<in> set (t_rules (sv_db sv)). fits_int64 row" and eq: "t_rules (sv_db sv) = t_rules tree_db"
    using tree_db_fits by simp_all
  from rule_edit_drops_isolation [OF ok none _ h _ f sample_sort_sorts, of "\<lambda>p. Some ((=) p)"] h
  show ?thesis unfolding eq by (simp only: edits_rules.simps) (auto simp: no_content_def)
qed


end
