(* ===== verification/Gui.thy ===== *)
theory Gui
  imports System "HOL-Library.Sublist"
begin

text \<open>
  The logic of the browser application (\<open>gui/src\<close>) that the server depends on or that depends on the
  server: the login and the API client, the reader of the event stream, the badge of pending approvals, the
  forms that make rules, and what the pages compute from the server's answers. Rendering is not modelled.
\<close>

section \<open>Login and API client\<close>

text \<open>
  \<open>btoa\<close> on the code points of a text: \<open>None\<close> is the exception on a code point above 255. The base64 alphabet
  is that of the server's decoder.
\<close>

definition base64_char :: "nat \<Rightarrow> char" where
  "base64_char n =
     (if n < 26 then char_of (n + 65) else if n < 52 then char_of (n + 71) else if n < 62 then char_of (n - 4)
      else if n = 62 then CHR ''+'' else CHR ''/'')"

fun base64_encode :: "nat list \<Rightarrow> string" where
  "base64_encode (a # b # c # rest) =
     base64_char (a div 4) # base64_char (16 * (a mod 4) + b div 16) # base64_char (4 * (b mod 16) + c div 64)
       # base64_char (c mod 64) # base64_encode rest"
| "base64_encode [a, b] =
     [base64_char (a div 4), base64_char (16 * (a mod 4) + b div 16), base64_char (4 * (b mod 16)), CHR ''='']"
| "base64_encode [a] = [base64_char (a div 4), base64_char (16 * (a mod 4)), CHR ''='', CHR ''='']"
| "base64_encode [] = []"

definition btoa :: "nat list \<Rightarrow> string option" where
  "btoa cps = (if list_all (\<lambda>c. c < 256) cps then Some (base64_encode cps) else None)"

text \<open>\<open>handleSubmit\<close> of the login page: the header, and whether the probe of \<open>/api/rules\<close> logs in.\<close>

definition login_header :: "nat list \<Rightarrow> nat list \<Rightarrow> string option" where
  "login_header user pass = map_option (\<lambda>c. ''Basic '' @ c) (btoa (user @ 58 # pass))"

definition response_ok :: "response \<Rightarrow> bool" where
  "response_ok r \<longleftrightarrow> 200 \<le> rs_status r \<and> rs_status r \<le> 299"

definition login :: "env \<Rightarrow> server \<Rightarrow> nat list \<Rightarrow> nat list \<Rightarrow> bool" where
  "login e sv user pass =
     (case login_header user pass of
        None \<Rightarrow> False
      | Some h \<Rightarrow>
          (case handle_request e (Some h) GetRules sv of
             None \<Rightarrow> False
           | Some (_, r) \<Rightarrow> response_ok r))"

text \<open>What a call of the API client returns or throws for a response (\<open>request\<close>; \<open>requestRaw\<close> reads text).\<close>

datatype client_result = AuthErr | HttpErr nat "json option" | NoValue | Value json | NotJson

definition client_answer :: "response \<Rightarrow> client_result" where
  "client_answer r =
     (if rs_status r = 401 then AuthErr
      else if \<not> response_ok r then HttpErr (rs_status r) (case rs_body r of Json v \<Rightarrow> Some v | _ \<Rightarrow> None)
      else if rs_status r = 204 then NoValue
      else (case rs_body r of Json v \<Rightarrow> Value v | _ \<Rightarrow> NotJson))"

lemma base64_value_char:
  assumes "n < 64"
  shows "base64_value (base64_char n) = Some n"
proof -
  have code: "code (char_of k) = k" if "k < 256" for k using that by (simp add: code_def)
  consider "n < 26" | "26 \<le> n" "n < 52" | "52 \<le> n" "n < 62" | "n = 62" | "n = 63" using assms by linarith
  then show ?thesis
  proof cases
    case 4
    have "base64_value (CHR ''+'') = Some 62" by code_simp
    then show ?thesis by (simp add: base64_char_def 4)
  next
    case 5
    have "base64_value (CHR ''/'') = Some 63" by code_simp
    then show ?thesis by (simp add: base64_char_def 5)
  next
    case 3
    then have "48 \<le> n - 4" "n - 4 \<le> 57" by linarith+
    then show ?thesis using 3 by (simp add: base64_char_def base64_value_def code Let_def)
  qed (simp_all add: base64_char_def base64_value_def code Let_def)
qed

lemma base64_padding: "base64_value (CHR ''='') = None"
  by code_simp

lemma base64_inverse: "\<forall>c \<in> set bs. c < 256 \<Longrightarrow> base64_decode (base64_encode bs) = map char_of bs"
proof (induction bs rule: base64_encode.induct)
  case (1 a b c rest)
  have n: "a div 4 < 64" "16 * (a mod 4) + b div 16 < 64" "4 * (b mod 16) + c div 64 < 64" "c mod 64 < 64"
    using 1(2) by auto
  have "4 * (a div 4) + (16 * (a mod 4) + b div 16) div 16 = a" "16 * ((16 * (a mod 4) + b div 16) mod 16) + (4 * (b mod 16) + c div 64) div 4 = b"
    "64 * ((4 * (b mod 16) + c div 64) mod 4) + c mod 64 = c"
    using 1(2) by auto
  then show ?case
    using 1 n by (simp add: base64_decode_def base64_value_char map_filter_simps)
next
  case (2 a b)
  have n: "a div 4 < 64" "16 * (a mod 4) + b div 16 < 64" "4 * (b mod 16) < 64" using 2 by auto
  have "4 * (a div 4) + (16 * (a mod 4) + b div 16) div 16 = a" "16 * ((16 * (a mod 4) + b div 16) mod 16) + (4 * (b mod 16)) div 4 = b"
    using 2 by auto
  then show ?case using n by (simp add: base64_decode_def base64_value_char base64_padding map_filter_simps)
next
  case (3 a)
  have n: "a div 4 < 64" "16 * (a mod 4) < 64" using 3 by auto
  have "4 * (a div 4) + (16 * (a mod 4)) div 16 = a" by auto
  then show ?case using n by (simp add: base64_decode_def base64_value_char base64_padding map_filter_simps)
qed (simp add: base64_decode_def map_filter_simps)

lemma char_of_inj:
  assumes "a < 256" "b < 256"
  shows "(char_of a :: char) = char_of b \<longleftrightarrow> a = (b :: nat)"
proof
  assume "(char_of a :: char) = char_of b"
  then have "(of_char (char_of a :: char) :: nat) = of_char (char_of b :: char)" by simp
  with assms show "a = b" by simp
qed simp

section \<open>The event stream\<close>

text \<open>
  The read loop of \<open>useSSE\<close>: the text of each chunk is appended to the incomplete line; the current event type
  does not survive the chunk. What is delivered is a list of calls of \<open>onEvent\<close>.
\<close>

fun sse_lines :: "string option \<Rightarrow> string list \<Rightarrow> (string \<times> json) list" where
  "sse_lines current [] = []"
| "sse_lines current (line # ls) =
     (if take 7 line = ''event: '' then sse_lines (Some (trim (drop 7 line))) ls
      else
        (case current of
           Some t \<Rightarrow>
             if take 6 line = ''data: '' \<and> t \<noteq> []
             then (case json_parse (drop 6 line) of None \<Rightarrow> [] | Some v \<Rightarrow> [(t, v)]) @ sse_lines None ls
             else if line = [] then sse_lines None ls
             else sse_lines current ls
         | None \<Rightarrow> sse_lines None ls))"

definition sse_chunk :: "string \<Rightarrow> string \<Rightarrow> (string \<times> json) list \<times> string" where
  "sse_chunk buffer part =
     (let lines = split_nl (buffer @ part) in (sse_lines None (butlast lines), last lines))"

fun sse_run :: "string \<Rightarrow> string list \<Rightarrow> (string \<times> json) list" where
  "sse_run buffer [] = []"
| "sse_run buffer (part # parts) =
     (case sse_chunk buffer part of (evs, buffer') \<Rightarrow> evs @ sse_run buffer' parts)"

text \<open>The current type after some lines.\<close>

fun sse_current :: "string option \<Rightarrow> string list \<Rightarrow> string option" where
  "sse_current current [] = current"
| "sse_current current (line # ls) =
     (if take 7 line = ''event: '' then sse_current (Some (trim (drop 7 line))) ls
      else
        (case current of
           Some t \<Rightarrow>
             if take 6 line = ''data: '' \<and> t \<noteq> [] then sse_current None ls
             else if line = [] then sse_current None ls
             else sse_current current ls
         | None \<Rightarrow> sse_current None ls))"

lemma sse_lines_append: "sse_lines c (xs @ ys) = sse_lines c xs @ sse_lines (sse_current c xs) ys"
  by (induction xs arbitrary: c) (auto split: option.splits)

text \<open>Forgetting the type at a boundary can only lose events.\<close>

lemma sse_lines_forget: "subseq (sse_lines None ls) (sse_lines c ls)"
proof (induction ls arbitrary: c)
  case (Cons line ls)
  show ?case
  proof (cases "take 7 line = ''event: ''")
    case False
    then show ?thesis using Cons by (auto simp: subseq_append_iff split: option.splits intro: list_emb_append2 list_emb_Cons)
  qed simp
qed simp

lemma split_nl_carry: "split_nl (s @ t) = butlast (split_nl s) @ split_nl (last (split_nl s) @ t)"
  by (induction s) (auto simp: split_nl_nonempty split: list.splits)

text \<open>However the stream is cut, the calls are a subsequence of those of the uncut stream.\<close>

lemma sse_run_subseq:
  assumes "newline \<notin> set buffer"
  shows "subseq (sse_run buffer chunks) (sse_lines c (butlast (split_nl (buffer @ concat chunks))))"
  using assms
proof (induction chunks arbitrary: buffer c)
  case (Cons part chunks)
  let ?ls = "split_nl (buffer @ part)"
  have clean: "newline \<notin> set (last ?ls)"
    using split_nl_lines_clean [of "last ?ls" "buffer @ part"] split_nl_nonempty by simp
  have split: "split_nl (buffer @ part @ concat chunks) = butlast ?ls @ split_nl (last ?ls @ concat chunks)"
    using split_nl_carry [of "buffer @ part" "concat chunks"] by simp
  have "subseq (sse_lines None (butlast ?ls)) (sse_lines c (butlast ?ls))" by (rule sse_lines_forget)
  moreover have "subseq (sse_run (last ?ls) chunks)
      (sse_lines (sse_current c (butlast ?ls)) (butlast (split_nl (last ?ls @ concat chunks))))"
    by (rule Cons.IH [OF clean])
  ultimately have "subseq (sse_lines None (butlast ?ls) @ sse_run (last ?ls) chunks)
      (sse_lines c (butlast ?ls) @ sse_lines (sse_current c (butlast ?ls)) (butlast (split_nl (last ?ls @ concat chunks))))"
    by (rule list_emb_append_mono)
  then show ?case
    by (simp add: sse_chunk_def Let_def split butlast_append split_nl_nonempty sse_lines_append)
qed simp

text \<open>The events the server emits: their types, and what the lines of one deliver.\<close>

definition event_types :: "string list" where
  "event_types = [''request.allowed'', ''request.blocked'', ''approval.needed'', ''approval.resolved'',
     ''rules.changed'', ''policies.changed'']"

definition event_lines :: "event \<Rightarrow> string list" where
  "event_lines e =
     [''id: '' @ show_nat (ev_id e), ''event: '' @ ev_type e, ''data: '' @ stringify (ev_data e), []]"

lemma event_type_ok: "t \<in> set event_types \<Longrightarrow> newline \<notin> set t \<and> trim t = t \<and> t \<noteq> []"
  by (auto simp: event_types_def trim_def trim_ws_def)

lemma split_event:
  assumes "newline \<notin> set (ev_type e)"
  shows "split_nl (event_text e @ s) = event_lines e @ split_nl s"
proof -
  have n: "newline \<notin> set (show_nat k)" for k
    using show_nat_digits [of k] by (auto simp: list_all_iff is_digit_def newline_code)
  have l: "newline \<notin> set (''id: '' @ show_nat (ev_id e))" "newline \<notin> set (''event: '' @ ev_type e)"
      "newline \<notin> set (''data: '' @ stringify (ev_data e))"
    using n assms stringify_no_newline by simp_all
  have t: "event_text e @ s = (''id: '' @ show_nat (ev_id e)) @ newline # ((''event: '' @ ev_type e) @ newline #
      ((''data: '' @ stringify (ev_data e)) @ newline # ([] @ newline # s)))"
    unfolding event_text_def nl_def append_assoc by simp
  show ?thesis
    unfolding t split_nl_line [OF l(1)] split_nl_line [OF l(2)] split_nl_line [OF l(3)] event_lines_def by simp
qed

lemma sse_event_lines:
  assumes "ev_type e \<in> set event_types" "json_wf (ev_data e)"
  shows "sse_lines c (event_lines e) = [(ev_type e, ev_data e)]" "sse_current c (event_lines e) = None"
  using event_type_ok [OF assms(1)] js.dec_enc [OF assms(2)]
  by (simp_all add: event_lines_def split: option.splits del: stringify.simps)

lemma split_events:
  assumes "\<forall>e \<in> set es. ev_type e \<in> set event_types"
  shows "split_nl (concat (map event_text es) @ s) = concat (map event_lines es) @ split_nl s"
  using assms
proof (induction es)
  case (Cons e es)
  then show ?case using split_event [of e "concat (map event_text es) @ s"] event_type_ok by simp
qed simp

lemma sse_events_lines:
  assumes "\<forall>e \<in> set es. ev_type e \<in> set event_types \<and> json_wf (ev_data e)"
  shows "sse_lines None (concat (map event_lines es)) = map (\<lambda>e. (ev_type e, ev_data e)) es"
  using assms
proof (induction es)
  case (Cons e es)
  then show ?case by (simp add: sse_lines_append sse_event_lines)
qed simp

lemma sse_run_frames:
  assumes "\<forall>e \<in> set es. ev_type e \<in> set event_types \<and> json_wf (ev_data e)"
  shows "sse_run [] (map event_text es) = map (\<lambda>e. (ev_type e, ev_data e)) es"
  using assms
proof (induction es)
  case (Cons e es)
  have "split_nl (event_text e) = event_lines e @ [[]]"
    using split_event [of e "[]"] event_type_ok Cons.prems by simp
  then have "sse_chunk [] (event_text e) = ([(ev_type e, ev_data e)], [])"
    using Cons.prems by (simp add: sse_chunk_def Let_def butlast_append sse_event_lines)
  with Cons show ?case by simp
qed simp

section \<open>The badge of pending approvals\<close>

text \<open>\<open>ApprovalTracker\<close>.\<close>

definition badge :: "string \<Rightarrow> nat \<Rightarrow> nat" where
  "badge event_type n =
     (if event_type = ''approval.needed'' then n + 1
      else if event_type = ''approval.resolved'' then n - 1
      else n)"

section \<open>Forms and pages\<close>

text \<open>
  The rule form: \<open>EMPTY\<close>, what its inputs change, and \<open>handleSaveRule\<close> for a new rule. \<open>default_behavior\<close> has no
  input.
\<close>

definition empty_form :: rule_input where
  "empty_form =
     \<lparr>ri_name = Some [], ri_url_pattern = Some [], ri_methods = Some [], ri_action = Some ''allow'', ri_priority = Some 0,
      ri_agent_id = None, ri_log_request_body = Some ''full'', ri_log_response_body = Some ''full'',
      ri_default_behavior = Some [], ri_enabled = Some True, ri_policy_id = None\<rparr>"

datatype form_change =
    SetName string
  | SetPattern string
  | SetMethods "string list"
  | SetAction string
  | SetPriority int
  | SetRequestLog string
  | SetResponseLog string
  | SetEnabled bool

fun set_form :: "form_change \<Rightarrow> rule_input \<Rightarrow> rule_input" where
  "set_form (SetName s) f = f\<lparr>ri_name := Some s\<rparr>"
| "set_form (SetPattern s) f = f\<lparr>ri_url_pattern := Some s\<rparr>"
| "set_form (SetMethods ms) f = f\<lparr>ri_methods := Some ms\<rparr>"
| "set_form (SetAction s) f = f\<lparr>ri_action := Some s\<rparr>"
| "set_form (SetPriority n) f = f\<lparr>ri_priority := Some n\<rparr>"
| "set_form (SetRequestLog s) f = f\<lparr>ri_log_request_body := Some s\<rparr>"
| "set_form (SetResponseLog s) f = f\<lparr>ri_log_response_body := Some s\<rparr>"
| "set_form (SetEnabled b) f = f\<lparr>ri_enabled := Some b\<rparr>"

definition new_rule_request :: "form_change list \<Rightarrow> int option \<Rightarrow> request" where
  "new_rule_request changes selected = PostRule ((foldl (\<lambda>f c. set_form c f) empty_form changes)\<lparr>ri_policy_id := selected\<rparr>)"

text \<open>\<open>generatePatterns\<close>: the suggestions of the rule builder.\<close>

definition strip_protocol :: "string \<Rightarrow> string" where
  "strip_protocol url =
     (if take 7 url = ''http://'' then drop 7 url else if take 8 url = ''https://'' then drop 8 url else url)"

fun split_slash :: "string \<Rightarrow> string list" where
  "split_slash [] = [[]]"
| "split_slash (c # s) =
     (if c = CHR ''/'' then [] # split_slash s
      else (case split_slash s of l # ls \<Rightarrow> (c # l) # ls | [] \<Rightarrow> [[c]]))"

definition path_parts :: "string \<Rightarrow> string list" where
  "path_parts path = filter (\<lambda>p. p \<noteq> []) (split_slash path)"

definition prefix_pattern :: "string \<Rightarrow> string list \<Rightarrow> nat \<Rightarrow> string" where
  "prefix_pattern domain parts i = domain @ ''/'' @ sep_by ''/'' (take i parts) @ ''/*''"

definition level_label :: "nat \<Rightarrow> nat \<Rightarrow> string" where
  "level_label n i = (if i = n - 1 then ''path'' else if i = 1 then ''api'' else ''level-'' @ show_nat i)"

definition generate_patterns :: "string \<Rightarrow> (string \<times> string) list" where
  "generate_patterns url =
     (if url = [] then []
      else
        (let clean = strip_protocol url in
         if CHR ''/'' \<notin> set clean then [(clean, ''exact''), (clean @ ''/*'', ''domain'')]
         else
           (let domain = takeWhile (\<lambda>c. c \<noteq> CHR ''/'') clean;
                parts = path_parts (tl (dropWhile (\<lambda>c. c \<noteq> CHR ''/'') clean))
            in [(clean, ''exact'')]
               @ map (\<lambda>i. (prefix_pattern domain parts i, level_label (length parts) i)) (rev [1..<length parts])
               @ [(domain @ ''/*'', ''domain'')])))"

text \<open>The approvals page: the agent of the selected entry and \<open>handleAssignPolicy\<close>, as the calls it makes.\<close>

definition selected_agent :: "object list \<Rightarrow> object \<Rightarrow> object option" where
  "selected_agent agents selected = find (\<lambda>a. obj_get a ''id'' = obj_get selected ''agent_id'') agents"

datatype page_call = AssignCall json json | ResolveCall json string

definition assign_and_approve :: "object \<Rightarrow> json option \<Rightarrow> page_call list" where
  "assign_and_approve approval policy_id =
     (if truthy (obj_get approval ''agent_id'') \<and> truthy policy_id
      then [AssignCall (the policy_id) (the (obj_get approval ''agent_id''))] else [])
     @ (case obj_get approval ''id'' of None \<Rightarrow> [] | Some i \<Rightarrow> [ResolveCall i ''approve''])"

text \<open>\<open>buildAgentPoliciesMap\<close>: the policies of each agent, from \<open>p.agent_ids || p.agents || []\<close>.\<close>

definition policy_agent_ids :: "object \<Rightarrow> json list" where
  "policy_agent_ids p =
     (if truthy (obj_get p ''agent_ids'') then (case obj_get p ''agent_ids'' of Some (JArr vs) \<Rightarrow> vs | _ \<Rightarrow> [])
      else if truthy (obj_get p ''agents'') then (case obj_get p ''agents'' of Some (JArr vs) \<Rightarrow> vs | _ \<Rightarrow> [])
      else [])"

definition agent_policies :: "object list \<Rightarrow> object list \<Rightarrow> json \<rightharpoonup> object list" where
  "agent_policies agents policies =
     foldl (\<lambda>m (i, p). case m i of None \<Rightarrow> m | Some ps \<Rightarrow> m(i \<mapsto> ps @ [p]))
       (map_of (map (\<lambda>a. (the (obj_get a ''id''), [])) agents))
       (concat (map (\<lambda>p. map (\<lambda>i. (i, p)) (policy_agent_ids p)) policies))"

section \<open>Properties\<close>

lemma ascii_codes: "code (char_of c) < 128" if "c < 128" for c :: nat
  using that by (simp add: code_def)

lemma char_of_58: "char_of (58 :: nat) = CHR '':''"
  by code_simp

lemma code_colon: "c < 256 \<Longrightarrow> char_of c = CHR '':'' \<longleftrightarrow> c = (58 :: nat)"
  unfolding char_of_58 [symmetric] by (rule char_of_inj) simp_all

lemma cut_at_colon:
  assumes "CHR '':'' \<notin> set u"
  shows "takeWhile (\<lambda>c. c \<noteq> CHR '':'') (u @ CHR '':'' # p) = u" "dropWhile (\<lambda>c. c \<noteq> CHR '':'') (u @ CHR '':'' # p) = CHR '':'' # p"
  using assms by (induction u) auto

lemma credentials_of_text:
  assumes "\<forall>c \<in> set bs. c < 128" "map char_of bs = u @ CHR '':'' # p" "CHR '':'' \<notin> set u"
  shows "credentials (''Basic '' @ base64_encode bs) = Some (u, p)"
proof -
  have "\<forall>c \<in> set bs. c < 256" using assms(1) by auto
  from base64_inverse [OF this] have "base64_decode (base64_encode bs) = u @ CHR '':'' # p" using assms(2) by simp
  moreover have "to_utf8 (map char_of bs) = map char_of bs"
    by (rule to_utf8_ascii) (use assms(1) ascii_codes in auto)
  ultimately have dec: "to_utf8 (base64_decode (base64_encode bs)) = u @ CHR '':'' # p" using assms(2) by simp
  have hd: "take 6 (''Basic '' @ s) = ''Basic ''" "drop 6 (''Basic '' @ s) = s" for s by simp_all
  show ?thesis unfolding credentials_def hd dec Let_def cut_at_colon [OF assms(3)] by simp
qed

lemma credentials_login:
  assumes "\<forall>c \<in> set user \<union> set pass. c < 128" "58 \<notin> set user"
  shows "\<exists>h. login_header user pass = Some h \<and> credentials h = Some (map char_of user, map char_of pass)"
proof -
  have small: "\<forall>c \<in> set (user @ 58 # pass). c < 128" using assms(1) by simp
  have "\<forall>c \<in> set (user @ 58 # pass). c < 256"
  proof
    fix c assume "c \<in> set (user @ 58 # pass)"
    with small have "c < 128" by blast
    then show "c < 256" by linarith
  qed
  then have "list_all (\<lambda>c. c < 256) (user @ 58 # pass)" by (simp only: list_all_iff)
  then have h: "login_header user pass = Some (''Basic '' @ base64_encode (user @ 58 # pass))"
    unfolding login_header_def btoa_def by (simp only: if_True option.map)
  have "char_of c \<noteq> CHR '':''" if "c \<in> set user" for c
  proof -
    have "c < 128" using small that by simp
    then have "c < 256" by linarith
    from code_colon [OF this] that assms(2) show ?thesis by blast
  qed
  then have no: "CHR '':'' \<notin> set (map char_of user)" by (metis (no_types, lifting) image_iff list.set_map)
  have m: "map char_of (user @ 58 # pass) = map char_of user @ CHR '':'' # map char_of pass"
    unfolding map_append list.map char_of_58 ..
  show ?thesis using h credentials_of_text [OF small m no] by blast
qed

text \<open>
  C31: The login works: with ASCII names and passwords the browser lets in exactly who the configuration names,
  with that password, which must not be empty: base64 of the browser, the header, and the decoder of the server
  fit together (the name contains no colon).
\<close>

theorem login_matches_configuration:
  assumes "server_ok sv" "\<forall>c \<in> set user \<union> set pass. c < 128" "58 \<notin> set user"
  shows "login e sv user pass \<longleftrightarrow>
    obj_get (sv_auth sv) (map char_of user) = Some (JStr (map char_of pass)) \<and> pass \<noteq> []"
proof -
  obtain h where h: "login_header user pass = Some h" "credentials h = Some (map char_of user, map char_of pass)"
    using credentials_login [OF assms(2,3)] by blast
  have auth: "basic_auth (sv_auth sv) (Some h) \<longleftrightarrow>
      obj_get (sv_auth sv) (map char_of user) = Some (JStr (map char_of pass)) \<and> pass \<noteq> []"
    by (auto simp: basic_auth_def h(2) split: option.splits json.splits)
  obtain rules where "rules_list_json sv = Inr rules" using rules_list_json_result [OF assms(1)] by blast
  then have "login e sv user pass \<longleftrightarrow> basic_auth (sv_auth sv) (Some h)"
    by (simp add: login_def h(1) handle_request_def get_rules_def response_ok_def unauthorized_def)
  with auth show ?thesis by simp
qed

text \<open>
  C34: The browser reads the events of the server: when every write arrives as one chunk each event is
  delivered, with its type and data, once and in order; however the stream is cut into chunks nothing else is
  ever delivered, no event twice and none out of order; but an event that is cut behind its type line is lost.
\<close>

theorem sse_reader_delivers:
  assumes "\<forall>e \<in> set es. ev_type e \<in> set event_types \<and> json_wf (ev_data e)"
  shows "sse_run [] (('':ok'' @ nl @ nl) # map event_text es) = map (\<lambda>e. (ev_type e, ev_data e)) es
    \<and> (\<forall>chunks. concat chunks = '':ok'' @ nl @ nl @ concat (map event_text es) \<longrightarrow>
         subseq (sse_run [] chunks) (map (\<lambda>e. (ev_type e, ev_data e)) es))
    \<and> (\<forall>e \<in> set es. sse_run [] [''id: '' @ show_nat (ev_id e) @ nl @ ''event: '' @ ev_type e @ nl,
         ''data: '' @ stringify (ev_data e) @ nl @ nl] = [])"
proof (intro conjI allI impI ballI)
  have ok: "split_nl ('':ok'' @ nl @ nl @ s) = '':ok'' # [] # split_nl s" for s by (simp add: nl_def)
  have quiet: "sse_lines c ['':ok'', []] = []" "sse_current None ['':ok'', []] = None" for c by (simp_all split: option.splits)
  have "sse_chunk [] ('':ok'' @ nl @ nl) = ([], [])"
    using ok [of "[]"] quiet by (simp add: sse_chunk_def Let_def)
  then show "sse_run [] (('':ok'' @ nl @ nl) # map event_text es) = map (\<lambda>e. (ev_type e, ev_data e)) es"
    using sse_run_frames [OF assms] by (simp only: sse_run.simps) simp
next
  fix chunks
  assume c: "concat chunks = '':ok'' @ nl @ nl @ concat (map event_text es)"
  have types: "\<forall>e \<in> set es. ev_type e \<in> set event_types" using assms by blast
  have "split_nl (concat (map event_text es)) = concat (map event_lines es) @ [[]]"
    using split_events [OF types, of "[]"] by simp
  then have lines: "butlast (split_nl ([] @ concat chunks)) = ['':ok'', []] @ concat (map event_lines es)"
    unfolding c by (simp add: nl_def butlast_append)
  have "sse_lines None (butlast (split_nl ([] @ concat chunks))) = map (\<lambda>e. (ev_type e, ev_data e)) es"
    unfolding lines sse_lines_append using sse_events_lines [OF assms] by simp
  with sse_run_subseq [of "[]" chunks None] show "subseq (sse_run [] chunks) (map (\<lambda>e. (ev_type e, ev_data e)) es)" by simp
next
  fix e assume e: "e \<in> set es"
  have n: "newline \<notin> set (show_nat k)" for k
    using show_nat_digits [of k] by (auto simp: list_all_iff is_digit_def newline_code)
  have t: "newline \<notin> set (ev_type e)" using assms e event_type_ok by blast
  have l: "newline \<notin> set (''id: '' @ show_nat (ev_id e))" "newline \<notin> set (''event: '' @ ev_type e)"
      "newline \<notin> set (''data: '' @ stringify (ev_data e))"
    using n t stringify_no_newline by simp_all
  have a: "split_nl ([] @ ''id: '' @ show_nat (ev_id e) @ nl @ ''event: '' @ ev_type e @ nl)
      = [''id: '' @ show_nat (ev_id e), ''event: '' @ ev_type e, []]"
    using split_nl_line [OF l(1), of "(''event: '' @ ev_type e) @ newline # []"] split_nl_line [OF l(2), of "[]"]
    by (simp add: nl_def)
  have b: "split_nl ([] @ ''data: '' @ stringify (ev_data e) @ nl @ nl) = [''data: '' @ stringify (ev_data e), [], []]"
    using split_nl_line [OF l(3), of "newline # []"] by (simp add: nl_def)
  have "sse_chunk [] (''id: '' @ show_nat (ev_id e) @ nl @ ''event: '' @ ev_type e @ nl) = ([], [])"
    unfolding sse_chunk_def a by (simp add: Let_def)
  moreover have "sse_chunk [] (''data: '' @ stringify (ev_data e) @ nl @ nl) = ([], [])"
    unfolding sse_chunk_def b by (simp add: Let_def)
  ultimately show "sse_run [] [''id: '' @ show_nat (ev_id e) @ nl @ ''event: '' @ ev_type e @ nl,
         ''data: '' @ stringify (ev_data e) @ nl @ nl] = []"
    by (simp only: sse_run.simps prod.case append_Nil)
qed

lemma pending_count: "length (list_pending d) = length (filter (\<lambda>q. aq_status q = ''pending'') (t_queue d))"
  by (simp add: list_pending_def)

lemma expire_pending_count:
  "length (list_pending (fst (expire_stale c d ttl))) + snd (expire_stale c d ttl) = length (list_pending d)"
proof -
  have "length (filter (\<lambda>q. aq_status q = ''pending'') (map (\<lambda>row. if stale c ttl row then expired_row c row else row) qs))
      + length (filter (stale c ttl) qs) = length (filter (\<lambda>q. aq_status q = ''pending'') qs)" for qs
    by (induction qs) (auto simp: stale_def expired_row_def)
  then show ?thesis by (simp add: pending_count expire_stale_def)
qed

text \<open>
  The badge drifts: when the timer expires n approvals at once the browsers get one event, by which the badge,
  right before, counts one down, so that it stays n - 1 above the number of pending approvals.
\<close>

theorem badge_drifts_on_expiry:
  assumes "n = snd (expire_stale (e_clock e) (sv_db sv) (sv_hold_timeout sv * 2))" "0 < n"
  shows "sv_events (on_expire e sv) = emit ''approval.resolved'' (JObj [(''expired'', JNum (int n))]) (sv_events sv)
    \<and> badge ''approval.resolved'' (length (list_pending (sv_db sv)))
        = length (list_pending (sv_db (on_expire e sv))) + (n - 1)"
proof -
  obtain d where d: "expire_stale (e_clock e) (sv_db sv) (sv_hold_timeout sv * 2) = (d, n)"
    using assms(1) by (metis prod.collapse)
  have "length (list_pending d) + n = length (list_pending (sv_db sv))"
    using expire_pending_count [of "e_clock e" "sv_db sv" "sv_hold_timeout sv * 2"] by (simp add: d)
  then show ?thesis using assms(2) by (auto simp: on_expire_def d badge_def)
qed

lemma form_keeps:
  "ri_default_behavior (foldl (\<lambda>f c. set_form c f) f cs) = ri_default_behavior f"
  "ri_name f \<noteq> None \<Longrightarrow> ri_name (foldl (\<lambda>f c. set_form c f) f cs) \<noteq> None"
  "ri_url_pattern f \<noteq> None \<Longrightarrow> ri_url_pattern (foldl (\<lambda>f c. set_form c f) f cs) \<noteq> None"
  "ri_action f \<noteq> None \<Longrightarrow> ri_action (foldl (\<lambda>f c. set_form c f) f cs) \<noteq> None"
proof -
  have "ri_default_behavior (set_form c f) = ri_default_behavior f" for c f by (cases c) simp_all
  then show "ri_default_behavior (foldl (\<lambda>f c. set_form c f) f cs) = ri_default_behavior f"
    by (induction cs arbitrary: f) simp_all
  have n: "ri_name f \<noteq> None \<Longrightarrow> ri_name (set_form c f) \<noteq> None" "ri_url_pattern f \<noteq> None \<Longrightarrow> ri_url_pattern (set_form c f) \<noteq> None"
    "ri_action f \<noteq> None \<Longrightarrow> ri_action (set_form c f) \<noteq> None" for c f by (cases c; simp)+
  show "ri_name f \<noteq> None \<Longrightarrow> ri_name (foldl (\<lambda>f c. set_form c f) f cs) \<noteq> None"
    "ri_url_pattern f \<noteq> None \<Longrightarrow> ri_url_pattern (foldl (\<lambda>f c. set_form c f) f cs) \<noteq> None"
    "ri_action f \<noteq> None \<Longrightarrow> ri_action (foldl (\<lambda>f c. set_form c f) f cs) \<noteq> None"
    by (induction cs arbitrary: f) (simp_all add: n del: not_None_eq)
qed

text \<open>
  The form for a new rule cannot be saved: whatever is entered and wherever, it submits the empty
  \<open>default_behavior\<close> no input changes, which the CHECK constraint of the rules table refuses: the answer is
  500, and nothing is stored or sent.
\<close>

theorem new_rule_form_refused:
  assumes "sv_file sv = None" "\<not> source_is_file sv" "basic_auth (sv_auth sv) a"
  shows "handle_request e a (new_rule_request changes selected) sv = Some (sv, error_handler e (Sqlite Check))
    \<and> rs_status (error_handler e (Sqlite Check)) = 500"
proof -
  define f where "f = (foldl (\<lambda>f c. set_form c f) empty_form changes)\<lparr>ri_policy_id := selected\<rparr>"
  have "ri_default_behavior f = Some []" "ri_name f \<noteq> None" "ri_url_pattern f \<noteq> None" "ri_action f \<noteq> None"
    using form_keeps [of empty_form changes] by (simp_all add: f_def) (simp_all add: empty_form_def)
  then have "insert_rule d f = Inl (Sqlite Check)" for d
    by (auto simp: insert_rule_def Let_def rule_check_def new_rule_row_def split: option.splits)
  then have "rules_create sv f = Inl (Sqlite Check)" by (simp add: rules_create_def assms(1) create_rule_def)
  then show ?thesis
    using assms(2,3) by (simp add: new_rule_request_def flip: f_def) (simp add: handle_request_def post_rule_def error_handler_def)
qed

text \<open>
  The approvals page never finds the agent of a request: no entry the server lists carries the agent, so the
  selected agent is always unknown, and the button that assigns a policy and approves only approves.
\<close>

theorem approvals_page_never_assigns:
  "\<exists>entries. rs_body (get_approvals sv) = Json (JArr (map JObj entries))
    \<and> length entries = length (list_pending (sv_db sv))
    \<and> (\<forall>approval \<in> set entries. \<forall>policy. \<exists>i. obj_get approval ''id'' = Some i
        \<and> assign_and_approve approval policy = [ResolveCall i ''approve'']
        \<and> selected_agent (map agent_entries (list_agents (sv_db sv))) approval = None)"
proof -
  define entry :: "approval_row \<times> (string \<times> string) option \<Rightarrow> object" where
    "entry = (\<lambda>(q, req). approval_entries q @
       [(''method'', opt_str (map_option fst req)), (''url'', opt_str (map_option snd req))])"
  have body: "rs_body (get_approvals sv) = Json (JArr (map JObj (map entry (list_pending (sv_db sv)))))"
    by (simp add: get_approvals_def reply_def entry_def case_prod_beta comp_def)
  have g: "obj_get (entry x) ''id'' = Some (JNum (aq_id (fst x)))" "obj_get (entry x) ''agent_id'' = None" for x
    by (cases x, simp add: entry_def approval_entries_def obj_get_def)+
  have "obj_get (agent_entries ag) ''id'' \<noteq> None" for ag by (simp add: agent_entries_def obj_get_def)
  then have n: "selected_agent (map agent_entries as) (entry x) = None" for as x
    by (auto simp: selected_agent_def g find_None_iff)
  have t: "\<not> truthy None" by (simp add: truthy_def)
  show ?thesis
    by (intro exI [of _ "map entry (list_pending (sv_db sv))"] conjI body)
      (auto simp: g n assign_and_approve_def t)
qed

text \<open>
  The pages never show which policies an agent has: the server's list of policies does not carry the agents,
  so the map the agents page and the approvals page build from it has no policy for any agent.
\<close>

theorem agent_chips_empty:
  "\<exists>policies agents. rs_body (get_policies sv) = Json (JArr (map JObj policies))
    \<and> rs_body (get_agents sv) = Json (JArr (map JObj agents))
    \<and> (\<forall>ag \<in> set agents. \<exists>i. obj_get ag ''id'' = Some i \<and> agent_policies agents policies i = Some [])"
proof -
  let ?ps = "map policy_entries (list_policies (sv_db sv))" and ?as = "map agent_entries (list_agents (sv_db sv))"
  have ids: "policy_agent_ids (policy_entries p) = []" for p
    by (simp add: policy_agent_ids_def policy_entries_def obj_get_def truthy_def)
  have none: "concat (map (\<lambda>p. map (\<lambda>i. (i, p)) (policy_agent_ids p)) ?ps) = []" by (simp add: ids)
  have m: "agent_policies as ?ps = map_of (map (\<lambda>a. (the (obj_get a ''id''), [])) as)" for as
    unfolding agent_policies_def none by simp
  have i: "obj_get (agent_entries a) ''id'' = Some (JNum (a_id a))" for a by (simp add: agent_entries_def obj_get_def)
  have look: "map_of (map (\<lambda>a. (the (obj_get a ''id''), [])) as) i = Some []" if "a \<in> set as" "obj_get a ''id'' = Some i" for as a i
    using that by (induction as) auto
  have as: "rs_body (get_agents sv) = Json (JArr (map JObj ?as))" "rs_body (get_policies sv) = Json (JArr (map JObj ?ps))"
    by (simp_all add: get_policies_def get_agents_def reply_def policy_json_def agent_json_def comp_def)
  have "\<exists>i. obj_get ag ''id'' = Some i \<and> agent_policies ?as ?ps i = Some []" if "ag \<in> set ?as" for ag
    using that look [OF that] i unfolding m by auto
  with as show ?thesis by blast
qed

text \<open>No handler but the registration of an address answers 401 by itself.\<close>

definition not_401 :: "outcome_of \<Rightarrow> bool" where
  "not_401 x = (case x of Some (_, Inr r) \<Rightarrow> rs_status r \<noteq> 401 | _ \<Rightarrow> True)"

lemma not_401_simps [simp]:
  "not_401 None" "not_401 (Some (sv, Inl err))" "not_401 (Some (sv, Inr r)) \<longleftrightarrow> rs_status r \<noteq> 401"
  by (simp_all add: not_401_def)

lemma not_401_policies_changed: "rs_status resp \<noteq> 401 \<Longrightarrow> not_401 (policies_changed e v resp sv)"
  by (auto simp: policies_changed_def split: option.splits sum.splits)

lemma policies_changed_answer: "policies_changed e v resp sv = Some (sv', Inr r) \<Longrightarrow> r = resp"
  by (auto simp: policies_changed_def split: option.splits sum.splits)

lemma route_not_401:
  assumes "\<forall>n t i. req \<noteq> RegisterIp n t i"
  shows "not_401 (route e req sv)"
proof -
  have ro: "rs_status read_only_reply \<noteq> 401" "rs_status no_content \<noteq> 401"
    by (simp_all add: read_only_reply_def)
  have rules: "not_401 (Some (post_rule e inp sv))" "not_401 (Some (put_rule e i ch sv))" "not_401 (Some (delete_rule_route e i sv))"
      "not_401 (move_rule e i p sv)" for inp i ch p
    by (auto simp: post_rule_def put_rule_def delete_rule_route_def move_rule_def ro split: sum.splits option.splits prod.splits)
  have reads: "not_401 (Some (sv, get_rules sv))" "not_401 (Some (sv, get_rule_by_id sv i))"
      "not_401 (Some (sv, Inr (test_rule e sv u m)))" "not_401 (Some (sv, Inr (get_logs sv q)))"
      "not_401 (Some (sv, Inr (get_log_by_id sv i)))" "not_401 (Some (sv, Inr (get_approvals sv)))"
      "not_401 (Some (sv, Inr (get_agents sv)))" "not_401 (Some (sv, Inr (get_agent_by_id sv i)))"
      "not_401 (Some (sv, Inr (get_policies sv)))" "not_401 (Some (sv, Inr (match_policies e sv u m)))"
      "not_401 (Some (sv, Inr (get_policy_by_id sv i)))" "not_401 (Some (sv, get_status_route e sv))"
      "not_401 (Some (sv, get_ca_certificate e sv))" for i u m q
    by (auto simp: get_rules_def get_rule_by_id_def test_rule_def get_logs_def get_log_by_id_def get_approvals_def
        get_agents_def get_agent_by_id_def agent_missing_def get_policies_def match_policies_def get_policy_by_id_def
        get_status_route_def get_ca_certificate_def log_missing_def Let_def split: sum.splits option.splits json.splits)
  have body: "not_401 (Some (sv, stream_body e sv i k))" for i k
    by (auto simp: stream_body_def log_missing_def Let_def split: sum.splits option.splits json.splits)
  have policies: "not_401 (post_policy e n ds sv)" "not_401 (put_policy e i pc sv)" "not_401 (delete_policy_route e i sv)"
      "not_401 (post_child e i c sv)" "not_401 (delete_child e i c sv)" "not_401 (post_policy_agent e i c sv)"
      "not_401 (delete_policy_agent e i c sv)" for n ds i pc c
    by (auto simp: post_policy_def put_policy_def delete_policy_route_def post_child_def child_conflict_def delete_child_def
        post_policy_agent_def delete_policy_agent_def not_401_policies_changed ro
        dest: policies_changed_answer split: sum.splits option.splits prod.splits)
  have agents: "not_401 (Some (post_agent e n ds sv))" "not_401 (Some (put_agent e i f sv))"
      "not_401 (Some (delete_agent_route e i sv))" "not_401 (Some (rotate_agent_token e i sv))" for n ds i f
    by (auto simp: post_agent_def put_agent_def delete_agent_route_def rotate_agent_token_def agent_missing_def ro
        split: sum.splits option.splits prod.splits)
  have res: "not_401 (Some (resolve_approval e i act w sv))" for i act w
    by (auto simp: resolve_approval_def Let_def split: sum.splits option.splits prod.splits)
  show ?thesis
    using assms by (cases req) (simp_all add: rules reads body policies agents res del: not_401_simps(3), simp)
qed

text \<open>
  The client logs out for the right reason: a call throws its authentication error exactly when the route is
  protected and the credentials are not those of the configuration; every other failure is an HTTP error with
  the status of the answer (for the calls the browser makes, which exclude the registration of an address).
\<close>

theorem client_auth_error:
  assumes "handle_request e a req sv = Some (sv', r)" "\<forall>n t i. req \<noteq> RegisterIp n t i"
  shows "client_answer r = AuthErr \<longleftrightarrow> \<not> is_public req \<and> \<not> basic_auth (sv_auth sv) a"
proof -
  have "rs_status unauthorized = 401" by (simp add: unauthorized_def)
  moreover have "rs_status (error_handler e err) \<noteq> 401" for err by (simp add: error_handler_def)
  moreover have "client_answer r = AuthErr \<longleftrightarrow> rs_status r = 401"
    by (auto simp: client_answer_def split: body.splits)
  ultimately show ?thesis
    using assms route_not_401 [OF assms(2), of e sv]
    by (auto simp: handle_request_def not_401_def split: if_splits option.splits sum.splits)
qed

lemma sep_by_append: "xs \<noteq> [] \<Longrightarrow> ys \<noteq> [] \<Longrightarrow> sep_by s (xs @ ys) = sep_by s xs @ s @ sep_by s ys"
proof (induction s xs rule: sep_by.induct)
  case (2 s x)
  then show ?case by (cases ys) simp_all
qed simp_all

lemma prefix_pattern_widens:
  assumes "0 < i" "i < j" "j \<le> length parts"
  shows "prefix (butlast (prefix_pattern domain parts i)) (prefix_pattern domain parts j)"
proof -
  have t: "take j parts = take i parts @ take (j - i) (drop i parts)"
    using assms by (metis le_add_diff_inverse less_imp_le take_add)
  have "take i parts \<noteq> []" "take (j - i) (drop i parts) \<noteq> []" using assms by auto
  from sep_by_append [OF this, of "''/''"] show ?thesis
    unfolding prefix_pattern_def t by (simp add: butlast_append)
qed

text \<open>
  The suggested patterns widen step by step: for a non-empty URL the first is the URL without its protocol
  (\<open>exact\<close>), the last the whole host (\<open>domain\<close>), every pattern but the first ends with \<open>/*\<close>, and without the star
  each of them is a prefix of every pattern before it but the first.
\<close>

theorem patterns_widen:
  assumes "url \<noteq> []"
  shows "\<exists>wider. generate_patterns url = (strip_protocol url, ''exact'') # wider
    \<and> wider \<noteq> [] \<and> snd (last wider) = ''domain''
    \<and> (\<forall>p \<in> set wider. \<exists>s. fst p = s @ ''/*'')
    \<and> sorted_wrt (\<lambda>p q. prefix (butlast (fst q)) (fst p)) wider"
proof -
  let ?clean = "strip_protocol url"
  show ?thesis
  proof (cases "CHR ''/'' \<in> set ?clean")
    case False
    with assms show ?thesis by (simp add: generate_patterns_def Let_def)
  next
    case True
    define domain where "domain = takeWhile (\<lambda>c. c \<noteq> CHR ''/'') ?clean"
    define parts where "parts = path_parts (tl (dropWhile (\<lambda>c. c \<noteq> CHR ''/'') ?clean))"
    define mid where "mid = map (\<lambda>i. (prefix_pattern domain parts i, level_label (length parts) i)) (rev [1..<length parts])"
    have g: "generate_patterns url = (?clean, ''exact'') # mid @ [(domain @ ''/*'', ''domain'')]"
      using assms True by (simp add: generate_patterns_def Let_def mid_def domain_def parts_def)
    have ends: "\<exists>s. prefix_pattern domain parts i = s @ ''/*''" for i
      unfolding prefix_pattern_def by (metis append_assoc)
    have "sorted_wrt (\<lambda>i j. prefix (butlast (prefix_pattern domain parts j)) (prefix_pattern domain parts i)) (rev [1..<length parts])"
      unfolding sorted_wrt_rev
      by (rule sorted_wrt_mono_rel [OF _ sorted_wrt_upt]) (auto intro: prefix_pattern_widens)
    then have "sorted_wrt (\<lambda>p q. prefix (butlast (fst q)) (fst p)) mid" by (simp add: mid_def sorted_wrt_map)
    moreover have "prefix (butlast (domain @ ''/*'')) (prefix_pattern domain parts i)" for i
      by (simp add: prefix_pattern_def butlast_append)
    ultimately have "sorted_wrt (\<lambda>p q. prefix (butlast (fst q)) (fst p)) (mid @ [(domain @ ''/*'', ''domain'')])"
      by (auto simp: sorted_wrt_append mid_def)
    moreover have "\<forall>p \<in> set (mid @ [(domain @ ''/*'', ''domain'')]). \<exists>s. fst p = s @ ''/*''"
      using ends by (auto simp: mid_def)
    ultimately show ?thesis unfolding g by (intro exI conjI) (rule refl, simp_all)
  qed
qed

section \<open>The properties at concrete inputs\<close>

theorem login_matches_configuration_witness:
  "login sample_env (sample_server tree_db) [117] [112] \<and> \<not> login sample_env (sample_server tree_db) [117] [113]"
proof -
  have c: "map char_of [117 :: nat] = ''u''" "map char_of [112 :: nat] = ''p''" "map char_of [113 :: nat] = ''q''"
    by code_simp+
  have auth: "sv_auth (sample_server tree_db) = [(''u'', JStr ''p'')]" by (simp add: sample_server_def)
  have "\<forall>c \<in> set [117] \<union> set [112 :: nat]. c < 128" "\<forall>c \<in> set [117] \<union> set [113 :: nat]. c < 128" "58 \<notin> set [117 :: nat]" by simp_all
  with login_matches_configuration [OF sample_server_ok [OF tree_db_ok], of "[117]" "[112]" sample_env]
    login_matches_configuration [OF sample_server_ok [OF tree_db_ok], of "[117]" "[113]" sample_env]
  show ?thesis unfolding c auth by (simp add: obj_get_def)
qed

theorem sse_reader_delivers_witness:
  "sse_run [] [('':ok'' @ nl @ nl), event_text \<lparr>ev_id = 1, ev_type = ''rules.changed'', ev_data = JObj []\<rparr>]
     = [(''rules.changed'', JObj [])]"
proof -
  have "\<forall>e \<in> set [\<lparr>ev_id = 1, ev_type = ''rules.changed'', ev_data = JObj []\<rparr>]. ev_type e \<in> set event_types \<and> json_wf (ev_data e)"
    by (simp add: event_types_def)
  from sse_reader_delivers [OF this] show ?thesis by (simp only: list.map event.select_convs)
qed

definition late_env :: env where
  "late_env = sample_env\<lparr>e_clock := sample_clock\<lparr>clk_datetime := \<lambda>_. ''2024-05-02 00:00:00''\<rparr>\<rparr>"

theorem badge_drifts_on_expiry_witness:
  "length (list_pending (sv_db (on_expire late_env (sample_server queue_db)))) = 0"
proof -
  have one: "1 = snd (expire_stale (e_clock late_env) (sv_db (sample_server queue_db)) (sv_hold_timeout (sample_server queue_db) * 2))"
    by (simp add: expire_stale_def queue_db_def sample_server_def stale_def pending_row_def new_approval_row_def late_env_def
        sample_env_def datetime_ago_def datetime_now_def sample_clock_def less_char_def)
  have "length (list_pending (sv_db (sample_server queue_db))) = 1"
    by (simp add: pending_count queue_db_def sample_server_def pending_row_def new_approval_row_def)
  with badge_drifts_on_expiry [OF one] show ?thesis by (simp add: badge_def)
qed

theorem new_rule_form_refused_witness:
  "handle_request sample_env (Some ''Basic dTpw'') (new_rule_request [SetName ''r'', SetPattern ''x''] (Some 1)) (sample_server tree_db)
     = Some (sample_server tree_db, error_handler sample_env (Sqlite Check))"
proof -
  have "sv_file (sample_server tree_db) = None" "\<not> source_is_file (sample_server tree_db)"
    by (simp_all add: source_is_file_def sample_server_def defaults_def field_def obj_get_def)
  from new_rule_form_refused [OF this sample_auth] show ?thesis by blast
qed

theorem approvals_page_never_assigns_witness:
  "\<exists>approval i. rs_body (get_approvals (sample_server queue_db)) = Json (JArr [JObj approval])
     \<and> assign_and_approve approval (Some (JNum 1)) = [ResolveCall i ''approve'']"
proof -
  have one: "length (list_pending (sv_db (sample_server queue_db))) = 1"
    by (simp add: pending_count queue_db_def sample_server_def pending_row_def new_approval_row_def)
  from approvals_page_never_assigns [of "sample_server queue_db"] obtain entries where
    e: "rs_body (get_approvals (sample_server queue_db)) = Json (JArr (map JObj entries))" "length entries = 1"
      "\<forall>approval \<in> set entries. \<exists>i. assign_and_approve approval (Some (JNum 1)) = [ResolveCall i ''approve'']"
    unfolding one by blast
  from e(2) obtain approval where "entries = [approval]" by (cases entries) auto
  with e show ?thesis by auto
qed

theorem agent_chips_empty_witness:
  "\<exists>policies ag i. rs_body (get_agents (sample_server tree_db)) = Json (JArr [JObj ag]) \<and> policies \<noteq> []
     \<and> agent_policies [ag] policies i = Some []"
proof -
  have n: "\<exists>v. rs_body (get_agents (sample_server tree_db)) = Json (JArr [v])"
    by (simp add: get_agents_def reply_def list_agents_def tree_db_def sample_server_def)
  have p: "\<exists>v vs. rs_body (get_policies (sample_server tree_db)) = Json (JArr (v # vs))"
    by (simp add: get_policies_def reply_def list_policies_def tree_db_def sample_server_def Let_def new_policy_row_def)
  from agent_chips_empty [of "sample_server tree_db"] obtain policies agents where
    c: "rs_body (get_policies (sample_server tree_db)) = Json (JArr (map JObj policies))"
      "rs_body (get_agents (sample_server tree_db)) = Json (JArr (map JObj agents))"
      "\<forall>ag \<in> set agents. \<exists>i. obj_get ag ''id'' = Some i \<and> agent_policies agents policies i = Some []" by blast
  from n c(2) obtain ag where "agents = [ag]" by (cases agents) auto
  moreover from p c(1) have "policies \<noteq> []" by auto
  ultimately show ?thesis using c(2,3) by auto
qed

theorem client_auth_error_witness:
  "\<exists>sv r. handle_request sample_env None GetRules (sample_server tree_db) = Some (sv, r) \<and> client_answer r = AuthErr"
proof -
  obtain sv r where h: "handle_request sample_env None GetRules (sample_server tree_db) = Some (sv, r)"
    using handle_request_answers [OF sample_server_ok [OF tree_db_ok]] by blast
  have "\<not> basic_auth (sv_auth (sample_server tree_db)) None" by (simp add: basic_auth_def)
  with client_auth_error [OF h] h show ?thesis by auto
qed

theorem patterns_widen_witness:
  "\<exists>wider. generate_patterns ''http://a.b/c'' = (''a.b/c'', ''exact'') # wider"
proof -
  have "strip_protocol ''http://a.b/c'' = ''a.b/c''" by (simp add: strip_protocol_def)
  with patterns_widen [of "''http://a.b/c''"] show ?thesis by auto
qed

end
