(* ===== verification/Machine.thy ===== *)
theory Machine
  imports Main
begin

text \<open>
  Machines that take one input after the other: the pages of the browser application, its session, its divider. What their
  proofs share is the locale \<open>machine\<close>: an invariant that every allowed input keeps holds after every run.
\<close>

locale machine =
  fixes step :: "'s \<Rightarrow> 'i \<Rightarrow> 's"
    and allowed :: "'i \<Rightarrow> bool"
    and good :: "'s \<Rightarrow> bool"
  assumes good_step: "good s \<Longrightarrow> allowed i \<Longrightarrow> good (step s i)"
begin

lemma good_run: "good s \<Longrightarrow> list_all allowed inputs \<Longrightarrow> good (foldl step s inputs)"
  by (induction inputs arbitrary: s) (simp_all add: good_step)

end

text \<open>Machines whose inputs are all allowed.\<close>

locale free_machine = machine step "\<lambda>_. True" good
  for step :: "'s \<Rightarrow> 'i \<Rightarrow> 's" and good :: "'s \<Rightarrow> bool"
begin

lemma good_always: "good s \<Longrightarrow> good (foldl step s inputs)"
  by (rule good_run) (simp_all add: list_all_iff)

end

end
