(* ===== verification/Client.thy ===== *)
theory Client
  imports Gui Machine
begin

text \<open>
  The API client of \<open>gui/src/api/client.js\<close> against the routes of the server: the method, path and query string
  of every call, the two percent encodings of the browser, the query parser of Node, the table of routes in the
  order \<open>index.js\<close> and \<open>api/*.js\<close> register them, and the request each call arrives as. A call is made with
  \<open>api\<close>: the request is handled by the server and the answer turned into a value or an error.
\<close>

section \<open>Percent encoding\<close>

definition hex_upper :: "nat \<Rightarrow> char" where
  "hex_upper d = (if d < 10 then char_of (48 + d) else char_of (55 + d))"

definition percent :: "char \<Rightarrow> string" where
  "percent c = [CHR ''%'', hex_upper (code c div 16), hex_upper (code c mod 16)]"

definition alnum :: "char \<Rightarrow> bool" where
  "alnum c \<longleftrightarrow> is_digit c \<or> 65 \<le> code c \<and> code c \<le> 90 \<or> 97 \<le> code c \<and> code c \<le> 122"

text \<open>\<open>encodeURIComponent\<close> and the serializer of \<open>URLSearchParams\<close>, on the UTF-8 bytes.\<close>

definition uri_char :: "char \<Rightarrow> string" where
  "uri_char c = (if alnum c \<or> c \<in> set ''-_.!~*()'' \<or> code c = 39 then [c] else percent c)"

definition encode_uri_component :: "string \<Rightarrow> string" where
  "encode_uri_component s = concat (map uri_char s)"

definition form_char :: "char \<Rightarrow> string" where
  "form_char c =
     (if c = CHR '' '' then ''+'' else if alnum c \<or> c \<in> set ''*-._'' then [c] else percent c)"

definition form_encode :: "string \<Rightarrow> string" where
  "form_encode s = concat (map form_char s)"

text \<open>What \<open>new URLSearchParams(object)\<close> makes of a value: undefined becomes the text \<open>undefined\<close>.\<close>

datatype js_param = PUndefined | PNum int | PText string

fun param_text :: "js_param \<Rightarrow> string" where
  "param_text PUndefined = ''undefined''"
| "param_text (PNum i) = show_int i"
| "param_text (PText s) = s"

definition url_search_params :: "(string \<times> js_param) list \<Rightarrow> string" where
  "url_search_params ps = sep_by ''&'' (map (\<lambda>(k, v). form_encode k @ ''='' @ form_encode (param_text v)) ps)"

text \<open>
  \<open>node:querystring\<close>, the query parser of the application: pieces between \<open>&\<close>, cut at the first \<open>=\<close>, with \<open>+\<close> as
  blank and percent escapes decoded. A key is looked up when it occurs once.
\<close>

fun percent_decode :: "string \<Rightarrow> string" where
  "percent_decode (c # a # b # s) =
     (if c = CHR ''%'' then
        (case (hex_val a, hex_val b) of
           (Some x, Some y) \<Rightarrow> char_of (16 * x + y) # percent_decode s
         | _ \<Rightarrow> c # percent_decode (a # b # s))
      else c # percent_decode (a # b # s))"
| "percent_decode (c # s) = c # percent_decode s"
| "percent_decode [] = []"

definition qs_decode :: "string \<Rightarrow> string" where
  "qs_decode s = percent_decode (map (\<lambda>c. if c = CHR ''+'' then CHR '' '' else c) s)"

fun split_at :: "char \<Rightarrow> string \<Rightarrow> string list" where
  "split_at x [] = [[]]"
| "split_at x (c # s) =
     (if c = x then [] # split_at x s
      else (case split_at x s of [] \<Rightarrow> [[c]] | l # ls \<Rightarrow> (c # l) # ls))"

definition qs_pair :: "string \<Rightarrow> string \<times> string" where
  "qs_pair piece =
     (qs_decode (takeWhile (\<lambda>c. c \<noteq> CHR ''='') piece), qs_decode (drop 1 (dropWhile (\<lambda>c. c \<noteq> CHR ''='') piece)))"

definition qs_parse :: "string \<Rightarrow> (string \<times> string) list" where
  "qs_parse query = map qs_pair (filter (\<lambda>p. p \<noteq> []) (split_at (CHR ''&'') query))"

definition query_get :: "(string \<times> string) list \<Rightarrow> string \<Rightarrow> string option" where
  "query_get kvs k = (case filter (\<lambda>kv. fst kv = k) kvs of [kv] \<Rightarrow> Some (snd kv) | _ \<Rightarrow> None)"

section \<open>Calls\<close>

text \<open>One constructor per method of the object \<open>createClient\<close> returns, and what \<open>JSON.stringify\<close> is given.\<close>

datatype api_call =
    CGetRules
  | CGetRule int
  | CCreateRule rule_input
  | CUpdateRule int "rule_change list"
  | CDeleteRule int
  | CTestRule string string
  | CGetLogs "(string \<times> js_param) list"
  | CGetLog int
  | CGetRequestBody int
  | CGetResponseBody int
  | CGetApprovals
  | CResolveApproval int string
  | CGetStatus
  | CGetAgents
  | CGetAgent int
  | CCreateAgent string string
  | CUpdateAgent int agent_fields
  | CDeleteAgent int
  | CRotateToken int
  | CGetPolicies
  | CGetPolicy int
  | CCreatePolicy string string
  | CUpdatePolicy int "policy_change list"
  | CDeletePolicy int
  | CAddPolicyChild int int
  | CRemovePolicyChild int int
  | CAssignPolicyAgent int int
  | CUnassignPolicyAgent int int
  | CMatchPolicies string string
  | CMoveRule int "int option"

datatype http_method = GET | POST | PUT | DELETE

datatype req_body =
    NoData
  | RuleData rule_input
  | RuleChanges "rule_change list"
  | TestData string string
  | ResolveData string
  | AgentData string string
  | AgentFields agent_fields
  | PolicyData string string
  | PolicyChanges "policy_change list"
  | IdData "int option"

definition under :: "string \<Rightarrow> int \<Rightarrow> string \<Rightarrow> string" where
  "under base i rest = base @ ''/'' @ show_int i @ rest"

text \<open>The table of \<open>createClient\<close>: the method and the URL each call hands to \<open>fetch\<close>.\<close>

fun client_target :: "api_call \<Rightarrow> http_method \<times> string" where
  "client_target CGetRules = (GET, ''/api/rules'')"
| "client_target (CGetRule i) = (GET, under ''/api/rules'' i [])"
| "client_target (CCreateRule _) = (POST, ''/api/rules'')"
| "client_target (CUpdateRule i _) = (PUT, under ''/api/rules'' i [])"
| "client_target (CDeleteRule i) = (DELETE, under ''/api/rules'' i [])"
| "client_target (CTestRule _ _) = (POST, ''/api/rules/test'')"
| "client_target (CGetLogs ps) = (GET, ''/api/logs?'' @ url_search_params ps)"
| "client_target (CGetLog i) = (GET, under ''/api/logs'' i [])"
| "client_target (CGetRequestBody i) = (GET, under ''/api/logs'' i ''/request-body'')"
| "client_target (CGetResponseBody i) = (GET, under ''/api/logs'' i ''/response-body'')"
| "client_target CGetApprovals = (GET, ''/api/approvals'')"
| "client_target (CResolveApproval i _) = (POST, under ''/api/approvals'' i ''/resolve'')"
| "client_target CGetStatus = (GET, ''/api/status'')"
| "client_target CGetAgents = (GET, ''/api/agents'')"
| "client_target (CGetAgent i) = (GET, under ''/api/agents'' i [])"
| "client_target (CCreateAgent _ _) = (POST, ''/api/agents'')"
| "client_target (CUpdateAgent i _) = (PUT, under ''/api/agents'' i [])"
| "client_target (CDeleteAgent i) = (DELETE, under ''/api/agents'' i [])"
| "client_target (CRotateToken i) = (POST, under ''/api/agents'' i ''/rotate-token'')"
| "client_target CGetPolicies = (GET, ''/api/policies'')"
| "client_target (CGetPolicy i) = (GET, under ''/api/policies'' i [])"
| "client_target (CCreatePolicy _ _) = (POST, ''/api/policies'')"
| "client_target (CUpdatePolicy i _) = (PUT, under ''/api/policies'' i [])"
| "client_target (CDeletePolicy i) = (DELETE, under ''/api/policies'' i [])"
| "client_target (CAddPolicyChild i _) = (POST, under ''/api/policies'' i ''/children'')"
| "client_target (CRemovePolicyChild i c) = (DELETE, under ''/api/policies'' i (''/children/'' @ show_int c))"
| "client_target (CAssignPolicyAgent i _) = (POST, under ''/api/policies'' i ''/agents'')"
| "client_target (CUnassignPolicyAgent i a) = (DELETE, under ''/api/policies'' i (''/agents/'' @ show_int a))"
| "client_target (CMatchPolicies url meth) =
     (GET, ''/api/policies/match?url='' @ encode_uri_component url @ ''&method='' @ meth)"
| "client_target (CMoveRule i _) = (POST, under ''/api/rules'' i ''/move'')"

fun client_body :: "api_call \<Rightarrow> req_body" where
  "client_body (CCreateRule r) = RuleData r"
| "client_body (CUpdateRule _ ch) = RuleChanges ch"
| "client_body (CTestRule url meth) = TestData url meth"
| "client_body (CResolveApproval _ act) = ResolveData act"
| "client_body (CCreateAgent n d) = AgentData n d"
| "client_body (CUpdateAgent _ f) = AgentFields f"
| "client_body (CCreatePolicy n d) = PolicyData n d"
| "client_body (CUpdatePolicy _ ch) = PolicyChanges ch"
| "client_body (CAddPolicyChild _ c) = IdData (Some c)"
| "client_body (CAssignPolicyAgent _ a) = IdData (Some a)"
| "client_body (CMoveRule _ p) = IdData p"
| "client_body _ = NoData"

section \<open>Routes\<close>

datatype seg = Lit string | Par

datatype handler =
    HStatus | HCaCertificate | HRegisterIp | HRules | HRule | HTestRule | HPostRule | HPutRule | HDeleteRule
  | HMoveRule | HLogs | HLog | HRequestBody | HResponseBody | HApprovals | HResolve | HAgents | HAgent | HPostAgent
  | HPutAgent | HDeleteAgent | HRotateToken | HPolicies | HMatch | HPolicy | HPostPolicy | HPutPolicy
  | HDeletePolicy | HPostChild | HDeleteChild | HPostPolicyAgent | HDeletePolicyAgent | HEvents

definition at :: "string \<Rightarrow> seg list \<Rightarrow> seg list" where
  "at mount rest = Lit ''api'' # Lit mount # rest"

text \<open>The routers, in the order of their registration.\<close>

definition status_routes :: "(http_method \<times> seg list \<times> handler) list" where
  "status_routes = [(GET, at ''status'' [], HStatus), (GET, at ''ca'' [Lit ''certificate''], HCaCertificate)]"

definition rules_routes :: "(http_method \<times> seg list \<times> handler) list" where
  "rules_routes =
     [(GET, at ''rules'' [], HRules), (GET, at ''rules'' [Par], HRule),
      (POST, at ''rules'' [Lit ''test''], HTestRule), (POST, at ''rules'' [], HPostRule),
      (PUT, at ''rules'' [Par], HPutRule), (DELETE, at ''rules'' [Par], HDeleteRule),
      (POST, at ''rules'' [Par, Lit ''move''], HMoveRule)]"

definition logs_routes :: "(http_method \<times> seg list \<times> handler) list" where
  "logs_routes =
     [(GET, at ''logs'' [], HLogs), (GET, at ''logs'' [Par], HLog),
      (GET, at ''logs'' [Par, Lit ''request-body''], HRequestBody),
      (GET, at ''logs'' [Par, Lit ''response-body''], HResponseBody)]"

definition approvals_routes :: "(http_method \<times> seg list \<times> handler) list" where
  "approvals_routes = [(GET, at ''approvals'' [], HApprovals), (POST, at ''approvals'' [Par, Lit ''resolve''], HResolve)]"

definition agents_routes :: "(http_method \<times> seg list \<times> handler) list" where
  "agents_routes =
     [(GET, at ''agents'' [], HAgents), (GET, at ''agents'' [Par], HAgent), (POST, at ''agents'' [], HPostAgent),
      (PUT, at ''agents'' [Par], HPutAgent), (DELETE, at ''agents'' [Par], HDeleteAgent),
      (POST, at ''agents'' [Par, Lit ''rotate-token''], HRotateToken)]"

definition policies_routes :: "(http_method \<times> seg list \<times> handler) list" where
  "policies_routes =
     [(GET, at ''policies'' [], HPolicies), (GET, at ''policies'' [Lit ''match''], HMatch),
      (GET, at ''policies'' [Par], HPolicy), (POST, at ''policies'' [], HPostPolicy),
      (PUT, at ''policies'' [Par], HPutPolicy), (DELETE, at ''policies'' [Par], HDeletePolicy),
      (POST, at ''policies'' [Par, Lit ''children''], HPostChild),
      (DELETE, at ''policies'' [Par, Lit ''children'', Par], HDeleteChild),
      (POST, at ''policies'' [Par, Lit ''agents''], HPostPolicyAgent),
      (DELETE, at ''policies'' [Par, Lit ''agents'', Par], HDeletePolicyAgent)]"

definition routes :: "(http_method \<times> seg list \<times> handler) list" where
  "routes =
     status_routes @ [(POST, at ''agents'' [Lit ''register-ip''], HRegisterIp)] @ rules_routes @ logs_routes
     @ approvals_routes @ agents_routes @ policies_routes @ [(GET, at ''events'' [], HEvents)]"

text \<open>
  Matching a path against a pattern is Express's: \<open>pm pattern path\<close> are the values of the parameters. What is
  relied on: on a path of plain segments (small letters, digits, hyphens) the literal segments of the pattern
  are compared and each parameter takes one segment.
\<close>

fun match_segs :: "seg list \<Rightarrow> string list \<Rightarrow> string list option" where
  "match_segs [] [] = Some []"
| "match_segs (Lit l # pat) (s # segs) = (if l = s then match_segs pat segs else None)"
| "match_segs (Par # pat) (s # segs) = map_option ((#) s) (match_segs pat segs)"
| "match_segs _ _ = None"

definition plain_seg :: "string \<Rightarrow> bool" where
  "plain_seg s \<longleftrightarrow> s \<noteq> [] \<and> list_all (\<lambda>c. is_digit c \<or> 97 \<le> code c \<and> code c \<le> 122 \<or> c = CHR ''-'') s"

definition path_of :: "string list \<Rightarrow> string" where
  "path_of segs = concat (map (\<lambda>s. CHR ''/'' # s) segs)"

definition express_paths :: "(seg list \<Rightarrow> string \<Rightarrow> string list option) \<Rightarrow> bool" where
  "express_paths pm \<longleftrightarrow>
     (\<forall>pat segs. segs \<noteq> [] \<and> list_all plain_seg segs \<longrightarrow> pm pat (path_of segs) = match_segs pat segs)"

fun first_route ::
  "(seg list \<Rightarrow> string \<Rightarrow> string list option) \<Rightarrow> http_method \<Rightarrow> string \<Rightarrow> (http_method \<times> seg list \<times> handler) list
     \<Rightarrow> (handler \<times> string list) option" where
  "first_route pm meth path [] = None"
| "first_route pm meth path ((m, pat, h) # rs) =
     (if m = meth then (case pm pat path of Some ps \<Rightarrow> Some (h, ps) | None \<Rightarrow> first_route pm meth path rs)
      else first_route pm meth path rs)"

text \<open>
  \<open>Number(text)\<close> of a path parameter; forms other than decimal digits with a sign (fractions, exponents,
  hexadecimal) are outside the model.
\<close>

definition to_number :: "string \<Rightarrow> int option" where
  "to_number s =
     (let t = trim s; neg = (t \<noteq> [] \<and> hd t = CHR ''-''); ds = (if neg \<or> t \<noteq> [] \<and> hd t = CHR ''+'' then tl t else t) in
      if t = [] then Some 0
      else if ds \<noteq> [] \<and> list_all is_digit ds then Some (if neg then - int (read_nat ds) else int (read_nat ds))
      else None)"

definition log_query_of :: "(string \<times> string) list \<Rightarrow> log_query" where
  "log_query_of q =
     \<lparr>lq_text = query_get q, lq_limit = query_get q ''limit'', lq_offset = query_get q ''offset''\<rparr>"

text \<open>What the handler of a route reads from its parameters, query and body.\<close>

definition no_id :: "request \<Rightarrow> string list \<Rightarrow> request option" where
  "no_id r ps = (case ps of [] \<Rightarrow> Some r | _ \<Rightarrow> None)"

definition one_id :: "(int option \<Rightarrow> request) \<Rightarrow> string list \<Rightarrow> request option" where
  "one_id f ps = (case ps of [i] \<Rightarrow> Some (f (to_number i)) | _ \<Rightarrow> None)"

definition two_ids :: "(int option \<Rightarrow> int option \<Rightarrow> request) \<Rightarrow> string list \<Rightarrow> request option" where
  "two_ids f ps = (case ps of [i, j] \<Rightarrow> Some (f (to_number i) (to_number j)) | _ \<Rightarrow> None)"

definition match_request :: "(string \<times> string) list \<Rightarrow> request option" where
  "match_request q =
     (case (query_get q ''url'', query_get q ''method'') of
        (Some url, Some meth) \<Rightarrow> Some (MatchPolicies url meth)
      | _ \<Rightarrow> None)"

definition read_request :: "handler \<Rightarrow> string list \<Rightarrow> (string \<times> string) list \<Rightarrow> request option" where
  "read_request h ps q =
     (case h of
        HStatus \<Rightarrow> no_id GetStatus ps
      | HCaCertificate \<Rightarrow> no_id GetCaCertificate ps
      | HRules \<Rightarrow> no_id GetRules ps
      | HRule \<Rightarrow> one_id GetRule ps
      | HDeleteRule \<Rightarrow> one_id DeleteRule ps
      | HLogs \<Rightarrow> no_id (GetLogs (log_query_of q)) ps
      | HLog \<Rightarrow> one_id GetLog ps
      | HRequestBody \<Rightarrow> one_id (\<lambda>i. GetBody i RequestBodyRef) ps
      | HResponseBody \<Rightarrow> one_id (\<lambda>i. GetBody i ResponseBodyRef) ps
      | HApprovals \<Rightarrow> no_id GetApprovals ps
      | HAgents \<Rightarrow> no_id GetAgents ps
      | HAgent \<Rightarrow> one_id GetAgent ps
      | HDeleteAgent \<Rightarrow> one_id DeleteAgent ps
      | HRotateToken \<Rightarrow> one_id RotateToken ps
      | HPolicies \<Rightarrow> no_id GetPolicies ps
      | HMatch \<Rightarrow> match_request q
      | HPolicy \<Rightarrow> one_id GetPolicy ps
      | HDeletePolicy \<Rightarrow> one_id DeletePolicy ps
      | HDeleteChild \<Rightarrow> two_ids DeleteChild ps
      | HDeletePolicyAgent \<Rightarrow> two_ids DeletePolicyAgent ps
      | _ \<Rightarrow> None)"

definition request_of :: "handler \<Rightarrow> string list \<Rightarrow> (string \<times> string) list \<Rightarrow> req_body \<Rightarrow> request option" where
  "request_of h ps q b =
     (case (h, b) of
        (HTestRule, TestData url meth) \<Rightarrow> no_id (TestRule url meth) ps
      | (HPostRule, RuleData r) \<Rightarrow> no_id (PostRule r) ps
      | (HPutRule, RuleChanges ch) \<Rightarrow> one_id (\<lambda>i. PutRule i ch) ps
      | (HMoveRule, IdData p) \<Rightarrow> one_id (\<lambda>i. MoveRule i p) ps
      | (HResolve, ResolveData act) \<Rightarrow> one_id (\<lambda>i. ResolveApproval i (Some act) False) ps
      | (HPostAgent, AgentData n d) \<Rightarrow> no_id (PostAgent (Some n) (Some d)) ps
      | (HPutAgent, AgentFields f) \<Rightarrow> one_id (\<lambda>i. PutAgent i f) ps
      | (HPostPolicy, PolicyData n d) \<Rightarrow> no_id (PostPolicy (Some n) (Some d)) ps
      | (HPutPolicy, PolicyChanges ch) \<Rightarrow> one_id (\<lambda>i. PutPolicy i ch) ps
      | (HPostChild, IdData c) \<Rightarrow> one_id (\<lambda>i. PostChild i c) ps
      | (HPostPolicyAgent, IdData a) \<Rightarrow> one_id (\<lambda>i. PostPolicyAgent i a) ps
      | (h, b) \<Rightarrow> read_request h ps q)"

definition receive ::
  "(seg list \<Rightarrow> string \<Rightarrow> string list option) \<Rightarrow> http_method \<times> string \<Rightarrow> req_body \<Rightarrow> request option" where
  "receive pm target b =
     (let path = takeWhile (\<lambda>c. c \<noteq> CHR ''?'') (snd target);
          query = drop 1 (dropWhile (\<lambda>c. c \<noteq> CHR ''?'') (snd target))
      in case first_route pm (fst target) path routes of
           None \<Rightarrow> None
         | Some (h, ps) \<Rightarrow> request_of h ps (qs_parse query) b)"

section \<open>The request a call means\<close>

definition param_get :: "(string \<times> js_param) list \<Rightarrow> string \<Rightarrow> string option" where
  "param_get ps k = map_option param_text (map_of ps k)"

fun call_request :: "api_call \<Rightarrow> request" where
  "call_request CGetRules = GetRules"
| "call_request (CGetRule i) = GetRule (Some i)"
| "call_request (CCreateRule r) = PostRule r"
| "call_request (CUpdateRule i ch) = PutRule (Some i) ch"
| "call_request (CDeleteRule i) = DeleteRule (Some i)"
| "call_request (CTestRule url meth) = TestRule url meth"
| "call_request (CGetLogs ps) =
     GetLogs \<lparr>lq_text = param_get ps, lq_limit = param_get ps ''limit'', lq_offset = param_get ps ''offset''\<rparr>"
| "call_request (CGetLog i) = GetLog (Some i)"
| "call_request (CGetRequestBody i) = GetBody (Some i) RequestBodyRef"
| "call_request (CGetResponseBody i) = GetBody (Some i) ResponseBodyRef"
| "call_request CGetApprovals = GetApprovals"
| "call_request (CResolveApproval i act) = ResolveApproval (Some i) (Some act) False"
| "call_request CGetStatus = GetStatus"
| "call_request CGetAgents = GetAgents"
| "call_request (CGetAgent i) = GetAgent (Some i)"
| "call_request (CCreateAgent n d) = PostAgent (Some n) (Some d)"
| "call_request (CUpdateAgent i f) = PutAgent (Some i) f"
| "call_request (CDeleteAgent i) = DeleteAgent (Some i)"
| "call_request (CRotateToken i) = RotateToken (Some i)"
| "call_request CGetPolicies = GetPolicies"
| "call_request (CGetPolicy i) = GetPolicy (Some i)"
| "call_request (CCreatePolicy n d) = PostPolicy (Some n) (Some d)"
| "call_request (CUpdatePolicy i ch) = PutPolicy (Some i) ch"
| "call_request (CDeletePolicy i) = DeletePolicy (Some i)"
| "call_request (CAddPolicyChild i c) = PostChild (Some i) (Some c)"
| "call_request (CRemovePolicyChild i c) = DeleteChild (Some i) (Some c)"
| "call_request (CAssignPolicyAgent i a) = PostPolicyAgent (Some i) (Some a)"
| "call_request (CUnassignPolicyAgent i a) = DeletePolicyAgent (Some i) (Some a)"
| "call_request (CMatchPolicies url meth) = MatchPolicies url meth"
| "call_request (CMoveRule i p) = MoveRule (Some i) p"

text \<open>The call: \<open>request\<close> with the credentials of the session; \<open>requestRaw\<close> differs in reading text.\<close>

definition api :: "env \<Rightarrow> string option \<Rightarrow> api_call \<Rightarrow> server \<Rightarrow> (server \<times> client_result) option" where
  "api e a c sv = map_option (\<lambda>(sv', r). (sv', client_answer r)) (handle_request e a (call_request c) sv)"

section \<open>Encoding and decoding\<close>

lemma hex_val_hex_upper: "d < 16 \<Longrightarrow> hex_val (hex_upper d) = Some d"
  by (auto simp: hex_val_def hex_upper_def is_digit_def code_def)

lemma code_less: "code c < 256"
proof -
  have "(of_char c :: nat) < 256" by simp
  then show ?thesis by (simp add: code_def)
qed

lemma decode_percent: "percent_decode (percent c @ s) = c # percent_decode s"
proof -
  have "hex_val (hex_upper (code c div 16)) = Some (code c div 16)" "hex_val (hex_upper (code c mod 16)) = Some (code c mod 16)"
    using code_less [of c] by (simp_all add: hex_val_hex_upper)
  then show ?thesis by (simp add: percent_def char_of_code)
qed

lemma decode_other: "c \<noteq> CHR ''%'' \<Longrightarrow> percent_decode (c # s) = c # percent_decode s"
  by (cases s rule: remdups_adj.cases) simp_all

lemma alnum_plain: "alnum c \<Longrightarrow> c \<notin> {CHR ''%'', CHR ''+'', CHR ''&'', CHR ''='', CHR ''?''}"
  by (auto simp: alnum_def is_digit_def code_def)

lemma hex_upper_plain: "d < 16 \<Longrightarrow> hex_upper d \<notin> {CHR ''%'', CHR ''+'', CHR ''&'', CHR ''='', CHR ''?''}"
proof -
  assume d: "d < 16"
  have "code (hex_upper d) \<in> {48..57} \<union> {65..70}" using d by (auto simp: hex_upper_def code_def)
  then show ?thesis by (auto simp: code_def)
qed

lemma percent_plain: "set (percent c) \<inter> {CHR ''+'', CHR ''&'', CHR ''='', CHR ''?''} = {}"
  using hex_upper_plain [of "code c div 16"] hex_upper_plain [of "code c mod 16"] code_less [of c]
  by (auto simp: percent_def)

lemma map_plus_percent: "map (\<lambda>c. if c = CHR ''+'' then CHR '' '' else c) (percent c @ s)
    = percent c @ map (\<lambda>c. if c = CHR ''+'' then CHR '' '' else c) s"
  using percent_plain [of c] by (auto intro!: map_idI)

lemma qs_decode_percent: "qs_decode (percent c @ s) = c # qs_decode s"
  unfolding qs_decode_def map_plus_percent by (rule decode_percent)

lemma qs_decode_plain: "c \<notin> {CHR ''%'', CHR ''+''} \<Longrightarrow> qs_decode (c # s) = c # qs_decode s"
  by (simp add: qs_decode_def decode_other)

lemma qs_decode_blank: "qs_decode (CHR ''+'' # s) = CHR '' '' # qs_decode s"
  by (simp add: qs_decode_def decode_other)

lemma qs_decode_form_char: "qs_decode (form_char c @ s) = c # qs_decode s"
  using alnum_plain [of c] by (auto simp: form_char_def qs_decode_percent qs_decode_plain qs_decode_blank)

lemma qs_decode_uri_char: "qs_decode (uri_char c @ s) = c # qs_decode s"
proof (cases "alnum c \<or> c \<in> set ''-_.!~*()'' \<or> code c = 39")
  case True
  moreover have "code c \<noteq> 39" if "c \<in> {CHR ''%'', CHR ''+''}" using that by (auto simp: code_def)
  ultimately have "c \<notin> {CHR ''%'', CHR ''+''}" using alnum_plain [of c] by auto
  then show ?thesis using True by (simp add: uri_char_def qs_decode_plain)
next
  case False
  then have "uri_char c = percent c" unfolding uri_char_def by (rule if_not_P)
  then show ?thesis by (simp only: qs_decode_percent)
qed

lemma qs_decode_form: "qs_decode (form_encode s) = s"
proof (induction s)
  case (Cons c s)
  then show ?case using qs_decode_form_char [of c "form_encode s"] by (simp add: form_encode_def)
qed (simp add: form_encode_def qs_decode_def)

lemma qs_decode_uri: "qs_decode (encode_uri_component s) = s"
proof (induction s)
  case (Cons c s)
  then show ?case using qs_decode_uri_char [of c "encode_uri_component s"] by (simp add: encode_uri_component_def)
qed (simp add: encode_uri_component_def qs_decode_def)

lemma form_encode_plain: "set (form_encode s) \<inter> {CHR ''&'', CHR ''='', CHR ''?''} = {}"
proof -
  have "set (form_char c) \<inter> {CHR ''&'', CHR ''='', CHR ''?''} = {}" for c
    using percent_plain [of c] alnum_plain [of c] by (auto simp: form_char_def)
  then show ?thesis by (auto simp: form_encode_def)
qed

lemma uri_encode_plain: "set (encode_uri_component s) \<inter> {CHR ''&'', CHR ''='', CHR ''?''} = {}"
proof -
  have "set (uri_char c) \<inter> {CHR ''&'', CHR ''='', CHR ''?''} = {}" for c
  proof (cases "alnum c \<or> c \<in> set ''-_.!~*()'' \<or> code c = 39")
    case True
    moreover have "code c \<noteq> 39" if "c \<in> {CHR ''&'', CHR ''='', CHR ''?''}" using that by (auto simp: code_def)
    ultimately show ?thesis using alnum_plain [of c] by (auto simp: uri_char_def)
  next
    case False
    then have "uri_char c = percent c" unfolding uri_char_def by (rule if_not_P)
    then show ?thesis using percent_plain [of c] by auto
  qed
  then show ?thesis by (auto simp: encode_uri_component_def)
qed

lemma split_at_piece: "x \<notin> set p \<Longrightarrow> split_at x (p @ x # s) = p # split_at x s"
  by (induction p) auto

lemma split_at_last: "x \<notin> set p \<Longrightarrow> split_at x p = [p]"
  by (induction p) auto

lemma split_at_sep_by: "ps \<noteq> [] \<Longrightarrow> \<forall>p \<in> set ps. x \<notin> set p \<Longrightarrow> split_at x (sep_by [x] ps) = ps"
  by (induction "[x]" ps rule: sep_by.induct) (simp_all add: split_at_piece split_at_last)

lemma qs_pair_encoded:
  assumes "CHR ''='' \<notin> set k"
  shows "qs_pair (k @ ''='' @ v) = (qs_decode k, qs_decode v)"
proof -
  have "takeWhile (\<lambda>c. c \<noteq> CHR ''='') (k @ CHR ''='' # v) = k"
    "dropWhile (\<lambda>c. c \<noteq> CHR ''='') (k @ CHR ''='' # v) = CHR ''='' # v"
    using assms by (induction k) auto
  then show ?thesis by (simp add: qs_pair_def)
qed

text \<open>What the browser serializes the server reads back.\<close>

lemma qs_parse_params: "qs_parse (url_search_params ps) = map (\<lambda>(k, v). (k, param_text v)) ps"
proof (cases "ps = []")
  case True
  then show ?thesis by (simp add: qs_parse_def url_search_params_def)
next
  case False
  let ?piece = "\<lambda>(k, v). form_encode k @ ''='' @ form_encode (param_text v)"
  have "CHR ''&'' \<notin> set (?piece kv)" for kv using form_encode_plain by (cases kv) auto
  then have "split_at (CHR ''&'') (url_search_params ps) = map ?piece ps"
    using False unfolding url_search_params_def by (intro split_at_sep_by) auto
  moreover have "?piece kv \<noteq> []" for kv by (cases kv) simp
  moreover have "qs_pair (?piece (k, v)) = (k, param_text v)" for k v
    using form_encode_plain [of k] qs_pair_encoded [of "form_encode k"] by (auto simp: qs_decode_form)
  ultimately show ?thesis unfolding qs_parse_def by (simp add: filter_map comp_def case_prod_beta)
qed

lemma query_get_params:
  assumes "distinct (map fst ps)"
  shows "query_get (map (\<lambda>(k, v). (k, param_text v)) ps) k = param_get ps k"
  using assms
proof (induction ps)
  case (Cons kv ps)
  have none: "filter (\<lambda>kv. fst kv = k) (map (\<lambda>(k, v). (k, param_text v)) zs) = []" if "k \<notin> fst ` set zs" for zs
    using that by (auto simp: filter_empty_conv rev_image_eqI)
  show ?case using Cons none [of ps] by (cases kv) (auto simp: query_get_def param_get_def)
qed (simp add: query_get_def param_get_def)

section \<open>Paths\<close>

lemma list_all_digits_int: "\<exists>ds. ds \<noteq> [] \<and> list_all is_digit ds \<and> read_nat ds = nat \<bar>i\<bar>
    \<and> show_int i = (if i < 0 then CHR ''-'' # ds else ds)"
  using show_nat_nonempty [of "nat \<bar>i\<bar>"] show_nat_digits [of "nat \<bar>i\<bar>"] read_show_nat [of "nat \<bar>i\<bar>"]
  by (intro exI [of _ "show_nat (nat \<bar>i\<bar>)"]) (simp add: show_int_def)

lemma digit_not: "is_digit c \<Longrightarrow> c \<noteq> CHR ''-'' \<and> c \<noteq> CHR ''+'' \<and> c \<noteq> CHR ''?'' \<and> \<not> trim_ws c"
  by (auto simp: is_digit_def code_def trim_ws_def)

lemma dropWhile_none: "\<forall>c \<in> set s. \<not> P c \<Longrightarrow> dropWhile P s = s"
  by (cases s) simp_all

lemma trim_clean: "\<forall>c \<in> set s. \<not> trim_ws c \<Longrightarrow> trim s = s"
  by (simp add: trim_def dropWhile_none)

lemma to_number_show_int: "to_number (show_int i) = Some i"
proof -
  obtain ds where ds: "ds \<noteq> []" "list_all is_digit ds" "read_nat ds = nat \<bar>i\<bar>"
      "show_int i = (if i < 0 then CHR ''-'' # ds else ds)"
    using list_all_digits_int by blast
  have "\<not> trim_ws (CHR ''-'')" by (simp add: trim_ws_def)
  then have "\<forall>c \<in> set (show_int i). \<not> trim_ws c" using ds(2,4) digit_not by (auto simp: list_all_iff)
  note t = trim_clean [OF this]
  obtain c cs where "ds = c # cs" using ds(1) by (cases ds) auto
  with ds(2) digit_not [of c] have "hd ds \<noteq> CHR ''-''" "hd ds \<noteq> CHR ''+''" by auto
  then show ?thesis unfolding to_number_def t using ds by (simp add: Let_def)
qed

lemma plain_seg_show_int: "plain_seg (show_int i)"
proof -
  obtain ds where "ds \<noteq> []" "list_all is_digit ds" "show_int i = (if i < 0 then CHR ''-'' # ds else ds)"
    using list_all_digits_int by blast
  then show ?thesis by (auto simp: plain_seg_def list_all_iff)
qed

lemma show_int_not_word: "97 \<le> code (hd w) \<Longrightarrow> show_int i \<noteq> w"
proof -
  obtain c t where "show_int i = c # t" "is_digit c \<or> c = CHR ''-''" using show_int_first by blast
  then show "97 \<le> code (hd w) \<Longrightarrow> show_int i \<noteq> w" by (auto simp: is_digit_def) (simp add: code_def)
qed

text \<open>The first route on the segments of a path.\<close>

fun first_segs :: "http_method \<Rightarrow> string list \<Rightarrow> (http_method \<times> seg list \<times> handler) list \<Rightarrow> (handler \<times> string list) option" where
  "first_segs meth segs [] = None"
| "first_segs meth segs ((m, pat, h) # rs) =
     (if m = meth then (case match_segs pat segs of Some ps \<Rightarrow> Some (h, ps) | None \<Rightarrow> first_segs meth segs rs)
      else first_segs meth segs rs)"

lemma first_route_segs:
  "express_paths pm \<Longrightarrow> segs \<noteq> [] \<Longrightarrow> list_all plain_seg segs \<Longrightarrow>
     first_route pm meth (path_of segs) rs = first_segs meth segs rs"
  by (induction meth segs rs rule: first_segs.induct) (auto simp: express_paths_def split: option.splits)

lemma plain_path: "list_all plain_seg segs \<Longrightarrow> CHR ''?'' \<notin> set (path_of segs)"
  by (induction segs) (auto simp: path_of_def plain_seg_def list_all_iff is_digit_def code_def dest!: bspec)

lemma receive_path:
  assumes "express_paths pm" "segs \<noteq> []" "list_all plain_seg segs"
  shows "receive pm (meth, path_of segs) b =
      (case first_segs meth segs routes of None \<Rightarrow> None | Some (h, ps) \<Rightarrow> request_of h ps [] b)"
    and "receive pm (meth, path_of segs @ CHR ''?'' # q) b =
      (case first_segs meth segs routes of None \<Rightarrow> None | Some (h, ps) \<Rightarrow> request_of h ps (qs_parse q) b)"
proof -
  have cut: "takeWhile (\<lambda>c. c \<noteq> CHR ''?'') p = p" "dropWhile (\<lambda>c. c \<noteq> CHR ''?'') p = []"
    "takeWhile (\<lambda>c. c \<noteq> CHR ''?'') (p @ CHR ''?'' # q) = p"
    "dropWhile (\<lambda>c. c \<noteq> CHR ''?'') (p @ CHR ''?'' # q) = CHR ''?'' # q" if "CHR ''?'' \<notin> set p" for p
    using that by (induction p) auto
  have "takeWhile (\<lambda>c. c \<noteq> CHR ''?'') (path_of segs) = path_of segs" "dropWhile (\<lambda>c. c \<noteq> CHR ''?'') (path_of segs) = []"
    "takeWhile (\<lambda>c. c \<noteq> CHR ''?'') (path_of segs @ CHR ''?'' # q) = path_of segs"
    "dropWhile (\<lambda>c. c \<noteq> CHR ''?'') (path_of segs @ CHR ''?'' # q) = CHR ''?'' # q"
    by (rule cut [OF plain_path [OF assms(3)]])+
  then show "receive pm (meth, path_of segs) b =
      (case first_segs meth segs routes of None \<Rightarrow> None | Some (h, ps) \<Rightarrow> request_of h ps [] b)"
    "receive pm (meth, path_of segs @ CHR ''?'' # q) b =
      (case first_segs meth segs routes of None \<Rightarrow> None | Some (h, ps) \<Rightarrow> request_of h ps (qs_parse q) b)"
    using first_route_segs [OF assms] by (simp_all only: receive_def Let_def fst_conv snd_conv) (simp_all add: qs_parse_def split: option.split)
qed

section \<open>Properties\<close>

lemmas route_tables = routes_def status_routes_def rules_routes_def logs_routes_def approvals_routes_def
  agents_routes_def policies_routes_def at_def

lemma int_segs:
  "show_int i \<noteq> ''test''" "show_int i \<noteq> ''match''" "show_int i \<noteq> ''register-ip''"
  "''test'' \<noteq> show_int i" "''match'' \<noteq> show_int i" "''register-ip'' \<noteq> show_int i"
  using show_int_not_word [of "''test''" i] show_int_not_word [of "''match''" i] show_int_not_word [of "''register-ip''" i]
  by (auto simp: code_def)

lemma plain_segs:
  "plain_seg ''api''" "plain_seg ''rules''" "plain_seg ''test''" "plain_seg ''move''" "plain_seg ''logs''"
  "plain_seg ''request-body''" "plain_seg ''response-body''" "plain_seg ''approvals''" "plain_seg ''resolve''"
  "plain_seg ''status''" "plain_seg ''agents''" "plain_seg ''rotate-token''" "plain_seg ''policies''"
  "plain_seg ''match''" "plain_seg ''children''"
  by code_simp+

definition call_segs :: "api_call \<Rightarrow> string list" where
  "call_segs c =
     ''api'' #
     (case c of
        CGetRules \<Rightarrow> [''rules''] | CGetRule i \<Rightarrow> [''rules'', show_int i] | CCreateRule _ \<Rightarrow> [''rules'']
      | CUpdateRule i _ \<Rightarrow> [''rules'', show_int i] | CDeleteRule i \<Rightarrow> [''rules'', show_int i]
      | CTestRule _ _ \<Rightarrow> [''rules'', ''test''] | CGetLogs _ \<Rightarrow> [''logs''] | CGetLog i \<Rightarrow> [''logs'', show_int i]
      | CGetRequestBody i \<Rightarrow> [''logs'', show_int i, ''request-body'']
      | CGetResponseBody i \<Rightarrow> [''logs'', show_int i, ''response-body'']
      | CGetApprovals \<Rightarrow> [''approvals''] | CResolveApproval i _ \<Rightarrow> [''approvals'', show_int i, ''resolve'']
      | CGetStatus \<Rightarrow> [''status''] | CGetAgents \<Rightarrow> [''agents''] | CGetAgent i \<Rightarrow> [''agents'', show_int i]
      | CCreateAgent _ _ \<Rightarrow> [''agents''] | CUpdateAgent i _ \<Rightarrow> [''agents'', show_int i]
      | CDeleteAgent i \<Rightarrow> [''agents'', show_int i] | CRotateToken i \<Rightarrow> [''agents'', show_int i, ''rotate-token'']
      | CGetPolicies \<Rightarrow> [''policies''] | CGetPolicy i \<Rightarrow> [''policies'', show_int i]
      | CCreatePolicy _ _ \<Rightarrow> [''policies''] | CUpdatePolicy i _ \<Rightarrow> [''policies'', show_int i]
      | CDeletePolicy i \<Rightarrow> [''policies'', show_int i]
      | CAddPolicyChild i _ \<Rightarrow> [''policies'', show_int i, ''children'']
      | CRemovePolicyChild i c \<Rightarrow> [''policies'', show_int i, ''children'', show_int c]
      | CAssignPolicyAgent i _ \<Rightarrow> [''policies'', show_int i, ''agents'']
      | CUnassignPolicyAgent i a \<Rightarrow> [''policies'', show_int i, ''agents'', show_int a]
      | CMatchPolicies _ _ \<Rightarrow> [''policies'', ''match''] | CMoveRule i _ \<Rightarrow> [''rules'', show_int i, ''move''])"

definition call_query :: "api_call \<Rightarrow> string option" where
  "call_query c =
     (case c of
        CGetLogs ps \<Rightarrow> Some (url_search_params ps)
      | CMatchPolicies url meth \<Rightarrow> Some (''url='' @ encode_uri_component url @ ''&method='' @ meth)
      | _ \<Rightarrow> None)"

lemma call_target: "client_target c =
    (fst (client_target c), path_of (call_segs c) @ (case call_query c of None \<Rightarrow> [] | Some q \<Rightarrow> CHR ''?'' # q))"
  by (cases c) (simp_all add: path_of_def call_segs_def call_query_def under_def)

lemma call_segs_plain: "list_all plain_seg (call_segs c)" "call_segs c \<noteq> []"
  by (cases c) (simp_all add: call_segs_def plain_segs plain_seg_show_int)

lemma match_query:
  assumes "list_all alnum meth"
  shows "match_request (qs_parse (''url='' @ encode_uri_component url @ ''&method='' @ meth)) = Some (MatchPolicies url meth)"
proof -
  have m: "\<forall>c \<in> set meth. c \<notin> {CHR ''%'', CHR ''+'', CHR ''&'', CHR ''='', CHR ''?''}"
    using assms alnum_plain unfolding list_all_iff by blast
  have d: "qs_decode meth = meth" "CHR ''&'' \<notin> set meth"
    using m by (induction meth) (auto simp: qs_decode_plain qs_decode_def [of "[]"])
  have w: "qs_decode ''url'' = ''url''" "qs_decode ''method'' = ''method''" by code_simp+
  have u: "CHR ''&'' \<notin> set (encode_uri_component url)" using uri_encode_plain by auto
  have "split_at (CHR ''&'') (sep_by ''&'' [''url='' @ encode_uri_component url, ''method='' @ meth])
      = [''url='' @ encode_uri_component url, ''method='' @ meth]"
    by (rule split_at_sep_by) (use u d(2) in auto)
  then have s: "split_at (CHR ''&'') (''url='' @ encode_uri_component url @ ''&method='' @ meth)
      = [''url'' @ ''='' @ encode_uri_component url, ''method'' @ ''='' @ meth]" by simp
  have "qs_parse (''url='' @ encode_uri_component url @ ''&method='' @ meth) = [(''url'', url), (''method'', meth)]"
    unfolding qs_parse_def s using qs_pair_encoded [of "''url''"] qs_pair_encoded [of "''method''"]
    by (simp add: w d qs_decode_uri)
  then show ?thesis by (simp add: match_request_def query_get_def)
qed

text \<open>
  C20: Every call arrives: whatever the ids and texts, the request the browser sends for a call of the API client is
  the one the call means, on the route meant and with the ids and query values given, provided the keys of a log
  query differ and the method of a policy match is made of letters and digits (it is not encoded).
\<close>

theorem client_reaches_route:
  assumes "express_paths pm" "\<And>ps. c = CGetLogs ps \<Longrightarrow> distinct (map fst ps)"
    and "\<And>url meth. c = CMatchPolicies url meth \<Longrightarrow> list_all alnum meth"
  shows "receive pm (client_target c) (client_body c) = Some (call_request c)"
proof -
  have "\<exists>h ps. first_segs (fst (client_target c)) (call_segs c) routes = Some (h, ps)
      \<and> request_of h ps (case call_query c of None \<Rightarrow> [] | Some q \<Rightarrow> qs_parse q) (client_body c) = Some (call_request c)"
    using assms(2,3)
    by (cases c)
      (simp_all add: route_tables call_segs_def call_query_def int_segs request_of_def read_request_def no_id_def
        one_id_def two_ids_def to_number_show_int log_query_of_def qs_parse_params query_get_params fun_eq_iff
        match_query [unfolded append_Cons append_Nil])
  then obtain h ps where hp: "first_segs (fst (client_target c)) (call_segs c) routes = Some (h, ps)"
      "request_of h ps (case call_query c of None \<Rightarrow> [] | Some q \<Rightarrow> qs_parse q) (client_body c) = Some (call_request c)" by blast
  show ?thesis
    using receive_path [OF assms(1) call_segs_plain(2,1), of "fst (client_target c)" c] hp
    by (subst call_target) (cases "call_query c"; simp)
qed

section \<open>The property at a concrete input\<close>

definition segment_matcher :: "seg list \<Rightarrow> string \<Rightarrow> string list option" where
  "segment_matcher pat path = match_segs pat (tl (split_at (CHR ''/'') path))"

lemma split_path:
  assumes "list_all plain_seg segs"
  shows "split_at (CHR ''/'') (path_of segs) = [] # segs"
proof -
  have clean: "CHR ''/'' \<notin> set s" if "s \<in> set segs" for s
    using assms that by (auto simp: list_all_iff plain_seg_def is_digit_def code_def dest!: bspec)
  have "split_at (CHR ''/'') (s @ path_of ss) = s # ss" if "CHR ''/'' \<notin> set s" "\<forall>s \<in> set ss. CHR ''/'' \<notin> set s" for s ss
    using that by (induction ss arbitrary: s) (simp_all add: path_of_def split_at_last split_at_piece)
  from this [of "[]" segs] clean show ?thesis by simp
qed

lemma segment_matcher_paths: "express_paths segment_matcher"
  by (auto simp: express_paths_def segment_matcher_def split_path)

theorem client_reaches_route_witness:
  "receive segment_matcher (client_target (CMatchPolicies ''http://a/?q=1&r=%'' ''GET'')) NoData
     = Some (MatchPolicies ''http://a/?q=1&r=%'' ''GET'')
   \<and> receive segment_matcher (client_target (CRemovePolicyChild 12 7)) NoData = Some (DeleteChild (Some 12) (Some 7))"
proof -
  have "list_all alnum ''GET''" by code_simp
  then show ?thesis
    using client_reaches_route [OF segment_matcher_paths, of "CMatchPolicies ''http://a/?q=1&r=%'' ''GET''"]
      client_reaches_route [OF segment_matcher_paths, of "CRemovePolicyChild 12 7"] by simp
qed

end
