(* ===== verification/Gui_Stream.thy ===== *)
theory Gui_Stream
  imports Client
begin

text \<open>
  The connection of the event stream: \<open>useSSE\<close> of \<open>gui/src/api/useSSE.js\<close> inside \<open>EventBridge\<close> of \<open>gui/src/App.jsx\<close>.
  A run is one call of the inner function \<open>run\<close> that has not ended; the two refs hold the last controller and the
  last timer. The callbacks \<open>onConnect\<close> and \<open>onDisconnect\<close> are new functions in every render of \<open>App\<close>, so every
  change of its state makes a new \<open>connect\<close>, and the effect cleans up and connects again once it is rendered
  (\<open>ss_dirty\<close> is such a render that is still to come; setting a state to its old value renders nothing).
\<close>

section \<open>The machine\<close>

datatype phase = Fetching | Reading

record sse =
  ss_mounted :: bool
  ss_runs :: "(nat \<times> phase) list"
  ss_abort :: "nat option"
  ss_timers :: "nat list"
  ss_timer_ref :: "nat option"
  ss_next :: nat
  ss_connected :: bool
  ss_badge :: nat
  ss_dirty :: bool
  ss_delivered :: "(string \<times> json) list"

definition sse_new :: sse where
  "sse_new = \<lparr>ss_mounted = False, ss_runs = [], ss_abort = None, ss_timers = [], ss_timer_ref = None, ss_next = 0,
     ss_connected = False, ss_badge = 0, ss_dirty = False, ss_delivered = []\<rparr>"

text \<open>\<open>connect\<close>: a new controller, a new run.\<close>

definition connect :: "sse \<Rightarrow> sse" where
  "connect s = s\<lparr>ss_runs := ss_runs s @ [(ss_next s, Fetching)], ss_abort := Some (ss_next s), ss_next := ss_next s + 1\<rparr>"

text \<open>The cleanup of the effect; an aborted run ends with an \<open>AbortError\<close> and does nothing more.\<close>

definition cleanup :: "sse \<Rightarrow> sse" where
  "cleanup s = s\<lparr>ss_runs := filter (\<lambda>r. Some (fst r) \<noteq> ss_abort s) (ss_runs s),
     ss_timers := filter (\<lambda>t. Some t \<noteq> ss_timer_ref s) (ss_timers s)\<rparr>"

definition set_connected :: "bool \<Rightarrow> sse \<Rightarrow> sse" where
  "set_connected b s = (if ss_connected s = b then s else s\<lparr>ss_connected := b, ss_dirty := True\<rparr>)"

definition set_badge :: "nat \<Rightarrow> sse \<Rightarrow> sse" where
  "set_badge n s = (if ss_badge s = n then s else s\<lparr>ss_badge := n, ss_dirty := True\<rparr>)"

text \<open>\<open>setTimeout(connect, 3000)\<close>, after \<open>onDisconnect\<close>.\<close>

definition arm_timer :: "sse \<Rightarrow> sse" where
  "arm_timer s = s\<lparr>ss_timers := ss_timers s @ [ss_next s], ss_timer_ref := Some (ss_next s), ss_next := ss_next s + 1\<rparr>"

definition drop_run :: "nat \<Rightarrow> sse \<Rightarrow> sse" where
  "drop_run i s = s\<lparr>ss_runs := filter (\<lambda>r. fst r \<noteq> i) (ss_runs s)\<rparr>"

datatype sse_input =
    Login
  | Logout
  | Opened nat
  | Lost nat
  | Delivered nat string json
  | TimerFires nat
  | OtherChange
  | Rendered

text \<open>
  \<open>Opened\<close> is a response with an OK status, \<open>Lost\<close> one without, a failed fetch, a failed read and the end of the
  stream. \<open>OtherChange\<close> is any other change of the state of \<open>App\<close>, such as the loaded status.
\<close>

fun sse_step :: "sse_input \<Rightarrow> sse \<Rightarrow> sse" where
  "sse_step Login s =
     (if ss_mounted s then s else connect (s\<lparr>ss_mounted := True, ss_dirty := False\<rparr>))"
| "sse_step Logout s = (if ss_mounted s then (cleanup s)\<lparr>ss_mounted := False\<rparr> else s)"
| "sse_step (Opened i) s =
     (if (i, Fetching) \<in> set (ss_runs s)
      then set_connected True (s\<lparr>ss_runs := map (\<lambda>r. if fst r = i then (i, Reading) else r) (ss_runs s)\<rparr>) else s)"
| "sse_step (Lost i) s =
     (if i \<in> fst ` set (ss_runs s) then arm_timer (set_connected False (drop_run i s)) else s)"
| "sse_step (Delivered i t v) s =
     (if (i, Reading) \<in> set (ss_runs s)
      then set_badge (badge t (ss_badge s)) (s\<lparr>ss_delivered := ss_delivered s @ [(t, v)]\<rparr>) else s)"
| "sse_step (TimerFires t) s =
     (if t \<in> set (ss_timers s) then connect (s\<lparr>ss_timers := filter (\<lambda>x. x \<noteq> t) (ss_timers s)\<rparr>) else s)"
| "sse_step OtherChange s = (if ss_mounted s then s\<lparr>ss_dirty := True\<rparr> else s)"
| "sse_step Rendered s =
     (if ss_mounted s \<and> ss_dirty s then connect (cleanup (s\<lparr>ss_dirty := False\<rparr>)) else s)"

inductive sse_reach :: "sse \<Rightarrow> bool" where
  start: "sse_reach sse_new"
| input: "sse_reach s \<Longrightarrow> sse_reach (sse_step inp s)"

text \<open>The request \<open>run\<close> sends: its headers hold the credentials only, never the id of the last event.\<close>

definition sse_request :: "nat \<Rightarrow> request" where
  "sse_request client = GetEvents client None"

section \<open>Invariant\<close>

definition sse_ok :: "sse \<Rightarrow> bool" where
  "sse_ok s \<longleftrightarrow>
     (if ss_mounted s
      then (\<exists>i ph. ss_runs s = [(i, ph)] \<and> ss_timers s = [] \<and> ss_abort s = Some i)
         \<or> (\<exists>t. ss_runs s = [] \<and> ss_timers s = [t] \<and> ss_timer_ref s = Some t)
      else ss_runs s = [] \<and> ss_timers s = [])"

lemma sse_okE:
  assumes "sse_ok s"
  obtains (run) i ph where "ss_mounted s" "ss_runs s = [(i, ph)]" "ss_timers s = []" "ss_abort s = Some i"
    | (timer) t where "ss_mounted s" "ss_runs s = []" "ss_timers s = [t]" "ss_timer_ref s = Some t"
    | (idle) "\<not> ss_mounted s" "ss_runs s = []" "ss_timers s = []"
  using assms by (auto simp: sse_ok_def split: if_splits)

lemmas machine_defs = connect_def cleanup_def set_connected_def set_badge_def arm_timer_def drop_run_def

lemma sse_step_ok: "sse_ok s \<Longrightarrow> sse_ok (sse_step inp s)"
  by (erule sse_okE; cases inp) (simp_all add: machine_defs sse_ok_def)

lemma sse_reach_ok: "sse_reach s \<Longrightarrow> sse_ok s"
  by (induction rule: sse_reach.induct) (simp add: sse_ok_def sse_new_def, rule sse_step_ok)

text \<open>
  C23: The stream is never given up and never doubled: while somebody is logged in there is, in every state the
  browser can reach, exactly one connection being opened or read, or else one timer that will open the next;
  after the logout there is neither.
\<close>

theorem one_stream:
  assumes "sse_reach s"
  shows "if ss_mounted s then length (ss_runs s) + length (ss_timers s) = 1 else ss_runs s = [] \<and> ss_timers s = []"
  using sse_reach_ok [OF assms] by (auto elim: sse_okE)

lemma Rendered_dirty:
  assumes "sse_ok s" "ss_mounted s" "ss_dirty s"
  shows "ss_runs (sse_step Rendered s) = [(ss_next s, Fetching)]" "ss_timers (sse_step Rendered s) = []"
    "\<not> ss_dirty (sse_step Rendered s)" "ss_next (sse_step Rendered s) = ss_next s + 1"
  using assms by (auto elim!: sse_okE simp: machine_defs)

text \<open>Ids of runs are older than the next id.\<close>

definition fresh :: "sse \<Rightarrow> bool" where
  "fresh s \<longleftrightarrow> (\<forall>r \<in> set (ss_runs s). fst r < ss_next s)"

lemma fresh_step: "fresh s \<Longrightarrow> fresh (sse_step inp s)"
  by (cases inp) (auto simp: fresh_def machine_defs less_Suc_eq)

lemma sse_reach_fresh: "sse_reach s \<Longrightarrow> fresh s"
  by (induction rule: sse_reach.induct) (simp add: fresh_def sse_new_def, rule fresh_step)

text \<open>The events a client gets that connects without an id: none of those emitted before.\<close>

lemma written_new_client:
  assumes "k \<notin> fst ` set (eb_out b)"
  shows "written k (add_client k None b) = [Head 200, Chunk ('':ok'' @ nl @ nl)]"
proof -
  have "filter (\<lambda>w. fst w = k) (eb_out b) = []" using assms by (auto simp: filter_empty_conv)
  then show ?thesis by (simp add: written_def add_client_def Let_def)
qed

lemma emit_out_clients: "fst ` set (eb_out (emit t v b)) \<subseteq> fst ` set (eb_out b) \<union> set (eb_clients b)"
proof -
  have "fst ` set (eb_out (foldl (\<lambda>b c. send_event c e b) b cs)) \<subseteq> fst ` set (eb_out b) \<union> set cs" for e b cs
    by (induction cs arbitrary: b) (force simp: send_event_def)+
  from this [of "\<lparr>ev_id = eb_next_id b, ev_type = t, ev_data = v\<rparr>"] show ?thesis
    by (fastforce simp: emit_def Let_def)
qed

text \<open>
  C24: Every approval cuts the stream: the delivery of an \<open>approval.needed\<close> event changes the badge, so that the
  browser aborts the connection it came on and opens a new one, also while that connection is fine; and because
  the new request does not say which event was the last, nothing the server emits between the end of the old
  connection and the arrival of the new one is ever written to the new one.
\<close>

theorem approval_cuts_stream:
  assumes "sse_reach s" "(i, Reading) \<in> set (ss_runs s)" "s' = sse_step Rendered (sse_step (Delivered i ''approval.needed'' v) s)"
    and "k \<notin> fst ` set (eb_out bus)" "k \<notin> set (eb_clients bus)" "sse_request k = GetEvents k last_id"
  shows "(\<exists>j. ss_runs s' = [(j, Fetching)] \<and> j \<noteq> i) \<and> ss_delivered s' = ss_delivered s @ [(''approval.needed'', v)]
    \<and> written k (add_client k last_id (emit t w (client_closed old bus))) = [Head 200, Chunk ('':ok'' @ nl @ nl)]"
proof (intro conjI)
  let ?s1 = "sse_step (Delivered i ''approval.needed'' v) s"
  have ok1: "sse_ok ?s1" by (rule sse_step_ok [OF sse_reach_ok [OF assms(1)]])
  have m: "ss_mounted s" using sse_reach_ok [OF assms(1)] assms(2) by (auto elim: sse_okE)
  have s1: "ss_mounted ?s1" "ss_dirty ?s1" "ss_next ?s1 = ss_next s"
    "ss_delivered ?s1 = ss_delivered s @ [(''approval.needed'', v)]"
    using assms(2) m by (simp_all add: set_badge_def badge_def)
  have "i < ss_next s" using sse_reach_fresh [OF assms(1)] assms(2) by (auto simp: fresh_def)
  then show "\<exists>j. ss_runs s' = [(j, Fetching)] \<and> j \<noteq> i"
    unfolding assms(3) using Rendered_dirty(1) [OF ok1 s1(1,2)] s1(3) by (intro exI [of _ "ss_next s"]) simp
  have "ss_delivered (sse_step Rendered ?s1) = ss_delivered ?s1" by (simp add: machine_defs)
  then show "ss_delivered s' = ss_delivered s @ [(''approval.needed'', v)]" unfolding assms(3) s1(4) .
  have "k \<notin> fst ` set (eb_out (emit t w (client_closed old bus)))"
    using emit_out_clients [of t w "client_closed old bus"] assms(4,5) by (auto simp: client_closed_def)
  from written_new_client [OF this]
  show "written k (add_client k last_id (emit t w (client_closed old bus))) = [Head 200, Chunk ('':ok'' @ nl @ nl)]"
    using assms(6) by (simp add: sse_request_def)
qed

text \<open>
  The three seconds between two attempts are kept only between failed attempts: when a connection that was shown
  as connected is lost, the change of the indicator renders the application, which clears the timer and connects
  at once; while it is shown as disconnected a lost attempt leaves one timer, and its firing opens one
  connection.
\<close>

theorem reconnect_backoff:
  assumes "sse_reach s" "i \<in> fst ` set (ss_runs s)"
  shows "if ss_connected s
    then (\<exists>j. ss_runs (sse_step Rendered (sse_step (Lost i) s)) = [(j, Fetching)])
       \<and> ss_timers (sse_step Rendered (sse_step (Lost i) s)) = []
    else ss_runs (sse_step (Lost i) s) = []
       \<and> (\<exists>t j. ss_timers (sse_step (Lost i) s) = [t]
            \<and> ss_runs (sse_step (TimerFires t) (sse_step (Lost i) s)) = [(j, Fetching)]
            \<and> ss_timers (sse_step (TimerFires t) (sse_step (Lost i) s)) = [])
       \<and> (ss_dirty s \<or> sse_step Rendered (sse_step (Lost i) s) = sse_step (Lost i) s)"
  using sse_reach_ok [OF assms(1)]
proof (cases rule: sse_okE)
  case (run j ph)
  then show ?thesis using assms(2) by (auto simp: machine_defs)
qed (use assms(2) in simp_all)

section \<open>Subscribers\<close>

text \<open>The set of subscribers in the order of their insertion, and the calls \<open>onEvent\<close> makes.\<close>

definition subscribe :: "nat \<Rightarrow> nat list \<Rightarrow> nat list" where
  "subscribe f fs = (if f \<in> set fs then fs else fs @ [f])"

definition unsubscribe :: "nat \<Rightarrow> nat list \<Rightarrow> nat list" where
  "unsubscribe f fs = removeAll f fs"

definition on_event :: "nat list \<Rightarrow> string \<Rightarrow> json \<Rightarrow> (nat \<times> string \<times> json) list" where
  "on_event fs t v = map (\<lambda>f. (f, t, v)) fs"

lemma subscribers_distinct: "distinct fs \<Longrightarrow> distinct (subscribe f fs)" "distinct fs \<Longrightarrow> distinct (unsubscribe f fs)"
  by (auto simp: subscribe_def unsubscribe_def distinct_removeAll)

lemma called_once: "distinct fs \<Longrightarrow> length (filter (\<lambda>c. fst c = f) (on_event fs t v)) = (if f \<in> set fs then 1 else 0)"
  by (induction fs) (auto simp: on_event_def)

section \<open>The properties at concrete inputs\<close>

definition open_stream :: sse where
  "open_stream = sse_step (Opened 0) (sse_step Login sse_new)"

lemma open_stream_reach: "sse_reach open_stream"
  unfolding open_stream_def by (intro sse_reach.intros)

lemma open_stream_fields: "ss_runs open_stream = [(0, Reading)]" "ss_connected open_stream"
  by (simp_all add: open_stream_def sse_new_def machine_defs)

theorem approval_cuts_stream_witness:
  "\<exists>j. ss_runs (sse_step Rendered (sse_step (Delivered 0 ''approval.needed'' JNull) open_stream)) = [(j, Fetching)] \<and> j \<noteq> 0"
proof -
  have "(0, Reading) \<in> set (ss_runs open_stream)" by (simp add: open_stream_fields)
  moreover have "7 \<notin> fst ` set (eb_out (bus_new 10))" "7 \<notin> set (eb_clients (bus_new 10))" by (simp_all add: bus_new_def)
  moreover have "sse_request 7 = GetEvents 7 None" by (simp add: sse_request_def)
  ultimately show ?thesis using approval_cuts_stream [OF open_stream_reach _ refl] by blast
qed

theorem one_stream_witness: "length (ss_runs open_stream) + length (ss_timers open_stream) = 1"
  using one_stream [OF open_stream_reach] by (simp add: open_stream_def sse_new_def machine_defs)

theorem reconnect_backoff_witness: "ss_timers (sse_step Rendered (sse_step (Lost 0) open_stream)) = []"
  using reconnect_backoff [OF open_stream_reach, of 0] by (simp add: open_stream_fields)

end
