(* ===== verification/Gui_Viewer.thy ===== *)
theory Gui_Viewer
  imports Ipc
begin

text \<open>
  \<open>components/JsonViewer.jsx\<close>: a logged body, which comes from the agents and from the sites they talk to, is
  shown as HTML that the viewer makes itself. The five replacements are modelled on the UTF-8 bytes; the names of
  the CSS classes are made by the build and a parameter.
\<close>

section \<open>Pretty printing\<close>

definition indent :: "nat \<Rightarrow> string" where
  "indent n = replicate (2 * n) (CHR '' '')"

definition nl_indent :: "nat \<Rightarrow> string" where
  "nl_indent n = newline # indent n"

text \<open>\<open>JSON.stringify(value, null, 2)\<close>.\<close>

fun pretty :: "nat \<Rightarrow> json \<Rightarrow> string" where
  "pretty n (JArr vs) =
     (if vs = [] then ''[]''
      else ''['' @ nl_indent (n + 1) @ sep_by ('','' @ nl_indent (n + 1)) (map (pretty (n + 1)) vs) @ nl_indent n @ '']'')"
| "pretty n (JObj kvs) =
     (if kvs = [] then ''{}''
      else ''{'' @ nl_indent (n + 1)
           @ sep_by ('','' @ nl_indent (n + 1)) (map (\<lambda>kv. show_string (fst kv) @ '': '' @ pretty (n + 1) (snd kv)) kvs)
           @ nl_indent n @ ''}'')"
| "pretty n v = stringify v"

section \<open>Highlighting\<close>

record css_classes =
  css_key :: string
  css_string :: string
  css_number :: string
  css_bool :: string

definition replace_char :: "char \<Rightarrow> string \<Rightarrow> string \<Rightarrow> string" where
  "replace_char c r s = concat (map (\<lambda>x. if x = c then r else [x]) s)"

definition escape_html :: "string \<Rightarrow> string" where
  "escape_html s = replace_char (CHR ''>'') ''&gt;'' (replace_char (CHR ''<'') ''&lt;'' (replace_char (CHR ''&'') ''&amp;'' s))"

text \<open>\<open>\s\<close>: the ASCII blanks and the UTF-8 sequences of the other white space of JavaScript.\<close>

definition blank_length :: "string \<Rightarrow> nat" where
  "blank_length s =
     (if s = [] then 0
      else if code (hd s) = 32 \<or> 9 \<le> code (hd s) \<and> code (hd s) \<le> 13 then 1
      else if map code (take 2 s) = [194, 160] then 2
      else if map code (take 3 s) \<in> {[225, 154, 128], [226, 128, 168], [226, 128, 169], [226, 128, 175], [226, 129, 159],
                                    [227, 128, 128], [239, 187, 191]}
              \<or> map code (take 2 s) = [226, 128] \<and> 2 < length s \<and> 128 \<le> code (s ! 2) \<and> code (s ! 2) \<le> 138 then 3
      else 0)"

function skip_blanks :: "string \<Rightarrow> string" where
  "skip_blanks s = (if blank_length s = 0 then s else skip_blanks (drop (blank_length s) s))"
  by auto
termination
  by (relation "measure length") (auto simp: blank_length_def split: if_splits)

declare skip_blanks.simps [simp del]

definition span :: "string \<Rightarrow> string \<Rightarrow> string" where
  "span cls content = ''<span class='' @ quote_char # cls @ quote_char # ''>'' @ content @ ''</span>''"

text \<open>The rest behind a quote: the text up to the next quote and what follows it.\<close>

definition until_quote :: "string \<Rightarrow> (string \<times> string) option" where
  "until_quote s =
     (case dropWhile (\<lambda>c. c \<noteq> quote_char) s of
        [] \<Rightarrow> None
      | _ # rest \<Rightarrow> Some (takeWhile (\<lambda>c. c \<noteq> quote_char) s, rest))"

lemma until_quote_Some: "until_quote s = Some (b, rest) \<longleftrightarrow> s = b @ quote_char # rest \<and> quote_char \<notin> set b"
proof
  assume "until_quote s = Some (b, rest)"
  then show "s = b @ quote_char # rest \<and> quote_char \<notin> set b"
    by (induction s arbitrary: b) (auto simp: until_quote_def split: if_splits list.splits)
next
  assume s: "s = b @ quote_char # rest \<and> quote_char \<notin> set b"
  then have "takeWhile (\<lambda>c. c \<noteq> quote_char) (b @ quote_char # rest) = b"
    "dropWhile (\<lambda>c. c \<noteq> quote_char) (b @ quote_char # rest) = quote_char # rest"
    by (induction b arbitrary: s) auto
  then show "until_quote s = Some (b, rest)" using s by (simp add: until_quote_def)
qed

lemma until_quote_length [termination_simp]: "until_quote s = Some (b, rest) \<Longrightarrow> length rest < length s"
  by (simp add: until_quote_Some)

lemma skip_blanks_length: "length (skip_blanks s) \<le> length s"
proof (induction s rule: skip_blanks.induct)
  case (1 s)
  show ?case
  proof (cases "blank_length s = 0")
    case False
    with 1 have "length (skip_blanks (drop (blank_length s) s)) \<le> length (drop (blank_length s) s)" by simp
    then show ?thesis using False by (subst skip_blanks.simps) simp
  qed (simp add: skip_blanks.simps)
qed

text \<open>A quoted text before a colon: \<open>/"([^"]+)"(?=\s*:)/g\<close>.\<close>

function mark_keys :: "string \<Rightarrow> string \<Rightarrow> string" where
  "mark_keys cls [] = []"
| "mark_keys cls (c # s) =
     (if c = quote_char then
        (case until_quote s of
           Some (b, rest) \<Rightarrow>
             if b \<noteq> [] \<and> take 1 (skip_blanks rest) = '':'' then span cls (quote_char # b @ [quote_char]) @ mark_keys cls rest
             else c # mark_keys cls s
         | None \<Rightarrow> c # mark_keys cls s)
      else c # mark_keys cls s)"
  by pat_completeness auto
termination
  by (relation "measure (length \<circ> snd)") (auto dest: until_quote_length)

text \<open>A quoted text behind a colon: \<open>/:\s*"([^"]*?)"/g\<close>.\<close>

definition string_after :: "string \<Rightarrow> (string \<times> string) option" where
  "string_after s = (case skip_blanks s of [] \<Rightarrow> None | c # r \<Rightarrow> if c = quote_char then until_quote r else None)"

text \<open>A number behind a colon: \<open>/:\s*(\d+\.?\d*)/g\<close>.\<close>

definition number_after :: "string \<Rightarrow> (string \<times> string) option" where
  "number_after s =
     (let r = skip_blanks s; ds = takeWhile is_digit r; r1 = dropWhile is_digit r in
      if ds = [] then None
      else if take 1 r1 = ''.'' then Some (ds @ ''.'' @ takeWhile is_digit (drop 1 r1), dropWhile is_digit (drop 1 r1))
      else Some (ds, r1))"

text \<open>A literal behind a colon: \<open>/:\s*(true|false|null)/g\<close>.\<close>

definition literal_after :: "string \<Rightarrow> (string \<times> string) option" where
  "literal_after s =
     (let r = skip_blanks s in
      if take 4 r = ''true'' then Some (''true'', drop 4 r)
      else if take 5 r = ''false'' then Some (''false'', drop 5 r)
      else if take 4 r = ''null'' then Some (''null'', drop 4 r)
      else None)"

text \<open>
  Replacing what is found behind colons; \<open>fnd\<close> gives the captured text and the rest, which is never longer than
  the text searched (the test makes the recursion end for every \<open>fnd\<close>).
\<close>

function mark_values :: "(string \<Rightarrow> (string \<times> string) option) \<Rightarrow> (string \<Rightarrow> string) \<Rightarrow> string \<Rightarrow> string" where
  "mark_values fnd out [] = []"
| "mark_values fnd out (c # s) =
     (if c = CHR '':'' then
        (case fnd s of
           Some (b, rest) \<Rightarrow>
             if length rest \<le> length s then '': '' @ out b @ mark_values fnd out rest else c # mark_values fnd out s
         | None \<Rightarrow> c # mark_values fnd out s)
      else c # mark_values fnd out s)"
  by pat_completeness auto
termination
  by (relation "measure (\<lambda>(_, _, s). length s)") auto

definition highlight :: "css_classes \<Rightarrow> string \<Rightarrow> string" where
  "highlight css formatted =
     mark_values literal_after (span (css_bool css))
       (mark_values number_after (span (css_number css))
         (mark_values string_after (\<lambda>b. span (css_string css) (quote_char # b @ [quote_char]))
           (mark_keys (css_key css) (escape_html formatted))))"

datatype viewer = Placeholder | Plain string | Html string

definition json_viewer :: "css_classes \<Rightarrow> string option \<Rightarrow> viewer" where
  "json_viewer css text =
     (case text of
        None \<Rightarrow> Placeholder
      | Some t \<Rightarrow>
          if t = [] then Placeholder
          else (case json_parse t of None \<Rightarrow> Plain t | Some v \<Rightarrow> Html (highlight css (pretty 0 v))))"

section \<open>Safe HTML\<close>

text \<open>
  A browser's view of a text: outside of tags until a \<open><\<close>, inside a tag until a \<open>>\<close> that is not between quotes. The
  contents of all tags are listed; \<open>None\<close> when the text ends inside a tag.
\<close>

datatype html_state = InText | InTag string | InQuotes string

fun html_tags :: "html_state \<Rightarrow> string \<Rightarrow> string list option" where
  "html_tags InText [] = Some []"
| "html_tags _ [] = None"
| "html_tags InText (c # s) = (if c = CHR ''<'' then html_tags (InTag []) s else html_tags InText s)"
| "html_tags (InTag t) (c # s) =
     (if c = CHR ''>'' then map_option ((#) t) (html_tags InText s)
      else html_tags (if c = quote_char then InQuotes (t @ [c]) else InTag (t @ [c])) s)"
| "html_tags (InQuotes t) (c # s) = html_tags (if c = quote_char then InTag (t @ [c]) else InQuotes (t @ [c])) s"

text \<open>The end of a span, or its start with a class and nothing else.\<close>

definition span_tag :: "string \<Rightarrow> bool" where
  "span_tag t \<longleftrightarrow>
     t = ''/span'' \<or> (\<exists>v. quote_char \<notin> set v \<and> t = ''span class='' @ quote_char # v @ [quote_char])"

abbreviation open_head :: string where "open_head \<equiv> ''<span class=''"

definition open_tag :: "string \<Rightarrow> string" where
  "open_tag v = open_head @ quote_char # v @ quote_char # ''>''"

inductive safe :: "string \<Rightarrow> bool" where
  nil: "safe []"
| char: "c \<noteq> CHR ''<'' \<Longrightarrow> c \<noteq> CHR ''>'' \<Longrightarrow> safe s \<Longrightarrow> safe (c # s)"
| start: "quote_char \<notin> set v \<Longrightarrow> CHR '':'' \<notin> set v \<Longrightarrow> safe s \<Longrightarrow> safe (open_tag v @ s)"
| finish: "safe s \<Longrightarrow> safe (''</span>'' @ s)"

lemma tags_open:
  assumes "quote_char \<notin> set v"
  shows "html_tags InText (open_tag v @ s) = map_option ((#) (''span class='' @ quote_char # v @ [quote_char])) (html_tags InText s)"
proof -
  have "html_tags (InQuotes t) (v @ quote_char # r) = html_tags (InTag (t @ v @ [quote_char])) r" for t r
    using assms by (induction v arbitrary: t) auto
  then show ?thesis by (simp add: open_tag_def)
qed

text \<open>A safe text is shown with spans only.\<close>

lemma safe_tags: "safe s \<Longrightarrow> \<exists>ts. html_tags InText s = Some ts \<and> list_all span_tag ts"
proof (induction rule: safe.induct)
  case (start v s)
  then obtain ts where "html_tags InText s = Some ts" "list_all span_tag ts" by blast
  moreover have "span_tag (''span class='' @ quote_char # v @ [quote_char])" using start(1) by (auto simp: span_tag_def)
  ultimately show ?case using tags_open [OF start(1), of s] by simp
next
  case (finish s)
  then show ?case by (auto simp: span_tag_def)
qed auto

lemma safe_append: "safe x \<Longrightarrow> safe y \<Longrightarrow> safe (x @ y)"
  by (induction rule: safe.induct) (auto simp: safe.nil intro: safe.char safe.start [simplified] safe.finish [simplified])

lemma safe_chars: "\<forall>c \<in> set s. c \<noteq> CHR ''<'' \<and> c \<noteq> CHR ''>'' \<Longrightarrow> safe s"
  by (induction s) (auto intro: safe.intros)

lemma safe_tl: "safe (c # s) \<Longrightarrow> c \<noteq> CHR ''<'' \<Longrightarrow> c \<noteq> CHR ''>'' \<and> safe s"
  by (erule safe.cases) (auto simp: open_tag_def)

lemma safe_drop: "safe (p @ s) \<Longrightarrow> CHR ''<'' \<notin> set p \<Longrightarrow> safe s \<and> CHR ''>'' \<notin> set p"
proof (induction p)
  case (Cons c p)
  then have "safe (c # p @ s)" "c \<noteq> CHR ''<''" by auto
  from safe_tl [OF this] Cons show ?case by auto
qed simp

lemma safe_span:
  assumes "quote_char \<notin> set cls" "CHR '':'' \<notin> set cls" "safe s"
  shows "safe (span cls s)"
proof -
  have "span cls s = open_tag cls @ s @ ''</span>'' @ []" by (simp add: span_def open_tag_def)
  then show ?thesis using safe.start [OF assms(1,2) safe_append [OF assms(3) safe.finish [OF safe.nil]]] by simp
qed

lemma take_3: "2 < length s \<Longrightarrow> take 3 s = take 2 s @ [s ! 2]"
  by (simp add: numeral_3_eq_3 numeral_2_eq_2 take_Suc_conv_app_nth)

lemma blank_length_codes:
  assumes "c \<in> set (take (blank_length s) s)"
  shows "code c \<le> 32 \<or> 128 \<le> code c"
proof -
  have seen: "code c \<in> set (map code (take (blank_length s) s))" using assms by simp
  let ?one = "code (hd s) = 32 \<or> 9 \<le> code (hd s) \<and> code (hd s) \<le> 13"
  let ?three = "map code (take 3 s) \<in> {[225, 154, 128], [226, 128, 168], [226, 128, 169], [226, 128, 175], [226, 129, 159],
                                    [227, 128, 128], [239, 187, 191]}"
  let ?more = "map code (take 2 s) = [226, 128] \<and> 2 < length s \<and> 128 \<le> code (s ! 2) \<and> code (s ! 2) \<le> 138"
  consider "s = []" | "s \<noteq> []" "?one" | "s \<noteq> []" "\<not> ?one" "map code (take 2 s) = [194, 160]"
    | "s \<noteq> []" "\<not> ?one" "map code (take 2 s) \<noteq> [194, 160]" "?three"
    | "s \<noteq> []" "\<not> ?one" "map code (take 2 s) \<noteq> [194, 160]" "\<not> ?three" "?more"
    | "s \<noteq> []" "\<not> ?one" "map code (take 2 s) \<noteq> [194, 160]" "\<not> ?three" "\<not> ?more"
    by argo
  then show ?thesis
  proof cases
    case 1
    then show ?thesis using assms by simp
  next
    case 2
    then have "blank_length s = 1" by (simp add: blank_length_def)
    then show ?thesis using 2 assms by (cases s) auto
  next
    case 3
    then have "blank_length s = 2" by (simp add: blank_length_def)
    then show ?thesis using seen 3(3) by auto
  next
    case 4
    then have "blank_length s = 3" by (simp add: blank_length_def)
    then show ?thesis using seen 4(4) by auto
  next
    case 5
    then have "blank_length s = 3" by (simp add: blank_length_def)
    then show ?thesis using seen 5(5) by (auto simp: take_3)
  next
    case 6
    then have "blank_length s = 0" by (simp add: blank_length_def)
    then show ?thesis using assms by simp
  qed
qed

lemma skip_blanks_prefix: "\<exists>p. s = p @ skip_blanks s \<and> (\<forall>c \<in> set p. code c \<le> 32 \<or> 128 \<le> code c)"
proof (induction s rule: skip_blanks.induct)
  case (1 s)
  show ?case
  proof (cases "blank_length s = 0")
    case True
    then show ?thesis by (intro exI [of _ "[]"]) (simp add: skip_blanks.simps)
  next
    case False
    then obtain p where p: "drop (blank_length s) s = p @ skip_blanks s" "\<forall>c \<in> set p. code c \<le> 32 \<or> 128 \<le> code c"
      using 1 skip_blanks.simps [of s] by auto
    have "s = (take (blank_length s) s @ p) @ skip_blanks s" using p(1) by (metis append.assoc append_take_drop_id)
    moreover have "\<forall>c \<in> set (take (blank_length s) s @ p). code c \<le> 32 \<or> 128 \<le> code c"
      using p(2) blank_length_codes by auto
    ultimately show ?thesis by blast
  qed
qed

lemma skip_blanks_safe: "safe s \<Longrightarrow> safe (skip_blanks s)"
proof -
  assume s: "safe s"
  obtain p where p: "s = p @ skip_blanks s" "\<forall>c \<in> set p. code c \<le> 32 \<or> 128 \<le> code c" using skip_blanks_prefix by blast
  have "code (CHR ''<'') = 60" by (simp add: code_def)
  then have "CHR ''<'' \<notin> set p" using p(2) by auto
  moreover have "safe (p @ skip_blanks s)" using s p(1) by simp
  ultimately show ?thesis using safe_drop by blast
qed

lemma past_prefix:
  assumes "x @ s = b @ q # rest" "q \<notin> set x"
  obtains b1 where "b = x @ b1" "s = b1 @ q # rest"
  using assms by (auto simp: append_eq_append_conv2 append_eq_Cons_conv)

lemma cut_at_quote:
  assumes "safe s" "s = b @ quote_char # rest" "quote_char \<notin> set b"
  shows "safe b \<and> safe rest
    \<or> (\<exists>b0 v r. b = b0 @ open_head \<and> safe b0 \<and> rest = v @ quote_char # ''>'' @ r \<and> quote_char \<notin> set v
         \<and> CHR '':'' \<notin> set v \<and> safe r)"
  using assms
proof (induction arbitrary: b rule: safe.induct)
  case (char c s)
  show ?case
  proof (cases b)
    case Nil
    then show ?thesis using char by (simp add: safe.nil)
  next
    case (Cons x b1)
    then have "s = b1 @ quote_char # rest" "quote_char \<notin> set b1" "x = c" using char.prems by auto
    from char.IH [OF this(1,2)] show ?thesis
    proof (elim disjE exE)
      assume "safe b1 \<and> safe rest"
      then show ?thesis using char.hyps(1,2) Cons \<open>x = c\<close> by (simp add: safe.char)
    next
      fix b0 v r
      assume h: "b1 = b0 @ open_head \<and> safe b0 \<and> rest = v @ quote_char # ''>'' @ r \<and> quote_char \<notin> set v
         \<and> CHR '':'' \<notin> set v \<and> safe r"
      then have "b = (c # b0) @ open_head" "safe (c # b0)" using char.hyps(1,2) Cons \<open>x = c\<close> by (auto intro: safe.char)
      with h show ?thesis by blast
    qed
  qed
next
  case (start v s)
  have "until_quote (b @ quote_char # rest) = Some (b, rest)" using start.prems(2) by (simp add: until_quote_Some)
  moreover have "until_quote (open_tag v @ s) = Some (open_head, v @ quote_char # ''>'' @ s)"
    by (simp add: until_quote_Some open_tag_def)
  ultimately have "b = open_head" "rest = v @ quote_char # ''>'' @ s" using start.prems(1) by simp_all
  then show ?case using start.hyps by (auto intro: safe.nil)
next
  case (finish s)
  obtain b1 where b1: "b = ''</span>'' @ b1" "s = b1 @ quote_char # rest"
    using past_prefix [OF finish.prems(1)] by auto
  then have "s = b1 @ quote_char # rest" "quote_char \<notin> set b1" using finish.prems(2) by simp_all
  from finish.IH [OF this] show ?case
  proof (elim disjE exE)
    assume "safe b1 \<and> safe rest"
    then show ?thesis using b1(1) safe.finish [of b1] by simp
  next
    fix b0 v r
    assume h: "b1 = b0 @ open_head \<and> safe b0 \<and> rest = v @ quote_char # ''>'' @ r \<and> quote_char \<notin> set v
         \<and> CHR '':'' \<notin> set v \<and> safe r"
    then have "b = (''</span>'' @ b0) @ open_head" "safe (''</span>'' @ b0)" using b1(1) safe.finish [of b0] by simp_all
    with h show ?thesis by blast
  qed
qed simp


section \<open>The replacements keep a text safe\<close>

text \<open>What a finder behind colons must give for its replacement to be safe.\<close>

definition safe_finder :: "(string \<Rightarrow> (string \<times> string) option) \<Rightarrow> (string \<Rightarrow> string) \<Rightarrow> bool" where
  "safe_finder fnd out \<longleftrightarrow>
     (\<forall>s b rest. safe s \<longrightarrow> fnd s = Some (b, rest) \<longrightarrow>
        (\<exists>lit r. rest = lit @ r \<and> CHR '':'' \<notin> set lit \<and> safe r \<and> safe (out b @ lit)))"

lemma mark_values_literal: "CHR '':'' \<notin> set lit \<Longrightarrow> mark_values fnd out (lit @ s) = lit @ mark_values fnd out s"
  by (induction lit) auto

lemma colon_safe: "safe s \<Longrightarrow> safe ('': '' @ s)"
  by (auto intro: safe.char)

lemma mark_values_safe:
  assumes fnd: "safe_finder fnd out" and "safe s"
  shows "safe (mark_values fnd out s)"
  using assms(2)
proof (induction "length s" arbitrary: s rule: less_induct)
  case less
  from less.prems show ?case
  proof cases
    case (char c s')
    have s': "safe (mark_values fnd out s')" using less.hyps char by simp
    show ?thesis
    proof (cases "\<exists>b rest. c = CHR '':'' \<and> fnd s' = Some (b, rest) \<and> length rest \<le> length s'")
      case True
      then obtain b rest where b: "c = CHR '':''" "fnd s' = Some (b, rest)" "length rest \<le> length s'" by blast
      then obtain lit r where r: "rest = lit @ r" "CHR '':'' \<notin> set lit" "safe r" "safe (out b @ lit)"
        using fnd char(4) unfolding safe_finder_def by blast
      have "safe (mark_values fnd out r)" using less.hyps [of r] r(1,3) b(3) char(1) by simp
      then have "safe ('': '' @ (out b @ lit) @ mark_values fnd out r)" using r(4) safe_append colon_safe by blast
      then show ?thesis using char(1) b r(1,2) by (simp add: mark_values_literal)
    next
      case False
      then have "mark_values fnd out s = c # mark_values fnd out s'"
        using char(1) by (auto split: option.splits)
      then show ?thesis using s' char(2,3) by (simp add: safe.char)
    qed
  next
    case (start v s')
    have "mark_values fnd out s = open_tag v @ mark_values fnd out s'"
      using start(1,3) by (simp add: open_tag_def mark_values_literal)
    moreover have "safe (mark_values fnd out s')" using less.hyps [of s'] start(1,4) by (simp add: open_tag_def)
    ultimately show ?thesis using start(2,3) by (simp add: safe.start)
  next
    case (finish s')
    have "mark_values fnd out s = ''</span>'' @ mark_values fnd out s'"
      unfolding finish(1) by (rule mark_values_literal) simp
    moreover have "safe (mark_values fnd out s')" using less.hyps [of s'] finish by simp
    ultimately show ?thesis using safe.finish by simp
  qed (simp add: safe.nil)
qed

lemma string_after_safe:
  assumes "quote_char \<notin> set cls" "CHR '':'' \<notin> set cls"
  shows "safe_finder string_after (\<lambda>b. span cls (quote_char # b @ [quote_char]))"
  unfolding safe_finder_def
proof (intro allI impI)
  fix s b rest
  assume s: "safe s" and found: "string_after s = Some (b, rest)"
  obtain r where r: "skip_blanks s = quote_char # r" "until_quote r = Some (b, rest)"
    using found by (auto simp: string_after_def split: list.splits if_splits)
  have "safe r" using skip_blanks_safe [OF s] r(1) safe_tl [of quote_char r] by simp
  moreover have "r = b @ quote_char # rest" "quote_char \<notin> set b" using r(2) by (simp_all add: until_quote_Some)
  ultimately consider "safe b" "safe rest"
    | b0 v r' where "b = b0 @ open_head" "safe b0" "rest = v @ quote_char # ''>'' @ r'" "quote_char \<notin> set v"
        "CHR '':'' \<notin> set v" "safe r'"
    using cut_at_quote [of r b rest] by blast
  then show "\<exists>lit r. rest = lit @ r \<and> CHR '':'' \<notin> set lit \<and> safe r \<and> safe (span cls (quote_char # b @ [quote_char]) @ lit)"
  proof cases
    case 1
    have "safe (quote_char # b @ [quote_char])" using 1(1) by (auto intro!: safe.char safe_append safe.nil)
    then have "rest = [] @ rest \<and> CHR '':'' \<notin> set [] \<and> safe rest \<and> safe (span cls (quote_char # b @ [quote_char]) @ [])"
      using 1(2) safe_span [OF assms] by simp
    then show ?thesis by blast
  next
    case (2 b0 v r')
    have "span cls (quote_char # b @ [quote_char]) @ v @ quote_char # ''>''
        = open_tag cls @ (quote_char # b0) @ open_tag (''</span>'' @ v) @ []"
      unfolding 2(1) span_def open_tag_def by simp
    moreover have "safe (open_tag cls @ (quote_char # b0) @ open_tag (''</span>'' @ v) @ [])"
      using assms 2(2,4,5) by (intro safe.start safe_append safe.char safe.nil) auto
    ultimately have "safe (span cls (quote_char # b @ [quote_char]) @ v @ quote_char # ''>'')" by (simp only:)
    moreover have "rest = (v @ quote_char # ''>'') @ r'" using 2(3) by simp
    moreover have "CHR '':'' \<notin> set (v @ quote_char # ''>'')" using 2(5) by simp
    ultimately show ?thesis using 2(6) by blast
  qed
qed

lemma plain_finder_safe:
  assumes "quote_char \<notin> set cls" "CHR '':'' \<notin> set cls"
    and found: "\<And>s b rest. fnd s = Some (b, rest) \<Longrightarrow> skip_blanks s = b @ rest \<and> CHR ''<'' \<notin> set b"
  shows "safe_finder fnd (span cls)"
  unfolding safe_finder_def
proof (intro allI impI)
  fix s b rest
  assume "safe s" "fnd s = Some (b, rest)"
  then have "safe (b @ rest)" "CHR ''<'' \<notin> set b" using found [of s b rest] skip_blanks_safe [of s] by auto
  then have "safe rest" "CHR ''>'' \<notin> set b" using safe_drop by blast+
  then have "rest = [] @ rest \<and> CHR '':'' \<notin> set [] \<and> safe rest \<and> safe (span cls b @ [])"
    using safe_span [OF assms(1,2) safe_chars] \<open>CHR ''<'' \<notin> set b\<close> by auto
  then show "\<exists>lit r. rest = lit @ r \<and> CHR '':'' \<notin> set lit \<and> safe r \<and> safe (span cls b @ lit)" by blast
qed

lemma digits_no_tag: "CHR ''<'' \<notin> set (takeWhile is_digit s)"
  by (auto dest!: set_takeWhileD simp: is_digit_def code_def)

lemma number_after_found: "number_after s = Some (b, rest) \<Longrightarrow> skip_blanks s = b @ rest \<and> CHR ''<'' \<notin> set b"
proof -
  assume h: "number_after s = Some (b, rest)"
  define r1 where "r1 = dropWhile is_digit (skip_blanks s)"
  have r: "skip_blanks s = takeWhile is_digit (skip_blanks s) @ r1" by (simp add: r1_def)
  show ?thesis
  proof (cases "take 1 r1 = ''.''")
    case True
    then have "r1 = ''.'' @ drop 1 r1" by (metis append_take_drop_id)
    then have "r1 = ''.'' @ takeWhile is_digit (drop 1 r1) @ dropWhile is_digit (drop 1 r1)" by simp
    moreover have "b = takeWhile is_digit (skip_blanks s) @ ''.'' @ takeWhile is_digit (drop 1 r1)"
      "rest = dropWhile is_digit (drop 1 r1)"
      using h True by (simp_all add: number_after_def Let_def r1_def split: if_splits)
    ultimately show ?thesis using r digits_no_tag by auto
  next
    case False
    then have "b = takeWhile is_digit (skip_blanks s)" "rest = r1"
      using h by (simp_all add: number_after_def Let_def r1_def split: if_splits)
    then show ?thesis using r digits_no_tag by simp
  qed
qed

lemma take_split: "take n r = w \<Longrightarrow> r = w @ drop n r"
  by (metis append_take_drop_id)

lemma literal_after_found: "literal_after s = Some (b, rest) \<Longrightarrow> skip_blanks s = b @ rest \<and> CHR ''<'' \<notin> set b"
proof -
  let ?r = "skip_blanks s"
  assume h: "literal_after s = Some (b, rest)"
  consider "take 4 ?r = ''true''" | "take 4 ?r \<noteq> ''true''" "take 5 ?r = ''false''"
    | "take 4 ?r \<noteq> ''true''" "take 5 ?r \<noteq> ''false''" "take 4 ?r = ''null''"
    using h by (auto simp: literal_after_def Let_def split: if_splits)
  then show ?thesis
  proof cases
    case 1
    then have "b = ''true''" using h by (simp add: literal_after_def Let_def)
    moreover have "?r = ''true'' @ rest" using h 1 take_split [OF 1] by (simp add: literal_after_def Let_def)
    ultimately show ?thesis by simp
  next
    case 2
    then have "b = ''false''" using h by (simp add: literal_after_def Let_def)
    moreover have "?r = ''false'' @ rest" using h 2 take_split [OF 2(2)] by (simp add: literal_after_def Let_def)
    ultimately show ?thesis by simp
  next
    case 3
    then have "b = ''null''" using h by (simp add: literal_after_def Let_def)
    moreover have "?r = ''null'' @ rest" using h 3 take_split [OF 3(3)] by (simp add: literal_after_def Let_def)
    ultimately show ?thesis by simp
  qed
qed

lemmas finders_safe = string_after_safe
  plain_finder_safe [OF _ _ number_after_found] plain_finder_safe [OF _ _ literal_after_found]

lemma mark_keys_safe:
  assumes "quote_char \<notin> set cls" "CHR '':'' \<notin> set cls" "CHR ''<'' \<notin> set s" "CHR ''>'' \<notin> set s"
  shows "safe (mark_keys cls s)"
  using assms(3,4)
proof (induction "length s" arbitrary: s rule: less_induct)
  case less
  show ?case
  proof (cases s)
    case Nil
    then show ?thesis by (simp add: safe.nil)
  next
    case (Cons c s')
    show ?thesis
    proof (cases "\<exists>b rest. c = quote_char \<and> until_quote s' = Some (b, rest) \<and> b \<noteq> [] \<and> take 1 (skip_blanks rest) = '':''")
      case True
      then obtain b rest where b: "c = quote_char" "until_quote s' = Some (b, rest)" "b \<noteq> []"
        "take 1 (skip_blanks rest) = '':''" by blast
      have s': "s' = b @ quote_char # rest" using b(2) by (simp add: until_quote_Some)
      have "safe (mark_keys cls rest)" using less s' Cons by simp
      moreover have "safe (span cls (quote_char # b @ [quote_char]))"
        using less.prems s' Cons by (intro safe_span assms(1,2) safe_chars) auto
      ultimately show ?thesis using b Cons safe_append by simp
    next
      case False
      then have "mark_keys cls s = c # mark_keys cls s'" using Cons by (auto split: option.splits)
      moreover have "safe (mark_keys cls s')" using less Cons by simp
      ultimately show ?thesis using less.prems Cons by (auto intro: safe.char)
    qed
  qed
qed

lemma escape_html_plain: "CHR ''<'' \<notin> set (escape_html s)" "CHR ''>'' \<notin> set (escape_html s)"
  by (auto simp: escape_html_def replace_char_def split: if_splits)

text \<open>The names of the classes, which the build makes, hold no quotes and no colons.\<close>

definition css_names :: "css_classes \<Rightarrow> bool" where
  "css_names css \<longleftrightarrow>
     (\<forall>cls \<in> {css_key css, css_string css, css_number css, css_bool css}. quote_char \<notin> set cls \<and> CHR '':'' \<notin> set cls)"

text \<open>
  C22: Whatever a logged body holds, the HTML given to the page without escaping holds no tag but the viewer's own spans: each
  tag is the end of a span or the start of one with a single attribute, and no tag is left open. This is so although the
  later replacements match inside the tags that the earlier ones made.
\<close>

theorem viewer_markup_safe:
  assumes "css_names css"
  shows "\<exists>ts. html_tags InText (highlight css formatted) = Some ts \<and> list_all span_tag ts"
proof -
  have "safe (highlight css formatted)"
    unfolding highlight_def using assms escape_html_plain [of formatted]
    by (intro mark_values_safe finders_safe mark_keys_safe) (simp_all add: css_names_def)
  then show ?thesis by (rule safe_tags)
qed

definition sample_css :: css_classes where
  "sample_css = \<lparr>css_key = ''k'', css_string = ''s'', css_number = ''n'', css_bool = ''b''\<rparr>"

definition sample_body :: string where
  "sample_body = pretty 0 (JObj [(''a'', JStr ''<img src=x onerror=1>''), (''b'', JStr ''x: y'')])"

theorem viewer_markup_safe_witness:
  "\<exists>ts. html_tags InText (highlight sample_css sample_body) = Some ts \<and> list_all span_tag ts"
  by (rule viewer_markup_safe) (simp add: css_names_def sample_css_def)

text \<open>
  The replacements do not know which colons are inside strings: a logged host and port is shown with a blank that the body
  does not hold, and its port as a number.
\<close>

lemma viewer_splits_ports:
  "json_viewer sample_css (Some (quote_char # ''localhost:8080'' @ [quote_char]))
   = Html (quote_char # ''localhost: '' @ span ''n'' ''8080'' @ [quote_char])"
  by code_simp

end
