(* ===== verification/Answers.thy ===== *)
theory Answers
  imports Client
begin

text \<open>
  What the calls of the API client give back: the type of every answer, as the pages read it, and the proof that the
  routes of the server keep to it. A field the pages may miss is optional.
\<close>

section \<open>Types of JSON values\<close>

datatype js_type =
    TAny
  | TBool
  | TNum
  | TText
  | TMaybe js_type
  | TList js_type
  | TRecord "(string \<times> js_type) list" "(string \<times> js_type) list"

fun has_type :: "js_type \<Rightarrow> json \<Rightarrow> bool" where
  "has_type TAny v \<longleftrightarrow> True"
| "has_type TBool v \<longleftrightarrow> (case v of JBool _ \<Rightarrow> True | _ \<Rightarrow> False)"
| "has_type TNum v \<longleftrightarrow> (case v of JNum _ \<Rightarrow> True | _ \<Rightarrow> False)"
| "has_type TText v \<longleftrightarrow> (case v of JStr _ \<Rightarrow> True | _ \<Rightarrow> False)"
| "has_type (TMaybe t) v \<longleftrightarrow> v = JNull \<or> has_type t v"
| "has_type (TList t) v \<longleftrightarrow> (case v of JArr vs \<Rightarrow> list_all (has_type t) vs | _ \<Rightarrow> False)"
| "has_type (TRecord req opt) v \<longleftrightarrow>
     (case v of
        JObj kvs \<Rightarrow>
          list_all (\<lambda>(k, t). case obj_get kvs k of None \<Rightarrow> False | Some x \<Rightarrow> has_type t x) req
          \<and> list_all (\<lambda>(k, t). case obj_get kvs k of None \<Rightarrow> True | Some x \<Rightarrow> has_type t x) opt
      | _ \<Rightarrow> False)"

definition rule_type :: js_type where
  "rule_type = TRecord
     [(''id'', TNum), (''name'', TText), (''url_pattern'', TText), (''methods'', TList TText), (''action'', TText),
      (''priority'', TNum), (''agent_id'', TMaybe TText), (''log_request_body'', TText), (''log_response_body'', TText),
      (''default_behavior'', TMaybe TText), (''enabled'', TBool)]
     [(''hit_count'', TNum), (''hit_count_today'', TNum), (''hit_count_date'', TMaybe TText), (''policy_id'', TMaybe TNum)]"

definition log_type :: js_type where
  "log_type = TRecord
     [(''id'', TNum), (''timestamp'', TText), (''method'', TText), (''url'', TText), (''request_headers'', TMaybe TText),
      (''request_body_ref'', TMaybe TText), (''response_status'', TMaybe TNum), (''response_headers'', TMaybe TText),
      (''response_body_ref'', TMaybe TText), (''duration_ms'', TMaybe TNum), (''rule_id'', TMaybe TNum),
      (''decision'', TText), (''agent_id'', TMaybe TText), (''mode'', TMaybe TText)] []"

definition approval_type :: js_type where
  "approval_type = TRecord
     [(''id'', TNum), (''request_log_id'', TNum), (''ipc_msg_id'', TMaybe TText), (''status'', TText),
      (''created_at'', TText), (''suggested_pattern'', TMaybe TText), (''suggested_methods'', TMaybe TText)]
     [(''method'', TMaybe TText), (''url'', TMaybe TText)]"

definition agent_type :: js_type where
  "agent_type = TRecord
     [(''id'', TNum), (''name'', TText), (''description'', TText), (''enabled'', TBool), (''request_count'', TNum),
      (''created_at'', TText), (''ip_address'', TMaybe TText)] []"

definition policy_type :: js_type where
  "policy_type = TRecord [(''id'', TNum), (''name'', TText), (''description'', TText), (''created_at'', TText)] []"

definition policy_detail_type :: js_type where
  "policy_detail_type = TRecord
     [(''id'', TNum), (''name'', TText), (''description'', TText), (''created_at'', TText),
      (''agents'', TList (TRecord [(''id'', TNum), (''name'', TText)] [])), (''children'', TList policy_type)] []"

definition status_type :: js_type where
  "status_type = TRecord
     [(''version'', TText), (''commit'', TText),
      (''proxy'', TRecord [(''running'', TBool), (''pid'', TMaybe TNum), (''uptime_ms'', TNum), (''connected'', TBool)] []),
      (''management'', TRecord [(''uptime_ms'', TNum)] []), (''rules_count'', TNum)]
     [(''rules_source'', TAny), (''db_path'', TAny), (''default_behavior'', TAny)]"

definition ok_type :: js_type where
  "ok_type = TRecord [(''ok'', TBool)] []"

fun answer_type :: "api_call \<Rightarrow> js_type" where
  "answer_type CGetRules = TList rule_type"
| "answer_type (CGetRule _) = rule_type"
| "answer_type (CCreateRule _) = rule_type"
| "answer_type (CUpdateRule _ _) = rule_type"
| "answer_type (CMoveRule _ _) = rule_type"
| "answer_type (CTestRule _ _) = TRecord [(''match'', TMaybe rule_type)] [(''decision'', TAny)]"
| "answer_type (CGetLogs _) = TList log_type"
| "answer_type (CGetLog _) = log_type"
| "answer_type CGetApprovals = TList approval_type"
| "answer_type (CResolveApproval _ _) = approval_type"
| "answer_type CGetStatus = status_type"
| "answer_type CGetAgents = TList agent_type"
| "answer_type (CGetAgent _) = agent_type"
| "answer_type (CCreateAgent _ _) =
     TRecord [(''id'', TNum), (''name'', TText), (''description'', TText), (''enabled'', TBool), (''token'', TText)] []"
| "answer_type (CUpdateAgent _ _) = agent_type"
| "answer_type (CRotateToken _) = TRecord [(''token'', TText)] []"
| "answer_type CGetPolicies = TList policy_type"
| "answer_type (CMatchPolicies _ _) = TList policy_type"
| "answer_type (CGetPolicy _) = policy_detail_type"
| "answer_type (CCreatePolicy _ _) = policy_type"
| "answer_type (CUpdatePolicy _ _) = policy_type"
| "answer_type (CAddPolicyChild _ _) = ok_type"
| "answer_type (CAssignPolicyAgent _ _) = ok_type"
| "answer_type _ = TAny"

text \<open>The calls that give nothing, and those that read a text.\<close>

fun deletes :: "api_call \<Rightarrow> bool" where
  "deletes (CDeleteRule _) = True"
| "deletes (CDeleteAgent _) = True"
| "deletes (CDeletePolicy _) = True"
| "deletes (CRemovePolicyChild _ _) = True"
| "deletes (CUnassignPolicyAgent _ _) = True"
| "deletes _ = False"

fun reads_text :: "api_call \<Rightarrow> bool" where
  "reads_text (CGetRequestBody _) = True"
| "reads_text (CGetResponseBody _) = True"
| "reads_text _ = False"

text \<open>The rows of an answer that is a list of objects.\<close>

definition objects_of :: "json list \<Rightarrow> object list" where
  "objects_of vs = concat (map (\<lambda>v. case v of JObj kvs \<Rightarrow> [kvs] | _ \<Rightarrow> []) vs)"

lemma objects_of_map [simp]: "(\<And>x. f x = JObj (g x)) \<Longrightarrow> objects_of (map f xs) = map g xs"
  by (induction xs) (simp_all add: objects_of_def)

section \<open>The rows\<close>

lemmas row_types = rule_type_def log_type_def approval_type_def agent_type_def policy_type_def policy_detail_type_def
  status_type_def ok_type_def

lemma opt_typed [simp]: "has_type (TMaybe TText) (opt_str v)" "has_type (TMaybe TNum) (opt_num n)"
  by (simp_all add: opt_str_def opt_num_def split: option.splits)

lemma texts_typed [simp]: "list_all (has_type TText) (map JStr ss)"
  by (simp add: list_all_iff)

lemma rule_typed [simp]: "has_type rule_type (rule_json r)" "has_type rule_type (file_rule_json b)"
  by (simp_all add: rule_type_def rule_json_def file_rule_json_def base_rule_entries_def obj_get_def opt_typed [simplified]
      texts_typed [simplified])

lemma log_typed [simp]: "has_type log_type (log_json l)"
  by (simp add: log_type_def log_json_def obj_get_def opt_typed [simplified])

lemma agent_typed [simp]: "has_type agent_type (agent_json a)"
  by (simp add: agent_type_def agent_json_def agent_entries_def obj_get_def opt_typed [simplified])

lemma policy_typed [simp]: "has_type policy_type (policy_json p)"
  by (simp add: policy_type_def policy_json_def policy_entries_def obj_get_def)

lemma approval_typed [simp]:
  "has_type approval_type (JObj (approval_entries q))"
  "has_type approval_type (JObj (approval_entries q @ [(''method'', opt_str m), (''url'', opt_str u)]))"
  by (simp_all add: approval_type_def approval_entries_def obj_get_def opt_typed [simplified])

lemma list_typed: "(\<And>x. x \<in> set xs \<Longrightarrow> has_type t (f x)) \<Longrightarrow> has_type (TList t) (JArr (map f xs))"
  by (simp add: list_all_iff)

lemma rules_list_typed: "rules_list_json sv = Inr vs \<Longrightarrow> list_all (has_type rule_type) vs"
  by (auto simp: rules_list_json_def list_all_iff split: option.splits sum.splits)

lemma rules_get_typed: "rules_get_json sv i = Inr (Some v) \<Longrightarrow> has_type rule_type v"
  by (auto simp: rules_get_json_def split: option.splits sum.splits)

lemma rules_match_typed: "rules_match e sv url meth p = Some (v, act) \<Longrightarrow> has_type rule_type v"
  by (auto simp: rules_match_def split: option.splits)

section \<open>The responses\<close>

text \<open>A response that fits a call: a value of its type, a text, nothing for a deletion, or an error with its JSON.\<close>

definition fits :: "api_call \<Rightarrow> response \<Rightarrow> bool" where
  "fits c r \<longleftrightarrow>
     (if rs_status r \<in> {200, 201}
      then (if reads_text c then \<exists>bs. rs_body r = Bytes bs else \<exists>v. rs_body r = Json v \<and> has_type (answer_type c) v)
      else rs_status r = 204 \<and> deletes c \<or> rs_status r \<in> {400, 403, 404, 409})"

lemma fits_reply [simp]:
  "fits c (reply 200 v) \<longleftrightarrow> \<not> reads_text c \<and> has_type (answer_type c) v"
  "fits c (reply 201 v) \<longleftrightarrow> \<not> reads_text c \<and> has_type (answer_type c) v"
  "fits c (reply 400 v)" "fits c (reply 403 v)" "fits c (reply 404 v)" "fits c (reply 409 v)"
  "fits c no_content \<longleftrightarrow> deletes c" "fits c read_only_reply" "fits c log_missing" "fits c agent_missing"
  by (simp_all add: fits_def reply_def no_content_def read_only_reply_def log_missing_def agent_missing_def)

lemma ok_typed [simp]: "has_type ok_type ok_json"
  by (simp add: ok_type_def ok_json_def obj_get_def)

lemma policies_changed_fits: "policies_changed e v resp sv = Some (sv', Inr r) \<Longrightarrow> fits c resp \<Longrightarrow> fits c r"
  by (auto simp: policies_changed_def split: option.splits sum.splits)

lemma child_conflict_fits: "child_conflict e err = Inr r \<Longrightarrow> fits c r"
  by (auto simp: child_conflict_def split: if_splits)

lemma body_fits: "stream_body e sv i k = Inr r \<Longrightarrow> reads_text c \<Longrightarrow> fits c r"
  by (auto simp: stream_body_def Let_def fits_def log_missing_def reply_def split: option.splits if_splits sum.splits json.splits)

lemma test_rule_fits: "fits (CTestRule u m) (test_rule e sv url meth)"
  using rules_match_typed [of e sv url meth None]
  by (auto simp: test_rule_def obj_get_def split: option.splits)

lemma any_typed [simp]: "(case v of None \<Rightarrow> True | Some x \<Rightarrow> has_type TAny x)"
  by (simp split: option.split)

lemma status_fits:
  assumes "get_status_route e sv = Inr r"
  shows "fits CGetStatus r"
proof -
  obtain rules where "rules_list_json sv = Inr rules" using assms by (simp add: get_status_route_def split: sum.splits)
  then show ?thesis using assms
    by (simp only: get_status_route_def sum.case Let_def sum.inject)
      (hypsubst, simp add: status_type_def obj_get_def opt_typed [simplified] any_typed [simplified])
qed

lemma policy_detail_fits: "fits (CGetPolicy j) (get_policy_by_id sv i)"
  using list_typed [of "get_children (sv_db sv) i" policy_type policy_json]
  by (auto simp: get_policy_by_id_def policy_detail_type_def policy_entries_def obj_get_def list_all_iff split: option.splits)

lemma route_fits:
  assumes "route e (call_request c) sv = Some (sv', Inr r)"
  shows "fits c r"
proof (cases c)
  case CGetRules
  then show ?thesis using assms rules_list_typed by (auto simp: get_rules_def split: sum.splits)
next
  case (CGetRule i)
  then show ?thesis using assms rules_get_typed by (fastforce simp: get_rule_by_id_def split: sum.splits option.splits)
next
  case (CCreateRule inp)
  then show ?thesis using assms by (auto simp: post_rule_def split: if_splits sum.splits option.splits)
next
  case (CUpdateRule i ch)
  then show ?thesis using assms by (auto simp: put_rule_def split: if_splits sum.splits option.splits)
next
  case (CMoveRule i p)
  then show ?thesis using assms by (auto simp: move_rule_def split: if_splits sum.splits option.splits)
next
  case (CDeleteRule i)
  then show ?thesis using assms by (auto simp: delete_rule_route_def split: if_splits sum.splits)
next
  case (CTestRule u m)
  then show ?thesis using assms by (auto simp: test_rule_fits)
next
  case (CGetLogs ps)
  then show ?thesis using assms by (auto simp: get_logs_def list_all_iff)
next
  case (CGetLog i)
  then show ?thesis using assms by (auto simp: get_log_by_id_def split: option.splits)
next
  case (CGetRequestBody i)
  then show ?thesis using assms by (auto intro: body_fits)
next
  case (CGetResponseBody i)
  then show ?thesis using assms by (auto intro: body_fits)
next
  case CGetApprovals
  then show ?thesis using assms by (auto simp: get_approvals_def list_all_iff)
next
  case (CResolveApproval i act)
  then show ?thesis using assms by (auto simp: resolve_approval_def Let_def split: if_splits sum.splits option.splits)
next
  case CGetStatus
  then show ?thesis using assms by (auto intro: status_fits)
next
  case CGetAgents
  then show ?thesis using assms by (auto simp: get_agents_def list_all_iff)
next
  case (CGetAgent i)
  then show ?thesis using assms by (auto simp: get_agent_by_id_def split: option.splits)
next
  case (CCreateAgent n d)
  then show ?thesis using assms by (auto simp: post_agent_def agent_entries_def obj_get_def split: sum.splits)
next
  case (CUpdateAgent i f)
  then show ?thesis using assms by (auto simp: put_agent_def split: sum.splits option.splits)
next
  case (CDeleteAgent i)
  then show ?thesis using assms by (auto simp: delete_agent_route_def)
next
  case (CRotateToken i)
  then show ?thesis using assms by (auto simp: rotate_agent_token_def obj_get_def split: prod.splits option.splits)
next
  case CGetPolicies
  then show ?thesis using assms by (auto simp: get_policies_def list_all_iff)
next
  case (CGetPolicy i)
  then show ?thesis using assms by (auto simp: policy_detail_fits)
next
  case (CCreatePolicy n d)
  then show ?thesis using assms by (auto simp: post_policy_def split: sum.splits option.splits)
next
  case (CUpdatePolicy i ch)
  then show ?thesis using assms by (auto simp: put_policy_def dest!: policies_changed_answer split: sum.splits option.splits)
next
  case (CDeletePolicy i)
  then show ?thesis using assms by (auto simp: delete_policy_route_def intro: policies_changed_fits)
next
  case (CAddPolicyChild i ch)
  then show ?thesis using assms
    by (auto simp: post_child_def intro: policies_changed_fits child_conflict_fits split: option.splits sum.splits prod.splits)
next
  case (CRemovePolicyChild i ch)
  then show ?thesis using assms by (auto simp: delete_child_def intro: policies_changed_fits)
next
  case (CAssignPolicyAgent i ag)
  then show ?thesis using assms by (auto simp: post_policy_agent_def intro: policies_changed_fits split: sum.splits)
next
  case (CUnassignPolicyAgent i ag)
  then show ?thesis using assms by (auto simp: delete_policy_agent_def intro: policies_changed_fits)
next
  case (CMatchPolicies u m)
  then show ?thesis using assms by (auto simp: match_policies_def list_all_iff)
qed

section \<open>The property\<close>

definition right_result :: "api_call \<Rightarrow> client_result \<Rightarrow> bool" where
  "right_result c res \<longleftrightarrow>
     (case res of
        Value v \<Rightarrow> has_type (answer_type c) v
      | NoValue \<Rightarrow> deletes c
      | NotJson \<Rightarrow> reads_text c
      | HttpErr n _ \<Rightarrow> n \<in> {400, 403, 404, 409, 500}
      | AuthErr \<Rightarrow> False)"

lemma fits_answer:
  assumes "fits c r"
  shows "right_result c (client_answer r)"
proof (cases "rs_status r \<in> {200, 201}")
  case True
  then have ok: "rs_status r \<noteq> 401" "response_ok r" "rs_status r \<noteq> 204" by (auto simp: response_ok_def)
  show ?thesis
  proof (cases "reads_text c")
    case raw: True
    with assms True obtain bs where "rs_body r = Bytes bs" by (auto simp: fits_def)
    with raw ok show ?thesis by (simp add: client_answer_def right_result_def)
  next
    case False
    with assms True obtain v where "rs_body r = Json v" "has_type (answer_type c) v" by (auto simp: fits_def)
    with ok show ?thesis by (simp add: client_answer_def right_result_def)
  qed
next
  case False
  with assms consider "rs_status r = 204" "deletes c" | "rs_status r \<in> {400, 403, 404, 409}" by (auto simp: fits_def)
  then show ?thesis
  proof cases
    case 1
    then show ?thesis by (simp add: client_answer_def right_result_def response_ok_def)
  next
    case 2
    then have "rs_status r \<noteq> 401" "\<not> response_ok r" by (auto simp: response_ok_def)
    with 2 show ?thesis by (auto simp: client_answer_def right_result_def)
  qed
qed

lemma handled:
  assumes "handle_request e a req sv = Some (sv', r)"
  shows "(r = unauthorized \<and> \<not> is_public req \<and> \<not> basic_auth (sv_auth sv) a \<and> sv' = sv) \<or> rs_status r = 500
    \<or> route e req sv = Some (sv', Inr r)"
  using assms
  by (auto simp: handle_request_def error_handler_def reply_def split: if_splits option.splits sum.splits)


text \<open>The rule tester of the rules page looks for the name of the rule where the answer has none.\<close>

lemma test_result_names_no_rule:
  assumes "api e a (CTestRule url meth) sv = Some (sv', Value (JObj kvs))"
  shows "obj_get kvs ''rule_name'' = None \<and> obj_get kvs ''action'' = None"
  using assms
  by (auto simp: api_def handle_request_def client_answer_def response_ok_def unauthorized_def test_rule_def reply_def obj_get_def
      split: if_splits option.splits body.splits)


end
