(* ===== verification/Gui_Rules.thy ===== *)
theory Gui_Rules
  imports Answers
begin

text \<open>
  The rules page: \<open>pages/Rules.jsx\<close> with \<open>PolicyTree\<close>, \<open>PolicyDetail\<close>, \<open>PolicyForm\<close>, \<open>RuleForm\<close> and
  \<open>MoveRuleModal\<close>. The record is the state of the hooks; a handler runs against the server to its end, its calls and
  the reload included, before the next one starts. What a handler throws is not handled: it stops there.
\<close>

section \<open>State\<close>

datatype 'a editing = Closed | New | Existing 'a

record rules_page =
  rg_policies :: "object list"
  rg_agents :: "object list"
  rg_rules :: "object list"
  rg_selected :: "int option"
  rg_policy :: "object option"
  rg_editing :: "object editing"
  rg_editing_policy :: "object editing"
  rg_moving :: "object option"
  rg_read_only :: bool
  rg_test :: "json option"

definition rules_page_new :: rules_page where
  "rules_page_new =
     \<lparr>rg_policies = [], rg_agents = [], rg_rules = [], rg_selected = None, rg_policy = None, rg_editing = Closed,
      rg_editing_policy = Closed, rg_moving = None, rg_read_only = False, rg_test = None\<rparr>"

definition num_of :: "object \<Rightarrow> string \<Rightarrow> int option" where
  "num_of kvs k = (case obj_get kvs k of Some (JNum n) \<Rightarrow> Some n | _ \<Rightarrow> None)"

definition text_of :: "object \<Rightarrow> string \<Rightarrow> string" where
  "text_of kvs k = (case obj_get kvs k of Some (JStr s) \<Rightarrow> s | _ \<Rightarrow> [])"

section \<open>The tree of policies\<close>

text \<open>
  The nodes of the tree in the order all three walks take, each with its depth: \<open>TreeNode\<close>, \<open>buildPolicyMap\<close> and
  \<open>flattenPolicies\<close> visit a policy and then its \<open>children\<close>.
\<close>

lemma obj_get_size: "obj_get kvs k = Some v \<Longrightarrow> size v < size (JObj kvs)"
proof -
  assume "obj_get kvs k = Some v"
  then have "(k, v) \<in> set kvs" by (auto simp: obj_get_def dest: map_of_SomeD)
  then show ?thesis by (induction kvs) (auto simp: less_Suc_eq_le)
qed

lemma json_in_arr_size: "v \<in> set vs \<Longrightarrow> size v < size (JArr vs)"
  by (induction vs) auto

function policy_nodes :: "nat \<Rightarrow> json \<Rightarrow> (nat \<times> object) list" where
  "policy_nodes level v =
     (case v of
        JObj p \<Rightarrow>
          (level, p) # (case obj_get p ''children'' of
                          Some (JArr cs) \<Rightarrow> concat (map (policy_nodes (level + 1)) cs)
                        | _ \<Rightarrow> [])
      | _ \<Rightarrow> [])"
  by auto
termination
  by (relation "measure (size \<circ> snd)") (auto dest!: obj_get_size json_in_arr_size)

declare policy_nodes.simps [simp del]

definition tree_nodes :: "object list \<Rightarrow> (nat \<times> object) list" where
  "tree_nodes policies = concat (map (\<lambda>p. policy_nodes 0 (JObj p)) policies)"

text \<open>\<open>buildPolicyMap\<close>: a later node of the same id overwrites; then \<open>policyMap.get(r.policy_id)?.name\<close>.\<close>

definition build_policy_map :: "object list \<Rightarrow> json option \<Rightarrow> object option" where
  "build_policy_map policies = foldl (\<lambda>m (_, p). m(obj_get p ''id'' := Some p)) (\<lambda>_. None) (tree_nodes policies)"

definition policy_name :: "object list \<Rightarrow> object \<Rightarrow> string" where
  "policy_name policies r =
     (case build_policy_map policies (obj_get r ''policy_id'') of
        None \<Rightarrow> map char_of [226, 128, 148 :: nat]
      | Some p \<Rightarrow> if text_of p ''name'' = [] then map char_of [226, 128, 148 :: nat] else text_of p ''name'')"

text \<open>\<open>flattenPolicies\<close>: the options of the dropdown, indented with no-break spaces.\<close>

definition nbsp :: string where
  "nbsp = map char_of [194, 160 :: nat]"

definition flatten_policies :: "object list \<Rightarrow> (json option \<times> string) list" where
  "flatten_policies policies =
     map (\<lambda>(level, p). (obj_get p ''id'', concat (replicate level (nbsp @ nbsp)) @ text_of p ''name'')) (tree_nodes policies)"

section \<open>What is shown\<close>

definition priority_of :: "object \<Rightarrow> int" where
  "priority_of r = (case num_of r ''priority'' of None \<Rightarrow> 0 | Some n \<Rightarrow> n)"

definition display_rules :: "rules_page \<Rightarrow> object list" where
  "display_rules p =
     (case rg_selected p of
        None \<Rightarrow> order_desc priority_of (rg_rules p)
      | Some i \<Rightarrow> order_desc priority_of (filter (\<lambda>r. num_of r ''policy_id'' = Some i) (rg_rules p)))"

text \<open>\<open>testResultClass\<close>, and the texts of the result: the action or decision and the name of the rule.\<close>

datatype result_class = ResultNone | ResultAllow | ResultDeny | ResultHold | ResultOther

definition test_result_class :: "json option \<Rightarrow> result_class" where
  "test_result_class result =
     (case result of
        Some (JObj kvs) \<Rightarrow>
          (let shown = (if truthy (obj_get kvs ''action'') then obj_get kvs ''action'' else obj_get kvs ''decision'') in
           if shown = Some (JStr ''allow'') then ResultAllow
           else if shown = Some (JStr ''deny'') then ResultDeny
           else if shown = Some (JStr ''hold'') then ResultHold
           else ResultOther)
      | _ \<Rightarrow> ResultNone)"

definition shows_rule_name :: "json option \<Rightarrow> bool" where
  "shows_rule_name result = (case result of Some (JObj kvs) \<Rightarrow> truthy (obj_get kvs ''rule_name'') | _ \<Rightarrow> False)"

text \<open>\<open>PolicyDetail\<close>: the agents that can still be assigned.\<close>

definition policy_agents :: "object \<Rightarrow> object list" where
  "policy_agents policy = (case obj_get policy ''agents'' of Some (JArr vs) \<Rightarrow> objects_of vs | _ \<Rightarrow> [])"

definition unassigned_agents :: "object list \<Rightarrow> object \<Rightarrow> object list" where
  "unassigned_agents agents policy =
     filter (\<lambda>a. obj_get a ''id'' \<notin> (\<lambda>x. obj_get x ''id'') ` set (policy_agents policy)) agents"

section \<open>Forms\<close>

text \<open>The form of an existing rule is a copy of its row; an input sets one key of it.\<close>

fun put_form :: "form_change \<Rightarrow> object \<Rightarrow> object" where
  "put_form (SetName s) f = obj_put f ''name'' (JStr s)"
| "put_form (SetPattern s) f = obj_put f ''url_pattern'' (JStr s)"
| "put_form (SetMethods ms) f = obj_put f ''methods'' (JArr (map JStr ms))"
| "put_form (SetAction s) f = obj_put f ''action'' (JStr s)"
| "put_form (SetPriority n) f = obj_put f ''priority'' (JNum n)"
| "put_form (SetRequestLog s) f = obj_put f ''log_request_body'' (JStr s)"
| "put_form (SetResponseLog s) f = obj_put f ''log_response_body'' (JStr s)"
| "put_form (SetEnabled b) f = obj_put f ''enabled'' (JBool b)"

definition rule_form :: "form_change list \<Rightarrow> object \<Rightarrow> object" where
  "rule_form changes row = foldl (\<lambda>f c. put_form c f) row changes"

text \<open>
  The body of an update as the store of rules reads it, key by key; a value of a type the page never sends is \<open>None\<close>.
\<close>

definition text_change :: "(string option \<Rightarrow> rule_change) \<Rightarrow> json \<Rightarrow> rule_change option" where
  "text_change ch v = (case v of JNull \<Rightarrow> Some (ch None) | JStr s \<Rightarrow> Some (ch (Some s)) | _ \<Rightarrow> None)"

definition num_change :: "(int option \<Rightarrow> rule_change) \<Rightarrow> json \<Rightarrow> rule_change option" where
  "num_change ch v = (case v of JNull \<Rightarrow> Some (ch None) | JNum n \<Rightarrow> Some (ch (Some n)) | _ \<Rightarrow> None)"

definition str_of :: "json \<Rightarrow> string option" where
  "str_of v = (case v of JStr s \<Rightarrow> Some s | _ \<Rightarrow> None)"

definition change_of :: "string \<times> json \<Rightarrow> rule_change option" where
  "change_of = (\<lambda>(k, v).
     if k = ''id'' then Some ChId
     else if k = ''name'' then text_change ChName v
     else if k = ''url_pattern'' then text_change ChUrlPattern v
     else if k = ''methods'' then (case v of JArr vs \<Rightarrow> map_option ChMethods (those (map str_of vs)) | _ \<Rightarrow> None)
     else if k = ''action'' then text_change ChAction v
     else if k = ''priority'' then num_change ChPriority v
     else if k = ''agent_id'' then text_change ChAgentId v
     else if k = ''log_request_body'' then text_change ChLogRequestBody v
     else if k = ''log_response_body'' then text_change ChLogResponseBody v
     else if k = ''default_behavior'' then text_change ChDefaultBehavior v
     else if k = ''enabled'' then (case v of JBool b \<Rightarrow> Some (ChEnabled b) | _ \<Rightarrow> None)
     else if k = ''hit_count'' then num_change ChHitCount v
     else if k = ''hit_count_today'' then num_change ChHitCountToday v
     else if k = ''hit_count_date'' then text_change ChHitCountDate v
     else if k = ''policy_id'' then num_change ChPolicyId v
     else Some (ChOther k))"

definition body_changes :: "object \<Rightarrow> rule_change list option" where
  "body_changes f = those (map change_of f)"

section \<open>Calls\<close>

text \<open>The value of a call that only reads; \<open>None\<close> when it throws or is never answered.\<close>

definition fetch_value :: "env \<Rightarrow> string option \<Rightarrow> server \<Rightarrow> api_call \<Rightarrow> json option" where
  "fetch_value e a sv c = (case api e a c sv of Some (_, Value v) \<Rightarrow> Some v | _ \<Rightarrow> None)"

definition fetch_list :: "env \<Rightarrow> string option \<Rightarrow> server \<Rightarrow> api_call \<Rightarrow> object list option" where
  "fetch_list e a sv c = (case fetch_value e a sv c of Some (JArr vs) \<Rightarrow> Some (objects_of vs) | _ \<Rightarrow> None)"

definition fetch_policy :: "env \<Rightarrow> string option \<Rightarrow> server \<Rightarrow> int \<Rightarrow> rules_page \<Rightarrow> rules_page" where
  "fetch_policy e a sv i p =
     (case fetch_value e a sv (CGetPolicy i) of Some (JObj pol) \<Rightarrow> p\<lparr>rg_policy := Some pol\<rparr> | _ \<Rightarrow> p)"

text \<open>\<open>reload\<close>: nothing is set when one of the four calls throws.\<close>

definition reload :: "env \<Rightarrow> string option \<Rightarrow> server \<Rightarrow> rules_page \<Rightarrow> rules_page" where
  "reload e a sv p =
     (case (fetch_list e a sv CGetPolicies, fetch_list e a sv CGetAgents, fetch_list e a sv CGetRules, fetch_value e a sv CGetStatus) of
        (Some ps, Some as, Some rs, Some (JObj st)) \<Rightarrow>
          (let p1 = p\<lparr>rg_policies := ps, rg_agents := as, rg_rules := rs,
                      rg_read_only := (if obj_get st ''rules_source'' = Some (JStr ''file'') then True else rg_read_only p)\<rparr>
           in case rg_selected p1 of None \<Rightarrow> p1 | Some i \<Rightarrow> fetch_policy e a sv i p1)
      | _ \<Rightarrow> p)"

text \<open>A handler: the awaited call, what is set after it, the reload.\<close>

definition calling ::
  "env \<Rightarrow> string option \<Rightarrow> api_call \<Rightarrow> (rules_page \<Rightarrow> rules_page) \<Rightarrow> rules_page \<times> server \<Rightarrow> rules_page \<times> server" where
  "calling e a c after = (\<lambda>(p, sv).
     (case api e a c sv of
        None \<Rightarrow> (p, sv)
      | Some (sv', res) \<Rightarrow>
          (case res of
             Value _ \<Rightarrow> (reload e a sv' (after p), sv')
           | NoValue \<Rightarrow> (reload e a sv' (after p), sv')
           | _ \<Rightarrow> (p, sv'))))"

section \<open>Handlers\<close>

definition select :: "env \<Rightarrow> string option \<Rightarrow> int option \<Rightarrow> rules_page \<times> server \<Rightarrow> rules_page \<times> server" where
  "select e a sel = (\<lambda>(p, sv).
     (let p1 = p\<lparr>rg_selected := sel\<rparr>
      in (case sel of None \<Rightarrow> p1\<lparr>rg_policy := None\<rparr> | Some i \<Rightarrow> fetch_policy e a sv i p1, sv)))"

definition handle_save_rule ::
  "env \<Rightarrow> string option \<Rightarrow> form_change list \<Rightarrow> rules_page \<times> server \<Rightarrow> rules_page \<times> server" where
  "handle_save_rule e a changes = (\<lambda>(p, sv).
     (case rg_editing p of
        Closed \<Rightarrow> (p, sv)
      | New \<Rightarrow>
          calling e a (CCreateRule ((foldl (\<lambda>f c. set_form c f) empty_form changes)\<lparr>ri_policy_id := rg_selected p\<rparr>))
            (\<lambda>p. p\<lparr>rg_editing := Closed\<rparr>) (p, sv)
      | Existing row \<Rightarrow>
          (case (num_of row ''id'', body_changes (rule_form changes row)) of
             (Some i, Some ch) \<Rightarrow> calling e a (CUpdateRule i ch) (\<lambda>p. p\<lparr>rg_editing := Closed\<rparr>) (p, sv)
           | _ \<Rightarrow> (p, sv))))"

definition handle_delete_rule :: "env \<Rightarrow> string option \<Rightarrow> int \<Rightarrow> rules_page \<times> server \<Rightarrow> rules_page \<times> server" where
  "handle_delete_rule e a i = calling e a (CDeleteRule i) (\<lambda>p. p)"

text \<open>The modal of a move: the target is the text of the chosen option, empty for no policy.\<close>

definition handle_move_rule :: "env \<Rightarrow> string option \<Rightarrow> string \<Rightarrow> rules_page \<times> server \<Rightarrow> rules_page \<times> server" where
  "handle_move_rule e a target = (\<lambda>(p, sv).
     (case rg_moving p of
        None \<Rightarrow> (p, sv)
      | Some row \<Rightarrow>
          (case num_of row ''id'' of
             None \<Rightarrow> (p, sv)
           | Some i \<Rightarrow>
               calling e a (CMoveRule i (if target = [] then None else to_number target)) (\<lambda>p. p\<lparr>rg_moving := None\<rparr>) (p, sv))))"

definition handle_save_policy ::
  "env \<Rightarrow> string option \<Rightarrow> string \<Rightarrow> string \<Rightarrow> rules_page \<times> server \<Rightarrow> rules_page \<times> server" where
  "handle_save_policy e a name description = (\<lambda>(p, sv).
     (case rg_editing_policy p of
        Closed \<Rightarrow> (p, sv)
      | New \<Rightarrow> calling e a (CCreatePolicy name description) (\<lambda>p. p\<lparr>rg_editing_policy := Closed\<rparr>) (p, sv)
      | Existing pol \<Rightarrow>
          (case num_of pol ''id'' of
             None \<Rightarrow> (p, sv)
           | Some i \<Rightarrow>
               calling e a (CUpdatePolicy i [PcName (Some name), PcDescription (Some description)])
                 (\<lambda>p. p\<lparr>rg_editing_policy := Closed\<rparr>) (p, sv))))"

definition handle_delete_policy :: "env \<Rightarrow> string option \<Rightarrow> rules_page \<times> server \<Rightarrow> rules_page \<times> server" where
  "handle_delete_policy e a = (\<lambda>(p, sv).
     (case rg_selected p of
        None \<Rightarrow> (p, sv)
      | Some i \<Rightarrow> calling e a (CDeletePolicy i) (\<lambda>p. p\<lparr>rg_selected := None, rg_policy := None\<rparr>) (p, sv)))"

definition handle_assign :: "env \<Rightarrow> string option \<Rightarrow> int \<Rightarrow> rules_page \<times> server \<Rightarrow> rules_page \<times> server" where
  "handle_assign e a agent = (\<lambda>(p, sv).
     (case rg_selected p of
        None \<Rightarrow> (p, sv)
      | Some i \<Rightarrow> calling e a (CAssignPolicyAgent i agent) (\<lambda>p. p) (p, sv)))"

definition handle_unassign :: "env \<Rightarrow> string option \<Rightarrow> int \<Rightarrow> rules_page \<times> server \<Rightarrow> rules_page \<times> server" where
  "handle_unassign e a agent = (\<lambda>(p, sv).
     (case rg_selected p of
        None \<Rightarrow> (p, sv)
      | Some i \<Rightarrow> calling e a (CUnassignPolicyAgent i agent) (\<lambda>p. p) (p, sv)))"

definition handle_test :: "env \<Rightarrow> string option \<Rightarrow> string \<Rightarrow> string \<Rightarrow> rules_page \<times> server \<Rightarrow> rules_page \<times> server" where
  "handle_test e a url meth = (\<lambda>(p, sv).
     (case fetch_value e a sv (CTestRule url meth) of None \<Rightarrow> (p, sv) | Some v \<Rightarrow> (p\<lparr>rg_test := Some v\<rparr>, sv)))"

text \<open>
  What a user can do. Rows and policies are chosen among the shown ones; the buttons that change something are missing
  in read-only mode, but for the one that adds a policy.
\<close>

datatype rules_action =
    ActSelect "int option"
  | ActAddRule
  | ActEditRule int
  | ActSaveRule "form_change list"
  | ActCancelRule
  | ActDeleteRule int
  | ActMoveRule int
  | ActMoveTo string
  | ActCancelMove
  | ActAddPolicy
  | ActEditPolicy
  | ActSavePolicy string string
  | ActCancelPolicy
  | ActDeletePolicy
  | ActAssign int
  | ActUnassign int
  | ActTest string string

definition shown_rule :: "rules_page \<Rightarrow> int \<Rightarrow> object option" where
  "shown_rule p i = (if rg_read_only p then None else find (\<lambda>r. num_of r ''id'' = Some i) (display_rules p))"

fun rules_step :: "env \<Rightarrow> string option \<Rightarrow> rules_action \<Rightarrow> rules_page \<times> server \<Rightarrow> rules_page \<times> server" where
  "rules_step e a (ActSelect sel) (p, sv) =
     (case sel of
        None \<Rightarrow> select e a None (p, sv)
      | Some i \<Rightarrow>
          if \<exists>n \<in> set (tree_nodes (rg_policies p)). num_of (snd n) ''id'' = Some i then select e a (Some i) (p, sv) else (p, sv))"
| "rules_step e a ActAddRule (p, sv) = (if rg_read_only p then p else p\<lparr>rg_editing := New\<rparr>, sv)"
| "rules_step e a (ActEditRule i) (p, sv) =
     (case shown_rule p i of None \<Rightarrow> p | Some r \<Rightarrow> p\<lparr>rg_editing := Existing r\<rparr>, sv)"
| "rules_step e a (ActSaveRule changes) (p, sv) = handle_save_rule e a changes (p, sv)"
| "rules_step e a ActCancelRule (p, sv) = (p\<lparr>rg_editing := Closed\<rparr>, sv)"
| "rules_step e a (ActDeleteRule i) (p, sv) = (if shown_rule p i = None then (p, sv) else handle_delete_rule e a i (p, sv))"
| "rules_step e a (ActMoveRule i) (p, sv) =
     (case shown_rule p i of None \<Rightarrow> p | Some r \<Rightarrow> p\<lparr>rg_moving := Some r\<rparr>, sv)"
| "rules_step e a (ActMoveTo target) (p, sv) = handle_move_rule e a target (p, sv)"
| "rules_step e a ActCancelMove (p, sv) = (p\<lparr>rg_moving := None\<rparr>, sv)"
| "rules_step e a ActAddPolicy (p, sv) = (p\<lparr>rg_editing_policy := New\<rparr>, sv)"
| "rules_step e a ActEditPolicy (p, sv) =
     (case rg_policy p of
        None \<Rightarrow> p
      | Some pol \<Rightarrow> if rg_read_only p then p else p\<lparr>rg_editing_policy := Existing pol\<rparr>, sv)"
| "rules_step e a (ActSavePolicy name description) (p, sv) = handle_save_policy e a name description (p, sv)"
| "rules_step e a ActCancelPolicy (p, sv) = (p\<lparr>rg_editing_policy := Closed\<rparr>, sv)"
| "rules_step e a ActDeletePolicy (p, sv) = (if rg_read_only p then (p, sv) else handle_delete_policy e a (p, sv))"
| "rules_step e a (ActAssign agent) (p, sv) = (if rg_read_only p then (p, sv) else handle_assign e a agent (p, sv))"
| "rules_step e a (ActUnassign agent) (p, sv) = (if rg_read_only p then (p, sv) else handle_unassign e a agent (p, sv))"
| "rules_step e a (ActTest url meth) (p, sv) = handle_test e a url meth (p, sv)"

text \<open>The page is opened, and its user acts.\<close>

definition rules_run :: "env \<Rightarrow> string option \<Rightarrow> rules_action list \<Rightarrow> server \<Rightarrow> rules_page \<times> server" where
  "rules_run e a acts sv = foldl (\<lambda>s act. rules_step e a act s) (reload e a sv rules_page_new, sv) acts"

section \<open>Reading\<close>

definition rule_entries :: "rule \<Rightarrow> object" where
  "rule_entries r = base_rule_entries r @
     [(''hit_count'', JNum (r_hit_count r)), (''hit_count_today'', JNum (r_hit_count_today r)),
      (''hit_count_date'', opt_str (r_hit_count_date r)), (''policy_id'', opt_num (r_policy_id r))]"

lemma rule_json_entries: "rule_json r = JObj (rule_entries r)"
  by (simp add: rule_json_def rule_entries_def)

lemma opt_num_inj: "opt_num x = JNum n \<longleftrightarrow> x = Some n"
  by (cases x) (simp_all add: opt_num_def)

lemma row_numbers [simp]:
  "num_of (rule_entries r) ''id'' = Some (r_id r)" "num_of (rule_entries r) ''policy_id'' = r_policy_id r"
  "num_of (policy_entries p) ''id'' = Some (p_id p)" "priority_of (rule_entries r) = r_priority r"
  by (auto simp: num_of_def priority_of_def rule_entries_def base_rule_entries_def policy_entries_def obj_get_def opt_num_def
      split: option.splits)

lemma json_rows [simp]:
  "objects_of (map policy_json ps) = map policy_entries ps" "objects_of (map agent_json as) = map agent_entries as"
  "objects_of (map rule_json rs) = map rule_entries rs"
  by (simp_all add: policy_json_def agent_json_def rule_json_entries)

text \<open>The policies of the server are listed without their children: the tree has one level.\<close>

lemma tree_is_flat: "tree_nodes (map policy_entries ps) = map (\<lambda>p. (0, policy_entries p)) ps"
proof -
  have "policy_nodes 0 (JObj (policy_entries p)) = [(0, policy_entries p)]" for p
    by (simp add: policy_nodes.simps policy_entries_def obj_get_def)
  then show ?thesis by (simp add: tree_nodes_def comp_def concat_map_singleton)
qed

lemma fetch_lists:
  assumes "basic_auth (sv_auth sv) a"
  shows "fetch_list e a sv CGetPolicies = Some (map policy_entries (list_policies (sv_db sv)))"
    and "fetch_list e a sv CGetAgents = Some (map agent_entries (list_agents (sv_db sv)))"
  using assms
  by (simp_all add: fetch_list_def fetch_value_def api_def handle_request_def get_policies_def get_agents_def client_answer_def
      reply_def response_ok_def)

lemma fetch_rules:
  assumes "server_ok sv" "sv_file sv = None" "basic_auth (sv_auth sv) a"
  shows "fetch_list e a sv CGetRules = Some (map rule_entries (map rule_of (order_desc rr_priority (t_rules (sv_db sv)))))"
  using assms list_rules_ok [OF server_db_ok [OF assms(1)]]
  by (simp add: fetch_list_def fetch_value_def api_def handle_request_def get_rules_def rules_list_json_def client_answer_def reply_def
      response_ok_def del: map_map)

lemma fetch_status:
  assumes "server_ok sv"
  shows "\<exists>st. fetch_value e a sv CGetStatus = Some (JObj st)"
proof -
  obtain rules where "rules_list_json sv = Inr rules" using rules_list_json_result [OF assms] by blast
  then have "\<exists>st. get_status_route e sv = Inr (reply 200 (JObj st))"
    by (simp only: get_status_route_def sum.case Let_def) blast
  then show ?thesis by (auto simp: fetch_value_def api_def handle_request_def client_answer_def reply_def response_ok_def)
qed

definition policy_detail :: "server \<Rightarrow> int \<Rightarrow> object" where
  "policy_detail sv i =
     policy_entries (the (get_policy (sv_db sv) (Some i)))
       @ [(''agents'', JArr (map (\<lambda>(a, name). JObj [(''id'', JNum a), (''name'', JStr name)])
                              (get_policy_agents (sv_db sv) (Some i)))),
          (''children'', JArr (map policy_json (get_children (sv_db sv) (Some i))))]"

lemma fetch_policy_found:
  assumes "basic_auth (sv_auth sv) a" "get_policy (sv_db sv) (Some i) \<noteq> None"
  shows "fetch_policy e a sv i p = p\<lparr>rg_policy := Some (policy_detail sv i)\<rparr>"
  using assms
  by (auto simp: fetch_policy_def fetch_value_def api_def handle_request_def get_policy_by_id_def client_answer_def reply_def
      response_ok_def policy_detail_def)

section \<open>The page and the server\<close>

text \<open>The page holds what the server holds.\<close>

definition in_sync :: "server \<Rightarrow> rules_page \<Rightarrow> bool" where
  "in_sync sv p \<longleftrightarrow>
     rg_rules p = map rule_entries (map rule_of (order_desc rr_priority (t_rules (sv_db sv))))
     \<and> rg_policies p = map policy_entries (list_policies (sv_db sv))
     \<and> rg_agents p = map agent_entries (list_agents (sv_db sv))
     \<and> (case rg_selected p of
          None \<Rightarrow> rg_policy p = None
        | Some i \<Rightarrow> get_policy (sv_db sv) (Some i) \<noteq> None \<and> rg_policy p = Some (policy_detail sv i))"

definition connected :: "string option \<Rightarrow> server \<Rightarrow> bool" where
  "connected a sv \<longleftrightarrow> server_ok sv \<and> sv_file sv = None \<and> basic_auth (sv_auth sv) a"

lemma reload_sync:
  assumes "connected a sv"
    and "case rg_selected p of None \<Rightarrow> rg_policy p = None | Some i \<Rightarrow> get_policy (sv_db sv) (Some i) \<noteq> None"
  shows "in_sync sv (reload e a sv p)" "rg_selected (reload e a sv p) = rg_selected p"
proof -
  have c: "server_ok sv" "sv_file sv = None" "basic_auth (sv_auth sv) a" using assms(1) by (simp_all add: connected_def)
  obtain st where st: "fetch_value e a sv CGetStatus = Some (JObj st)" using fetch_status [OF c(1)] by blast
  show "in_sync sv (reload e a sv p)" "rg_selected (reload e a sv p) = rg_selected p"
    unfolding reload_def fetch_lists [OF c(3)] fetch_rules [OF c] st option.case prod.case json.case Let_def
    using assms(2) fetch_policy_found [OF c(3)]
    by (auto simp: in_sync_def simp del: map_map split: option.splits)
qed

text \<open>What a changing route leaves as it was: the credentials, the store, the policies, and everything when it fails.\<close>

definition fails :: "js_error + response \<Rightarrow> bool" where
  "fails out \<longleftrightarrow> (case out of Inl _ \<Rightarrow> True | Inr r \<Rightarrow> \<not> response_ok r)"

definition steady :: "int set \<Rightarrow> server \<Rightarrow> outcome_of \<Rightarrow> bool" where
  "steady gone sv x \<longleftrightarrow>
     (case x of
        None \<Rightarrow> True
      | Some (sv', out) \<Rightarrow>
          sv_file sv' = sv_file sv \<and> sv_auth sv' = sv_auth sv \<and> (fails out \<longrightarrow> sv_db sv' = sv_db sv)
          \<and> pr_id ` set (t_policies (sv_db sv)) - gone \<subseteq> pr_id ` set (t_policies (sv_db sv')))"

lemma steady_simps [simp]:
  "steady gone sv (Some (sv', out)) \<longleftrightarrow>
     sv_file sv' = sv_file sv \<and> sv_auth sv' = sv_auth sv \<and> (fails out \<longrightarrow> sv_db sv' = sv_db sv)
     \<and> pr_id ` set (t_policies (sv_db sv)) - gone \<subseteq> pr_id ` set (t_policies (sv_db sv'))"
  "steady gone sv None" "fails (Inl err)"
  "fails (Inr (reply 200 v)) = False" "fails (Inr (reply 201 v)) = False" "fails (Inr no_content) = False"
  by (simp_all add: steady_def fails_def reply_def no_content_def response_ok_def)

lemma policy_listed: "get_policy d (Some i) \<noteq> None \<longleftrightarrow> i \<in> pr_id ` set (t_policies d)"
  by (auto simp: get_policy_def row_by_id_def find_None_iff image_iff)

lemma steady_post_rule:
  assumes "server_ok sv" "sv_file sv = None"
  shows "steady {} sv (Some (post_rule e inp sv))"
proof (cases "create_rule (sv_db sv) inp")
  case (Inr x)
  obtain d r where x: "x = (d, r)" by (cases x)
  note c = Inr [unfolded x]
  obtain row rule n where d: "d = (sv_db sv)\<lparr>t_rules := row, seq_rules := n\<rparr>" "r = Some rule"
    using create_rule_Inr [OF server_db_ok [OF assms(1)] c] by metis
  have "server_ok (sv\<lparr>sv_db := d\<rparr>)" using set_db_ok [OF assms(1) create_rule_ok [OF server_db_ok [OF assms(1)] c]] .
  from send_rules_reload_result [OF this, of e] c assms(2) d show ?thesis
    by (auto simp: post_rule_def rules_create_def read_only_reply_def)
qed (use assms in \<open>simp add: post_rule_def rules_create_def\<close>)

lemma steady_put_rule:
  assumes "server_ok sv" "sv_file sv = None"
  shows "steady {} sv (Some (put_rule e i ch sv))"
proof (cases "update_rule (sv_db sv) i ch")
  case (Inr x)
  obtain d r where x: "x = (d, r)" by (cases x)
  note c = Inr [unfolded x]
  have same: "t_policies d = t_policies (sv_db sv)" "r = None \<longrightarrow> d = sv_db sv"
    using update_rule_Inr [OF server_db_ok [OF assms(1)] c] by (metis db.select_convs db.surjective db.update_convs(1) option.distinct(1))+
  have "server_ok (sv\<lparr>sv_db := d\<rparr>)" using set_db_ok [OF assms(1) update_rule_ok [OF server_db_ok [OF assms(1)] c]] .
  from send_rules_reload_result [OF this, of e] c assms(2) same show ?thesis
    by (cases r) (auto simp: put_rule_def rules_update_def read_only_reply_def)
qed (use assms in \<open>simp add: put_rule_def rules_update_def\<close>)

lemma steady_delete_rule:
  assumes "server_ok sv" "sv_file sv = None"
  shows "steady {} sv (Some (delete_rule_route e i sv))"
proof -
  have "server_ok (sv\<lparr>sv_db := delete_rule (sv_db sv) i\<rparr>)"
    using set_db_ok [OF assms(1) delete_rule_ok [OF server_db_ok [OF assms(1)]]] .
  moreover have "t_policies (delete_rule d i) = t_policies d" for d by (simp add: delete_rule_def)
  ultimately show ?thesis using send_rules_reload_result [of _ e] assms(2)
    by (fastforce simp: delete_rule_route_def rules_delete_def read_only_reply_def)
qed

text \<open>For the routes that tell the proxy, failing and changing nothing is known; the rest is on their databases.\<close>

definition keeps_policies :: "int set \<Rightarrow> server \<Rightarrow> outcome_of \<Rightarrow> bool" where
  "keeps_policies gone sv x \<longleftrightarrow>
     (case x of
        None \<Rightarrow> True
      | Some (sv', _) \<Rightarrow>
          sv_file sv' = sv_file sv \<and> sv_auth sv' = sv_auth sv
          \<and> pr_id ` set (t_policies (sv_db sv)) - gone \<subseteq> pr_id ` set (t_policies (sv_db sv')))"

lemma keeps_policies_simps [simp]:
  "keeps_policies gone sv (Some (sv', out)) \<longleftrightarrow>
     sv_file sv' = sv_file sv \<and> sv_auth sv' = sv_auth sv
     \<and> pr_id ` set (t_policies (sv_db sv)) - gone \<subseteq> pr_id ` set (t_policies (sv_db sv'))"
  by (simp add: keeps_policies_def)

lemma steady_told: "told e sv x \<Longrightarrow> keeps_policies gone sv x \<Longrightarrow> steady gone sv x"
  by (auto simp: told_def steady_def keeps_policies_def fails_def response_ok_def split: option.splits sum.splits if_splits)

lemma keeps_policies_changed:
  "server_ok sv \<Longrightarrow> db_ok d \<Longrightarrow> pr_id ` set (t_policies (sv_db sv)) - gone \<subseteq> pr_id ` set (t_policies d) \<Longrightarrow>
     keeps_policies gone sv (policies_changed e v resp (sv\<lparr>sv_db := d\<rparr>))"
  by (simp add: policies_changed_result set_db_ok)

lemma keeps_move_rule:
  assumes "server_ok sv" "sv_file sv = None"
  shows "keeps_policies {} sv (move_rule e i p sv)"
proof (cases "move_to_policy (sv_db sv) i p")
  case (Inr x)
  obtain d r where x: "x = (d, r)" by (cases x)
  note m = Inr [unfolded x]
  note ok = set_db_ok [OF assms(1) move_to_policy_ok(1) [OF server_db_ok [OF assms(1)] m]]
  have "t_policies d = t_policies (sv_db sv)" using m by (auto simp: move_to_policy_def Let_def split: if_splits sum.splits)
  then show ?thesis using m assms(2)
    by (cases r) (auto simp: move_rule_def rules_move_def read_only_reply_def send_agents [OF ok])
qed (use assms in \<open>simp add: move_rule_def rules_move_def\<close>)

lemma keeps_post_policy:
  assumes "server_ok sv"
  shows "keeps_policies {} sv (post_policy e name description sv)"
proof (cases "create_policy (e_clock e) (sv_db sv) name description")
  case (Inr x)
  obtain d p where x: "x = (d, p)" by (cases x)
  note c = Inr [unfolded x]
  note ok = set_db_ok [OF assms create_policy_ok [OF server_db_ok [OF assms] c]]
  have "set (t_policies (sv_db sv)) \<subseteq> set (t_policies d)"
    using c by (auto simp: create_policy_def Let_def split: option.splits if_splits)
  then have "pr_id ` set (t_policies (sv_db sv)) \<subseteq> pr_id ` set (t_policies d)" by blast
  then show ?thesis using send_agents [OF ok] by (cases p) (auto simp: post_policy_def Inr x)
qed (simp add: post_policy_def)

lemma keeps_put_policy:
  assumes "server_ok sv"
  shows "keeps_policies {} sv (put_policy e i ch sv)"
proof (cases "update_policy (sv_db sv) i ch")
  case (Inr x)
  obtain d p where x: "x = (d, p)" by (cases x)
  note c = Inr [unfolded x]
  have "pr_id ` set (t_policies d) = pr_id ` set (t_policies (sv_db sv))"
  proof (cases "row_by_id pr_id (t_policies (sv_db sv)) i")
    case None
    then show ?thesis using c by (simp add: update_policy_def)
  next
    case (Some row)
    let ?cols = "filter (\<lambda>c. c \<noteq> PcId \<and> c \<noteq> PcCreatedAt) ch"
    have run: "(if ?cols \<noteq> [] then run_policy_update (sv_db sv) i ?cols row else Inr (sv_db sv)) = Inr d"
      using c Some by (auto simp: update_policy_def Let_def split: sum.splits)
    then consider "d = sv_db sv" | row' where "pr_id row' = pr_id row"
        "d = (sv_db sv)\<lparr>t_policies := update_where pr_id i (\<lambda>_. row') (t_policies (sv_db sv))\<rparr>"
      by (auto simp: run_policy_update_def dest: apply_policy_changes_id split: if_splits sum.splits)
    then show ?thesis
    proof cases
      case (2 row')
      have "Some (pr_id r) = i \<Longrightarrow> pr_id row' = pr_id r" for r using row_by_id_SomeD [OF Some] 2(1) by simp
      from update_where_key_set [where key = pr_id and i = i and f = "\<lambda>_. row'", OF this] show ?thesis unfolding 2(2) by simp
    qed simp
  qed
  then show ?thesis
    using keeps_policies_changed [OF assms update_policy_ok [OF server_db_ok [OF assms] c]]
    by (cases p) (simp_all add: put_policy_def Inr x)
qed (simp add: put_policy_def)

lemma keeps_delete_policy:
  assumes "server_ok sv"
  shows "keeps_policies {i} sv (delete_policy_route e (Some i) sv)"
  unfolding delete_policy_route_def
  by (rule keeps_policies_changed [OF assms delete_policy_ok [OF server_db_ok [OF assms]]])
    (auto simp: delete_policy_def delete_where_def)

lemma keeps_assign:
  assumes "server_ok sv"
  shows "keeps_policies {} sv (post_policy_agent e i agent sv)"
proof (cases "assign_to_agent (sv_db sv) i agent")
  case (Inr d)
  have "t_policies d = t_policies (sv_db sv)"
    using Inr by (auto simp: assign_to_agent_def split: option.splits if_splits)
  then show ?thesis
    using keeps_policies_changed [OF assms assign_to_agent_ok [OF server_db_ok [OF assms] Inr]]
    by (simp add: post_policy_agent_def Inr)
qed (simp add: post_policy_agent_def)

lemma keeps_unassign:
  assumes "server_ok sv"
  shows "keeps_policies {} sv (delete_policy_agent e i agent sv)"
  unfolding delete_policy_agent_def
  by (rule keeps_policies_changed [OF assms unassign_from_agent_ok [OF server_db_ok [OF assms]]])
    (simp add: unassign_from_agent_def)

text \<open>The routes of the agents and of decisions leave the policies alone.\<close>

lemma agents_reload_fields [simp]:
  "sv_db (send_agents_reload e sv) = sv_db sv" "sv_auth (send_agents_reload e sv) = sv_auth sv"
  "sv_file (send_agents_reload e sv) = sv_file sv"
  by (simp_all add: send_agents_reload_def)

lemma steady_post_agent: "steady {} sv (Some (post_agent e name description sv))"
  by (auto simp: post_agent_def create_agent_def Let_def split: sum.splits option.splits if_splits)

lemma steady_put_agent:
  assumes "server_ok sv"
  shows "steady {} sv (Some (put_agent e i f sv))"
proof (cases "update_agent (sv_db sv) i f")
  case (Inr x)
  obtain d r where x: "x = (d, r)" by (cases x)
  note u = Inr [unfolded x]
  have "t_policies d = t_policies (sv_db sv)"
    using u by (auto simp: update_agent_def Let_def split: option.splits if_splits)
  moreover have "d = sv_db sv" if "r = None"
    using u update_agent_Inr(2) [OF server_db_ok [OF assms] u] that by (simp add: update_agent_def)
  ultimately show ?thesis by (cases r) (auto simp: put_agent_def u)
qed (simp add: put_agent_def)

lemma steady_delete_agent: "steady {} sv (Some (delete_agent_route e i sv))"
  by (auto simp: delete_agent_route_def delete_agent_def Let_def split: option.splits)

lemma steady_rotate: "steady {} sv (Some (rotate_agent_token e i sv))"
  by (auto simp: rotate_agent_token_def rotate_token_def split: option.splits)

lemma steady_resolve:
  assumes "server_ok sv"
  shows "steady {} sv (Some (resolve_approval e i act False sv))"
proof -
  have "t_policies d = t_policies (sv_db sv) \<and> (q = None \<longrightarrow> d = sv_db sv)"
    if "resolve c (sv_db sv) i r = Inr (d, q)" for c r d q
    using that by (auto elim!: resolve_Inr [OF server_db_ok [OF assms]])
  then show ?thesis
    by (auto simp: resolve_approval_def auto_rule_def Let_def split: sum.split option.split)
qed

text \<open>The calls of the pages of rules, agents and approvals.\<close>

fun changing_call :: "api_call \<Rightarrow> bool" where
  "changing_call (CCreateRule _) = True"
| "changing_call (CUpdateRule _ _) = True"
| "changing_call (CDeleteRule _) = True"
| "changing_call (CMoveRule _ _) = True"
| "changing_call (CCreatePolicy _ _) = True"
| "changing_call (CUpdatePolicy _ _) = True"
| "changing_call (CDeletePolicy _) = True"
| "changing_call (CAssignPolicyAgent _ _) = True"
| "changing_call (CUnassignPolicyAgent _ _) = True"
| "changing_call (CCreateAgent _ _) = True"
| "changing_call (CUpdateAgent _ _) = True"
| "changing_call (CDeleteAgent _) = True"
| "changing_call (CRotateToken _) = True"
| "changing_call (CResolveApproval _ _) = True"
| "changing_call _ = False"

fun deleted_policy :: "api_call \<Rightarrow> int set" where
  "deleted_policy (CDeletePolicy i) = {i}"
| "deleted_policy _ = {}"

lemma changing_call_steady:
  assumes "changing_call c" "server_ok sv" "sv_file sv = None"
  shows "steady (deleted_policy c) sv (route e (call_request c) sv)"
  using assms
  by (cases c)
    (auto intro: steady_post_rule steady_put_rule steady_delete_rule
      steady_post_agent steady_put_agent steady_delete_agent steady_rotate steady_resolve
      steady_told told_move_rule told_post_policy told_put_policy told_post_policy_agent told_routes
      keeps_move_rule keeps_post_policy keeps_put_policy keeps_delete_policy keeps_assign keeps_unassign
      simp del: steady_simps)

lemma changing_call_result:
  assumes "changing_call c" "connected a sv" "api e a c sv = Some (sv', res)"
  shows "connected a sv'" "\<not> (res = NoValue \<or> (\<exists>v. res = Value v)) \<Longrightarrow> sv_db sv' = sv_db sv"
    "get_policy (sv_db sv) (Some i) \<noteq> None \<Longrightarrow> i \<notin> deleted_policy c \<Longrightarrow> get_policy (sv_db sv') (Some i) \<noteq> None"
proof -
  have c: "server_ok sv" "sv_file sv = None" "basic_auth (sv_auth sv) a" using assms(2) by (simp_all add: connected_def)
  obtain r where r: "handle_request e a (call_request c) sv = Some (sv', r)" "res = client_answer r"
    using assms(3) by (auto simp: api_def)
  obtain out where out: "route e (call_request c) sv = Some (sv', out)"
    "r = (case out of Inl err \<Rightarrow> error_handler e err | Inr resp \<Rightarrow> resp)"
    using r(1) c(3) by (auto simp: handle_request_def split: if_splits option.splits sum.splits)
  note s = changing_call_steady [OF assms(1) c(1,2), of e, unfolded out(1) steady_simps]
  have "server_ok sv'" using handle_request_answers [OF c(1), of e a "call_request c"] r(1) by auto
  then show "connected a sv'" using s c by (simp add: connected_def)
  show "get_policy (sv_db sv) (Some i) \<noteq> None \<Longrightarrow> i \<notin> deleted_policy c \<Longrightarrow> get_policy (sv_db sv') (Some i) \<noteq> None"
    unfolding policy_listed using s by blast
  assume bad: "\<not> (res = NoValue \<or> (\<exists>v. res = Value v))"
  have "fails out"
  proof (rule ccontr)
    assume "\<not> fails out"
    then obtain resp where o: "out = Inr resp" "response_ok resp" by (auto simp: fails_def split: sum.splits)
    then have "r = resp" using out(2) by simp
    have "right_result c res" unfolding r(2) \<open>r = resp\<close> using fits_answer [OF route_fits] out(1) o(1) by blast
    moreover have "\<not> reads_text c" using assms(1) by (cases c) auto
    moreover have "res \<noteq> AuthErr" "\<And>n w. res \<noteq> HttpErr n w"
      using o(2) unfolding r(2) \<open>r = resp\<close> by (auto simp: client_answer_def response_ok_def split: body.splits)
    ultimately show False using bad by (cases res) (auto simp: right_result_def)
  qed
  with s show "sv_db sv' = sv_db sv" by blast
qed

lemma in_sync_db: "sv_db sv' = sv_db sv \<Longrightarrow> in_sync sv' p = in_sync sv p"
  by (simp add: in_sync_def policy_detail_def split: option.split)

definition sync :: "string option \<Rightarrow> rules_page \<times> server \<Rightarrow> bool" where
  "sync a s \<longleftrightarrow> connected a (snd s) \<and> in_sync (snd s) (fst s)"

lemma sync_pair [simp]: "sync a (p, sv) \<longleftrightarrow> connected a sv \<and> in_sync sv p"
  by (simp add: sync_def)

lemma calling_sync:
  assumes "changing_call c" "sync a (p, sv)"
    and "rg_selected (after p) = None \<and> rg_policy (after p) = None
      \<or> rg_selected (after p) = rg_selected p \<and> rg_policy (after p) = rg_policy p
        \<and> (\<forall>i. rg_selected p = Some i \<longrightarrow> i \<notin> deleted_policy c)"
  shows "sync a (calling e a c after (p, sv))"
proof (cases "api e a c sv")
  case None
  then show ?thesis using assms(2) by (simp add: calling_def)
next
  case (Some x)
  obtain sv' res where x: "x = (sv', res)" by (cases x)
  have con: "connected a sv" and insync: "in_sync sv p" using assms(2) by simp_all
  note r = changing_call_result [OF assms(1) con Some [unfolded x]]
  show ?thesis
  proof (cases "res = NoValue \<or> (\<exists>v. res = Value v)")
    case True
    have "case rg_selected (after p) of None \<Rightarrow> rg_policy (after p) = None
        | Some i \<Rightarrow> get_policy (sv_db sv') (Some i) \<noteq> None"
      using assms(3) insync r(3) by (auto simp: in_sync_def split: option.splits)
    from reload_sync(1) [OF r(1) this] r(1) True show ?thesis by (auto simp: calling_def Some x)
  next
    case False
    then have "calling e a c after (p, sv) = (p, sv')" by (cases res) (auto simp: calling_def Some x)
    then show ?thesis using r(1) in_sync_db [OF r(2) [OF False]] insync by simp
  qed
qed

lemma in_sync_fields [simp]:
  "in_sync sv (p\<lparr>rg_editing := x\<rparr>) = in_sync sv p" "in_sync sv (p\<lparr>rg_editing_policy := y\<rparr>) = in_sync sv p"
  "in_sync sv (p\<lparr>rg_moving := z\<rparr>) = in_sync sv p" "in_sync sv (p\<lparr>rg_test := w\<rparr>) = in_sync sv p"
  by (simp_all add: in_sync_def split: option.split)

lemma select_sync:
  assumes "sync a (p, sv)" "case sel of None \<Rightarrow> True | Some i \<Rightarrow> get_policy (sv_db sv) (Some i) \<noteq> None"
  shows "sync a (select e a sel (p, sv))"
  using assms by (cases sel) (auto simp: select_def in_sync_def connected_def fetch_policy_found)

lemma rules_step_sync:
  assumes "sync a s"
  shows "sync a (rules_step e a act s)"
proof -
  obtain p sv where s: "s = (p, sv)" by (cases s)
  note h = assms [unfolded s]
  note c = calling_sync [OF _ h]
  show ?thesis unfolding s
  proof (cases act)
    case (ActSelect sel)
    have "\<exists>n \<in> set (tree_nodes (rg_policies p)). num_of (snd n) ''id'' = Some i \<Longrightarrow> get_policy (sv_db sv) (Some i) \<noteq> None" for i
    proof -
      assume listed: "\<exists>n \<in> set (tree_nodes (rg_policies p)). num_of (snd n) ''id'' = Some i"
      have "rg_policies p = map policy_entries (list_policies (sv_db sv))" using h by (simp add: in_sync_def)
      with listed obtain pol where "pol \<in> set (list_policies (sv_db sv))" "p_id pol = i" by (auto simp: tree_is_flat)
      then show ?thesis unfolding policy_listed by (auto simp: list_policies_def)
    qed
    then show "sync a (rules_step e a act (p, sv))" using ActSelect h select_sync [OF h]
      by (simp split: option.split)
  next
    case (ActSaveRule ch)
    then show "sync a (rules_step e a act (p, sv))" using h
      by (auto simp: handle_save_rule_def simp del: sync_pair intro!: c split: editing.splits option.splits)
  next
    case (ActDeleteRule i)
    then show "sync a (rules_step e a act (p, sv))" using h by (auto simp: handle_delete_rule_def simp del: sync_pair intro!: c)
  next
    case (ActMoveTo t)
    then show "sync a (rules_step e a act (p, sv))" using h
      by (auto simp: handle_move_rule_def simp del: sync_pair intro!: c split: option.splits)
  next
    case (ActSavePolicy n d)
    then show "sync a (rules_step e a act (p, sv))" using h
      by (auto simp: handle_save_policy_def simp del: sync_pair intro!: c split: editing.splits option.splits)
  next
    case ActDeletePolicy
    then show "sync a (rules_step e a act (p, sv))" using h
      by (auto simp: handle_delete_policy_def simp del: sync_pair intro!: c split: option.splits)
  next
    case (ActAssign i)
    then show "sync a (rules_step e a act (p, sv))" using h
      by (auto simp: handle_assign_def simp del: sync_pair intro!: c split: option.splits)
  next
    case (ActUnassign i)
    then show "sync a (rules_step e a act (p, sv))" using h
      by (auto simp: handle_unassign_def simp del: sync_pair intro!: c split: option.splits)
  next
    case (ActTest u m)
    then show "sync a (rules_step e a act (p, sv))" using h by (simp add: handle_test_def split: option.split)
  qed (use h in \<open>simp_all split: option.split\<close>)
qed

interpretation rules_machine: free_machine "\<lambda>s act. rules_step e a act s" "sync a"
  by unfold_locales (rule rules_step_sync)

lemma rules_run_sync:
  assumes "connected a sv"
  shows "sync a (rules_run e a acts sv)"
proof -
  have "sync a (reload e a sv rules_page_new, sv)"
    using assms reload_sync(1) [OF assms, of rules_page_new e] by (simp add: rules_page_new_def)
  then show ?thesis unfolding rules_run_def by (rule rules_machine.good_always)
qed

text \<open>What the page shows of the rows of the store: those of the selected policy, in the order of the store.\<close>

lemma shown_rows_of_store:
  assumes "db_ok d" "sel \<noteq> Some 0"
    and "rows = map rule_entries (map rule_of (order_desc rr_priority (t_rules d)))"
  shows "\<exists>rs. list_rules d sel = Inr rs
    \<and> order_desc priority_of (case sel of None \<Rightarrow> rows | Some i \<Rightarrow> filter (\<lambda>r. num_of r ''policy_id'' = Some i) rows)
      = map rule_entries rs"
proof -
  have fields: "r_priority (rule_of row) = rr_priority row \<and> r_policy_id (rule_of row) = rr_policy_id row" if mem: "row \<in> set (t_rules d)" for row
  proof -
    obtain ms where "json_strings (rr_methods row) = Some ms" using rules_okD(1) [OF assms(1) mem] by auto
    then show ?thesis by (simp add: rule_of_eq)
  qed
  have sorted: "order_desc priority_of (map rule_entries (map rule_of (order_desc rr_priority xs)))
      = map rule_entries (map rule_of (order_desc rr_priority xs))" if "set xs \<subseteq> set (t_rules d)" for xs
  proof -
    let ?ys = "order_desc rr_priority xs"
    have "map (\<lambda>row. - r_priority (rule_of row)) ?ys = map (\<lambda>row. - rr_priority row) ?ys"
      by (rule map_cong [OF refl]) (use fields that in \<open>auto simp: order_desc_def\<close>)
    then have "sorted (map (\<lambda>row. - r_priority (rule_of row)) ?ys)" by (simp only:) (simp add: order_desc_def)
    then have "order_desc (\<lambda>row. r_priority (rule_of row)) ?ys = ?ys"
      unfolding order_desc_def by (rule sort_key_id_if_sorted)
    then show ?thesis by (simp add: order_desc_map comp_def)
  qed
  show ?thesis
  proof (cases sel)
    case None
    then show ?thesis using list_rules_ok [OF assms(1)] sorted [of "t_rules d"] by (simp add: assms(3))
  next
    case (Some i)
    let ?mine = "filter (\<lambda>row. rr_policy_id row = Some i) (t_rules d)"
    have "list_rules d (Some i) = Inr (map rule_of (order_desc rr_priority ?mine))"
      using assms(2) Some by (simp add: list_rules_def) (rule map_result_Inr, use rules_okD [OF assms(1)] in auto)
    moreover have "filter (\<lambda>r. num_of r ''policy_id'' = Some i) rows
        = map rule_entries (map rule_of (order_desc rr_priority ?mine))"
    proof -
      have "filter (\<lambda>row. r_policy_id (rule_of row) = Some i) (order_desc rr_priority (t_rules d))
          = filter (\<lambda>row. rr_policy_id row = Some i) (order_desc rr_priority (t_rules d))"
        by (rule filter_cong) (use fields in \<open>auto simp: order_desc_def\<close>)
      then show ?thesis by (simp add: assms(3) filter_map comp_def order_desc_def filter_sort)
    qed
    ultimately show ?thesis using sorted [of ?mine] Some by auto
  qed
qed

lemma policy_id_positive: "db_ok d \<Longrightarrow> get_policy d (Some i) \<noteq> None \<Longrightarrow> 0 < i"
  unfolding policy_listed using policies_table_ok [of d] by (auto simp: table_ok_def)

section \<open>Properties\<close>


section \<open>Saving an edited rule\<close>

fun edit_rule :: "rule \<Rightarrow> form_change \<Rightarrow> rule" where
  "edit_rule r (SetName s) = r\<lparr>r_name := s\<rparr>"
| "edit_rule r (SetPattern s) = r\<lparr>r_url_pattern := s\<rparr>"
| "edit_rule r (SetMethods ms) = r\<lparr>r_methods := ms\<rparr>"
| "edit_rule r (SetAction s) = r\<lparr>r_action := s\<rparr>"
| "edit_rule r (SetPriority n) = r\<lparr>r_priority := n\<rparr>"
| "edit_rule r (SetRequestLog s) = r\<lparr>r_log_request_body := s\<rparr>"
| "edit_rule r (SetResponseLog s) = r\<lparr>r_log_response_body := s\<rparr>"
| "edit_rule r (SetEnabled b) = r\<lparr>r_enabled := b\<rparr>"

definition edited_rule :: "form_change list \<Rightarrow> rule \<Rightarrow> rule" where
  "edited_rule changes r = foldl edit_rule r changes"

lemma edited_rule_keeps:
  "r_id (edited_rule changes r) = r_id r" "r_hit_count (edited_rule changes r) = r_hit_count r"
  "r_hit_count_today (edited_rule changes r) = r_hit_count_today r"
  "r_policy_id (edited_rule changes r) = r_policy_id r"
proof -
  have "r_id (edit_rule r c) = r_id r \<and> r_hit_count (edit_rule r c) = r_hit_count r
    \<and> r_hit_count_today (edit_rule r c) = r_hit_count_today r \<and> r_policy_id (edit_rule r c) = r_policy_id r" for r c
    by (cases c) simp_all
  then show "r_id (edited_rule changes r) = r_id r" "r_hit_count (edited_rule changes r) = r_hit_count r"
    "r_hit_count_today (edited_rule changes r) = r_hit_count_today r" "r_policy_id (edited_rule changes r) = r_policy_id r"
    unfolding edited_rule_def by (induction changes arbitrary: r) simp_all
qed

lemma rule_form_entries: "rule_form changes (rule_entries r) = rule_entries (edited_rule changes r)"
proof -
  have "put_form c (rule_entries r) = rule_entries (edit_rule r c)" for c r
    by (cases c) (simp_all add: rule_entries_def base_rule_entries_def)
  then show ?thesis unfolding rule_form_def edited_rule_def by (induction changes arbitrary: r) simp_all
qed

definition all_columns :: "rule \<Rightarrow> rule_change list" where
  "all_columns r =
     [ChId, ChName (Some (r_name r)), ChUrlPattern (Some (r_url_pattern r)), ChMethods (r_methods r), ChAction (Some (r_action r)),
      ChPriority (Some (r_priority r)), ChAgentId (r_agent_id r), ChLogRequestBody (Some (r_log_request_body r)),
      ChLogResponseBody (Some (r_log_response_body r)), ChDefaultBehavior (r_default_behavior r), ChEnabled (r_enabled r),
      ChHitCount (Some (r_hit_count r)), ChHitCountToday (Some (r_hit_count_today r)), ChHitCountDate (r_hit_count_date r),
      ChPolicyId (r_policy_id r)]"

lemma change_opt: "text_change ch (opt_str v) = Some (ch v)" "num_change nh (opt_num n) = Some (nh n)"
  by (simp_all add: text_change_def num_change_def opt_str_def opt_num_def split: option.split)

lemma those_strs: "those (map str_of (map JStr ss)) = Some ss"
  by (induction ss) (simp_all add: str_of_def)

lemma body_of_rule: "body_changes (rule_entries r) = Some (all_columns r)"
  using those_strs [of "r_methods r"]
  by (simp add: body_changes_def rule_entries_def base_rule_entries_def change_of_def change_opt all_columns_def)
    (simp add: text_change_def num_change_def)

lemma columns_written:
  assumes "apply_changes (filter (\<lambda>c. c \<noteq> ChId) (all_columns r)) row = Inr row'" "rr_id row = r_id r"
  shows "rule_of row' = r"
proof -
  have "json_strings (strings_json (r_methods r)) = Some (r_methods r)" by (rule json_strings_strings_json)
  then show ?thesis using assms by (auto simp: all_columns_def rule_of_eq set_col_def)
qed

lemma reload_keeps_editing: "rg_editing (reload e a sv p) = rg_editing p"
  by (auto simp: reload_def fetch_policy_def Let_def split: option.splits json.splits)

lemma calling_saved:
  assumes "calling e a c (\<lambda>p. p\<lparr>rg_editing := Closed\<rparr>) (p, sv) = (p', sv')" "rg_editing p \<noteq> Closed" "rg_editing p' = Closed"
  obtains res where "api e a c sv = Some (sv', res)" "res = NoValue \<or> (\<exists>v. res = Value v)"
  using assms by (auto simp: calling_def reload_keeps_editing split: option.splits client_result.splits)

lemma call_succeeded:
  assumes "basic_auth (sv_auth sv) a" "api e a c sv = Some (sv', res)" "res = NoValue \<or> (\<exists>v. res = Value v)"
  obtains r where "route e (call_request c) sv = Some (sv', Inr r)" "response_ok r" "res = client_answer r"
proof -
  obtain r where r: "handle_request e a (call_request c) sv = Some (sv', r)" "res = client_answer r"
    using assms(2) by (auto simp: api_def)
  have ok: "response_ok r" using assms(3) r(2) by (auto simp: client_answer_def split: if_splits)
  from handled [OF r(1)] have "route e (call_request c) sv = Some (sv', Inr r)"
    using assms(1) ok by (auto simp: response_ok_def)
  then show thesis using that ok r(2) by blast
qed

lemma update_answered:
  assumes "connected a sv" "api e a (CUpdateRule i ch) sv = Some (sv', res)" "res = NoValue \<or> (\<exists>v. res = Value v)"
  obtains d r where "update_rule (sv_db sv) (Some i) ch = Inr (d, Some r)" "sv_db sv' = d"
proof -
  have c: "sv_file sv = None" "basic_auth (sv_auth sv) a" using assms(1) by (simp_all add: connected_def)
  obtain resp where r: "put_rule e (Some i) ch sv = (sv', Inr resp)" "response_ok resp"
    using call_succeeded [OF c(2) assms(2,3)] by auto
  then obtain sv1 rule where u: "rules_update sv (Some i) ch = Inr (sv1, Some rule)" "sv_db sv' = sv_db sv1"
    by (auto simp: put_rule_def send_rules_reload_def read_only_reply_def reply_def response_ok_def
        split: if_splits sum.splits option.splits)
  then show thesis using c(1) that by (auto simp: rules_update_def split: sum.splits)
qed

text \<open>
  C28: Saving an edited rule writes the whole row the form was opened with: whatever the store holds by then, after a save that
  succeeds the rule is the old copy with the edited fields, its hit counters and its policy included. Hits counted and moves
  made while the form was open are undone.
\<close>

theorem edit_overwrites_row:
  assumes "server_ok sv" "sv_file sv = None" "basic_auth (sv_auth sv) a"
    and "rg_editing p = Existing (rule_entries r)" "handle_save_rule e a changes (p, sv) = (p', sv')" "rg_editing p' = Closed"
  shows "\<exists>r'. get_rule (sv_db sv') (Some (r_id r)) = Inr (Some r') \<and> r' = edited_rule changes r
    \<and> r_hit_count r' = r_hit_count r \<and> r_hit_count_today r' = r_hit_count_today r \<and> r_policy_id r' = r_policy_id r"
proof -
  let ?new = "edited_rule changes r"
  have con: "connected a sv" using assms(1-3) by (simp add: connected_def)
  have "calling e a (CUpdateRule (r_id r) (all_columns ?new)) (\<lambda>p. p\<lparr>rg_editing := Closed\<rparr>) (p, sv) = (p', sv')"
    using assms(4,5) by (simp add: handle_save_rule_def rule_form_entries body_of_rule)
  then obtain res where a: "api e a (CUpdateRule (r_id r) (all_columns ?new)) sv = Some (sv', res)"
    "res = NoValue \<or> (\<exists>v. res = Value v)"
    using calling_saved assms(4,6) by (metis editing.distinct(3))
  obtain d r1 where u: "update_rule (sv_db sv) (Some (r_id r)) (all_columns ?new) = Inr (d, Some r1)" "sv_db sv' = d"
    using update_answered [OF con a] by blast
  obtain row row' where
    row: "row_by_id rr_id (t_rules (sv_db sv)) (Some (r_id r)) = Some row" "Some (r_id r) = Some (rr_id row)"
      "apply_changes (filter (\<lambda>c. c \<noteq> ChId) (all_columns ?new)) row = Inr row'" "rr_id row' = rr_id row"
      "d = (sv_db sv)\<lparr>t_rules := update_where rr_id (Some (r_id r)) (\<lambda>_. row') (t_rules (sv_db sv))\<rparr>" "db_ok d"
    using update_rule_Inr [OF server_db_ok [OF assms(1)] u(1)] by (metis option.distinct(1))
  have "rule_of row' = ?new" using columns_written [OF row(3)] row(2) edited_rule_keeps(1) by simp
  moreover have "row_by_id rr_id (t_rules d) (Some (r_id r)) = Some row'"
  proof -
    have "\<And>x. Some (rr_id x) = Some (r_id r) \<Longrightarrow> rr_id row' = rr_id x" using row(2,4) by simp
    from row_by_id_update_where [where key = rr_id and i = "Some (r_id r)" and f = "\<lambda>_. row'", OF this] row(1)
    show ?thesis by (simp add: row(5))
  qed
  ultimately show ?thesis using edited_rule_keeps u(2) by (simp add: get_rule_ok [OF row(6)])
qed

section \<open>The properties at concrete inputs\<close>

lemma tree_connected: "connected (Some ''Basic dTpw'') (sample_server tree_db)"
  using sample_server_ok [OF tree_db_ok] sample_auth by (simp add: connected_def sample_server_def)


lemma save_closes:
  assumes "connected a sv" "\<not> source_is_file sv" "rg_editing p = Existing (rule_entries r)"
    and "update_rule (sv_db sv) (Some (r_id r)) (all_columns (edited_rule changes r)) = Inr (d, Some r1)"
  shows "\<exists>p' sv'. handle_save_rule e a changes (p, sv) = (p', sv') \<and> rg_editing p' = Closed"
proof -
  have c: "server_ok sv" "sv_file sv = None" "basic_auth (sv_auth sv) a" using assms(1) by (simp_all add: connected_def)
  have ok: "server_ok (sv\<lparr>sv_db := d\<rparr>)" using set_db_ok [OF c(1) update_rule_ok [OF server_db_ok [OF c(1)] assms(4)]] .
  obtain rules where "send_rules_reload e (sv\<lparr>sv_db := d\<rparr>)
    = Inr (send_msg e [(''type'', JStr ''rules.reload''), (''data'', JArr rules)] (sv\<lparr>sv_db := d\<rparr>))"
    using send_rules_reload_result [OF ok] by blast
  then have "\<exists>sv' v. api e a (CUpdateRule (r_id r) (all_columns (edited_rule changes r))) sv = Some (sv', Value v)"
    using assms(2,4) c(2,3)
    by (simp add: api_def handle_request_def put_rule_def rules_update_def client_answer_def reply_def response_ok_def)
  then show ?thesis using assms(3)
    by (auto simp: handle_save_rule_def rule_form_entries body_of_rule edited_rule_keeps calling_def reload_keeps_editing)
qed

definition old_rule :: rule where
  "old_rule = created_rule 1 sample_input ''r'' ''x'' ''allow''"

definition edit_page :: rules_page where
  "edit_page = rules_page_new\<lparr>rg_editing := Existing (rule_entries old_rule)\<rparr>"

lemma old_rule_saved: "\<exists>d r. update_rule tree_db (Some 1) (all_columns old_rule) = Inr (d, Some r)"
proof -
  show ?thesis
    by (simp add: old_rule_def created_rule_def all_columns_def sample_input_def update_rule_def tree_db_def
        sample_rule_def row_by_id_def run_rule_update_def unknown_columns_def set_col_def rule_check_def fk_def
        update_where_def get_rule_def deserialize_def)
qed

theorem edit_overwrites_row_witness:
  "\<exists>sv :: server. get_rule (sv_db sv) (Some 1) = Inr (Some (edited_rule [] old_rule))
     \<and> r_policy_id (edited_rule [] old_rule) = None \<and> rr_policy_id (hd (t_rules tree_db)) = Some 2"
proof -
  have i: "r_id old_rule = 1" "r_policy_id old_rule = None"
    by (simp_all add: old_rule_def created_rule_def sample_input_def)
  have e: "edited_rule [] old_rule = old_rule" by (simp add: edited_rule_def)
  have p: "rg_editing edit_page = Existing (rule_entries old_rule)" by (simp add: edit_page_def)
  have f: "\<not> source_is_file (sample_server tree_db)" "sv_file (sample_server tree_db) = None"
    by (simp_all add: source_is_file_def sample_server_def defaults_def field_def obj_get_def)
  obtain d r where "update_rule (sv_db (sample_server tree_db)) (Some (r_id old_rule)) (all_columns (edited_rule [] old_rule)) = Inr (d, Some r)"
    using old_rule_saved unfolding i e by (auto simp: sample_server_def)
  from save_closes [OF tree_connected f(1) p this] obtain p' sv' where
    s: "handle_save_rule sample_env (Some ''Basic dTpw'') [] (edit_page, sample_server tree_db) = (p', sv')" "rg_editing p' = Closed"
    by blast
  from edit_overwrites_row [OF sample_server_ok [OF tree_db_ok] f(2) sample_auth p s] i e show ?thesis
    by (auto simp: tree_db_def)
qed

end
