(* ===== verification/Gui_Agents.thy ===== *)
theory Gui_Agents
  imports Gui_Rules
begin

text \<open>
  The page of the agents, \<open>pages/Agents.jsx\<close>: the form, the two banners with tokens, the switches of a row and the chips
  of its policies. The record is the state of the hooks; as on the rules page a handler runs to its end.
\<close>

section \<open>State\<close>

record agents_page =
  ag_agents :: "object list"
  ag_policies :: "object list"
  ag_map :: "json \<rightharpoonup> object list"
  ag_open :: "int list"
  ag_editing :: "object editing"
  ag_name :: string
  ag_description :: string
  ag_created :: "(string \<times> string) option"
  ag_rotated :: "(string \<times> string) option"

definition agents_page_new :: agents_page where
  "agents_page_new =
     \<lparr>ag_agents = [], ag_policies = [], ag_map = Map.empty, ag_open = [], ag_editing = Closed, ag_name = [],
      ag_description = [], ag_created = None, ag_rotated = None\<rparr>"

text \<open>\<open>load\<close>: agents, policies and the map of both.\<close>

definition load_agents :: "env \<Rightarrow> string option \<Rightarrow> server \<Rightarrow> agents_page \<Rightarrow> agents_page" where
  "load_agents e a sv p =
     (case (fetch_list e a sv CGetAgents, fetch_list e a sv CGetPolicies) of
        (Some as, Some ps) \<Rightarrow> p\<lparr>ag_agents := as, ag_policies := ps, ag_map := agent_policies as ps\<rparr>
      | _ \<Rightarrow> p)"

text \<open>The policies of a row: those on its chips and those its menu offers.\<close>

definition assigned_policies :: "agents_page \<Rightarrow> object \<Rightarrow> object list" where
  "assigned_policies p ag =
     (case obj_get ag ''id'' of None \<Rightarrow> [] | Some i \<Rightarrow> (case ag_map p i of None \<Rightarrow> [] | Some ps \<Rightarrow> ps))"

definition unassigned_policies :: "agents_page \<Rightarrow> object \<Rightarrow> object list" where
  "unassigned_policies p ag =
     filter (\<lambda>pol. obj_get pol ''id'' \<notin> (\<lambda>x. obj_get x ''id'') ` set (assigned_policies p ag)) (ag_policies p)"

section \<open>Handlers\<close>

definition open_create :: "agents_page \<Rightarrow> agents_page" where
  "open_create p = p\<lparr>ag_name := [], ag_description := [], ag_editing := New\<rparr>"

definition open_edit :: "object \<Rightarrow> agents_page \<Rightarrow> agents_page" where
  "open_edit ag p =
     p\<lparr>ag_name := text_of ag ''name'', ag_description := text_of ag ''description'', ag_editing := Existing ag\<rparr>"

definition close_modal :: "agents_page \<Rightarrow> agents_page" where
  "close_modal p = p\<lparr>ag_editing := Closed\<rparr>"

text \<open>An awaited call, what is set from its value, and the reload; a call that throws ends the handler.\<close>

definition agents_call ::
  "env \<Rightarrow> string option \<Rightarrow> api_call \<Rightarrow> (json \<Rightarrow> agents_page \<Rightarrow> agents_page) \<Rightarrow> bool \<Rightarrow> agents_page \<times> server
    \<Rightarrow> agents_page \<times> server" where
  "agents_call e a c after loads = (\<lambda>(p, sv).
     (case api e a c sv of
        None \<Rightarrow> (p, sv)
      | Some (sv', res) \<Rightarrow>
          (case (case res of Value v \<Rightarrow> Some v | NoValue \<Rightarrow> Some JNull | _ \<Rightarrow> None) of
             None \<Rightarrow> (p, sv')
           | Some v \<Rightarrow> (if loads then load_agents e a sv' (after v p) else after v p, sv'))))"

text \<open>What the route reads of the body of an update: three keys.\<close>

definition agent_fields_of :: "object \<Rightarrow> agent_fields" where
  "agent_fields_of body =
     \<lparr>af_name = (case obj_get body ''name'' of Some (JStr s) \<Rightarrow> Some s | _ \<Rightarrow> None),
      af_description = (case obj_get body ''description'' of Some (JStr s) \<Rightarrow> Some s | _ \<Rightarrow> None),
      af_enabled = (case obj_get body ''enabled'' of Some (JBool b) \<Rightarrow> Some b | _ \<Rightarrow> None)\<rparr>"

definition update_call :: "int \<Rightarrow> object \<Rightarrow> api_call" where
  "update_call i body = CUpdateAgent i (agent_fields_of body)"

definition shown_token :: "json \<Rightarrow> string" where
  "shown_token v = (case v of JObj kvs \<Rightarrow> text_of kvs ''token'' | _ \<Rightarrow> [])"

definition shown_name :: "json \<Rightarrow> string" where
  "shown_name v = (case v of JObj kvs \<Rightarrow> text_of kvs ''name'' | _ \<Rightarrow> [])"

definition handle_save_agent :: "env \<Rightarrow> string option \<Rightarrow> agents_page \<times> server \<Rightarrow> agents_page \<times> server" where
  "handle_save_agent e a = (\<lambda>(p, sv).
     (case ag_editing p of
        Closed \<Rightarrow> (p, sv)
      | New \<Rightarrow>
          agents_call e a (CCreateAgent (ag_name p) (ag_description p))
            (\<lambda>v p. close_modal (p\<lparr>ag_created := Some (shown_name v, shown_token v)\<rparr>)) True (p, sv)
      | Existing ag \<Rightarrow>
          (case num_of ag ''id'' of
             None \<Rightarrow> (p, sv)
           | Some i \<Rightarrow>
               agents_call e a
                 (update_call i [(''name'', JStr (ag_name p)), (''description'', JStr (ag_description p))])
                 (\<lambda>_. close_modal) True (p, sv))))"

text \<open>The handlers of a row; \<open>sure\<close> is the answer to \<open>confirm\<close>.\<close>

definition handle_toggle :: "env \<Rightarrow> string option \<Rightarrow> object \<Rightarrow> agents_page \<times> server \<Rightarrow> agents_page \<times> server" where
  "handle_toggle e a ag = (\<lambda>(p, sv).
     (case num_of ag ''id'' of
        None \<Rightarrow> (p, sv)
      | Some i \<Rightarrow>
          agents_call e a (update_call i [(''enabled'', JBool (\<not> truthy (obj_get ag ''enabled'')))]) (\<lambda>_ p. p) True (p, sv)))"

definition handle_delete_agent ::
  "env \<Rightarrow> string option \<Rightarrow> bool \<Rightarrow> object \<Rightarrow> agents_page \<times> server \<Rightarrow> agents_page \<times> server" where
  "handle_delete_agent e a sure ag = (\<lambda>(p, sv).
     (case num_of ag ''id'' of
        None \<Rightarrow> (p, sv)
      | Some i \<Rightarrow> if sure then agents_call e a (CDeleteAgent i) (\<lambda>_ p. p) True (p, sv) else (p, sv)))"

definition handle_rotate ::
  "env \<Rightarrow> string option \<Rightarrow> bool \<Rightarrow> object \<Rightarrow> agents_page \<times> server \<Rightarrow> agents_page \<times> server" where
  "handle_rotate e a sure ag = (\<lambda>(p, sv).
     (case num_of ag ''id'' of
        None \<Rightarrow> (p, sv)
      | Some i \<Rightarrow>
          if sure
          then agents_call e a (CRotateToken i) (\<lambda>v p. p\<lparr>ag_rotated := Some (text_of ag ''name'', shown_token v)\<rparr>) False (p, sv)
          else (p, sv)))"

definition handle_clear_ip ::
  "env \<Rightarrow> string option \<Rightarrow> bool \<Rightarrow> object \<Rightarrow> agents_page \<times> server \<Rightarrow> agents_page \<times> server" where
  "handle_clear_ip e a sure ag = (\<lambda>(p, sv).
     (case num_of ag ''id'' of
        None \<Rightarrow> (p, sv)
      | Some i \<Rightarrow>
          if sure then agents_call e a (update_call i [(''ip_address'', JNull)]) (\<lambda>_ p. p) True (p, sv) else (p, sv)))"

definition handle_assign_policy ::
  "env \<Rightarrow> string option \<Rightarrow> int \<Rightarrow> int \<Rightarrow> agents_page \<times> server \<Rightarrow> agents_page \<times> server" where
  "handle_assign_policy e a agent pol = (\<lambda>(p, sv).
     (if pol = 0 then (p, sv)
      else agents_call e a (CAssignPolicyAgent pol agent) (\<lambda>_ p. p\<lparr>ag_open := removeAll agent (ag_open p)\<rparr>) True (p, sv)))"

definition handle_unassign_policy ::
  "env \<Rightarrow> string option \<Rightarrow> int \<Rightarrow> int \<Rightarrow> agents_page \<times> server \<Rightarrow> agents_page \<times> server" where
  "handle_unassign_policy e a agent pol = agents_call e a (CUnassignPolicyAgent pol agent) (\<lambda>_ p. p) True"

definition toggle_assign_dropdown :: "int \<Rightarrow> agents_page \<Rightarrow> agents_page" where
  "toggle_assign_dropdown agent p =
     p\<lparr>ag_open := (if agent \<in> set (ag_open p) then removeAll agent (ag_open p) else agent # ag_open p)\<rparr>"

definition dismiss_created :: "agents_page \<Rightarrow> agents_page" where
  "dismiss_created p = p\<lparr>ag_created := None\<rparr>"

definition dismiss_rotated :: "agents_page \<Rightarrow> agents_page" where
  "dismiss_rotated p = p\<lparr>ag_rotated := None\<rparr>"

text \<open>
  What a user can do. Rows are chosen among the shown ones, policies among the chips and the entries of the open menu; the
  form is not submitted without a name; its own button for the address closes it.
\<close>

datatype agents_action =
    AgCreate
  | AgEdit int
  | AgName string
  | AgDescription string
  | AgSave
  | AgCancel
  | AgToggle int
  | AgDelete int bool
  | AgRotate int bool
  | AgClearIp int bool
  | AgClearIpForm bool
  | AgMenu int
  | AgAssign int int
  | AgUnassign int int
  | AgDismissCreated
  | AgDismissRotated

definition shown_agent :: "agents_page \<Rightarrow> int \<Rightarrow> object option" where
  "shown_agent p i = find (\<lambda>r. num_of r ''id'' = Some i) (ag_agents p)"

definition on_agent ::
  "agents_page \<Rightarrow> int \<Rightarrow> (object \<Rightarrow> agents_page \<times> server \<Rightarrow> agents_page \<times> server) \<Rightarrow> server \<Rightarrow> agents_page \<times> server" where
  "on_agent p i handler sv = (case shown_agent p i of None \<Rightarrow> (p, sv) | Some ag \<Rightarrow> handler ag (p, sv))"

definition offers :: "object list \<Rightarrow> int \<Rightarrow> bool" where
  "offers pols i \<longleftrightarrow> (\<exists>pol \<in> set pols. num_of pol ''id'' = Some i)"

fun agents_step :: "env \<Rightarrow> string option \<Rightarrow> agents_action \<Rightarrow> agents_page \<times> server \<Rightarrow> agents_page \<times> server" where
  "agents_step e a AgCreate (p, sv) = (open_create p, sv)"
| "agents_step e a (AgEdit i) (p, sv) = on_agent p i (\<lambda>ag (p, sv). (open_edit ag p, sv)) sv"
| "agents_step e a (AgName s) (p, sv) = (p\<lparr>ag_name := s\<rparr>, sv)"
| "agents_step e a (AgDescription s) (p, sv) = (p\<lparr>ag_description := s\<rparr>, sv)"
| "agents_step e a AgSave (p, sv) = (if ag_name p = [] then (p, sv) else handle_save_agent e a (p, sv))"
| "agents_step e a AgCancel (p, sv) = (close_modal p, sv)"
| "agents_step e a (AgToggle i) (p, sv) = on_agent p i (handle_toggle e a) sv"
| "agents_step e a (AgDelete i sure) (p, sv) = on_agent p i (handle_delete_agent e a sure) sv"
| "agents_step e a (AgRotate i sure) (p, sv) = on_agent p i (handle_rotate e a sure) sv"
| "agents_step e a (AgClearIp i sure) (p, sv) = on_agent p i (handle_clear_ip e a sure) sv"
| "agents_step e a (AgClearIpForm sure) (p, sv) =
     (case ag_editing p of
        Existing ag \<Rightarrow> (case handle_clear_ip e a sure ag (p, sv) of (p', sv') \<Rightarrow> (close_modal p', sv'))
      | _ \<Rightarrow> (p, sv))"
| "agents_step e a (AgMenu i) (p, sv) = (toggle_assign_dropdown i p, sv)"
| "agents_step e a (AgAssign i pol) (p, sv) =
     on_agent p i (\<lambda>ag (p, sv).
       if i \<in> set (ag_open p) \<and> offers (unassigned_policies p ag) pol then handle_assign_policy e a i pol (p, sv) else (p, sv)) sv"
| "agents_step e a (AgUnassign i pol) (p, sv) =
     on_agent p i (\<lambda>ag (p, sv).
       if offers (assigned_policies p ag) pol then handle_unassign_policy e a i pol (p, sv) else (p, sv)) sv"
| "agents_step e a AgDismissCreated (p, sv) = (dismiss_created p, sv)"
| "agents_step e a AgDismissRotated (p, sv) = (dismiss_rotated p, sv)"

definition agents_run :: "env \<Rightarrow> string option \<Rightarrow> agents_action list \<Rightarrow> server \<Rightarrow> agents_page \<times> server" where
  "agents_run e a acts sv = foldl (\<lambda>s act. agents_step e a act s) (load_agents e a sv agents_page_new, sv) acts"

section \<open>Tokens\<close>

lemma load_agents_fields [simp]:
  "ag_editing (load_agents e a sv p) = ag_editing p" "ag_created (load_agents e a sv p) = ag_created p"
  "ag_rotated (load_agents e a sv p) = ag_rotated p" "ag_name (load_agents e a sv p) = ag_name p"
  by (auto simp: load_agents_def split: option.splits)

lemma load_agents_shows:
  "basic_auth (sv_auth sv) a \<Longrightarrow> ag_agents (load_agents e a sv p) = map agent_entries (list_agents (sv_db sv))"
  by (simp add: load_agents_def fetch_lists)

lemma agents_call_value:
  assumes "api e a c sv = Some (sv', Value v)"
  shows "agents_call e a c after loads (p, sv) = (if loads then load_agents e a sv' (after v p) else after v p, sv')"
  by (simp add: agents_call_def assms)

lemma update_agent_answer:
  assumes "basic_auth (sv_auth sv) a" "update_agent (sv_db sv) (Some i) f = Inr (d, Some ag)"
  shows "api e a (CUpdateAgent i f) sv = Some (send_agents_reload e (sv\<lparr>sv_db := d\<rparr>), Value (agent_json ag))"
  using assms by (simp add: api_def handle_request_def put_agent_def client_answer_def reply_def response_ok_def)

lemma create_agent_answer:
  assumes "basic_auth (sv_auth sv) a"
    and "create_agent (e_hash e) (e_clock e) (e_token e) (sv_db sv) (Some n) (Some ds) = Inr (d, ag, t)"
  shows "api e a (CCreateAgent n ds) sv
    = Some (send_agents_reload e (sv\<lparr>sv_db := d\<rparr>), Value (JObj (agent_entries ag @ [(''token'', JStr t)])))"
  using assms by (simp add: api_def handle_request_def post_agent_def client_answer_def reply_def response_ok_def)

lemma rotate_answer:
  assumes "basic_auth (sv_auth sv) a" "rotate_token (e_hash e) (e_token e) (sv_db sv) (Some i) = (d, Some t)"
  shows "api e a (CRotateToken i) sv = Some (send_agents_reload e (sv\<lparr>sv_db := d\<rparr>), Value (JObj [(''token'', JStr t)]))"
  using assms by (simp add: api_def handle_request_def rotate_agent_token_def client_answer_def reply_def response_ok_def)

lemma shown_values [simp]:
  "shown_name (JObj (agent_entries ag @ kvs)) = a_name ag" "shown_token (JObj (agent_entries ag @ [(''token'', JStr t)])) = t"
  "shown_token (JObj [(''token'', JStr t)]) = t" "text_of (agent_entries ag) ''name'' = a_name ag"
  by (simp_all add: shown_name_def shown_token_def text_of_def agent_entries_def obj_get_def)

lemma row_of_id:
  assumes "db_ok d" "row_by_id ar_id (t_agents d) (Some i) = Some row" "r \<in> set (t_agents d)" "ar_id r = i"
  shows "r = row"
  using row_by_id_mem [OF agents_table_ok [OF assms(1)] assms(3)] assms(2,4) by simp

text \<open>An update that keeps the name succeeds.\<close>

lemma update_agent_succeeds:
  assumes "db_ok d" "row_by_id ar_id (t_agents d) (Some i) = Some row" "or_else (af_name f) (ar_name row) = ar_name row"
  defines "d' \<equiv> d\<lparr>t_agents := update_where ar_id (Some i) (\<lambda>_. changed_agent f row) (t_agents d)\<rparr>"
  shows "update_agent d (Some i) f = Inr (d', Some (deserialize_agent (changed_agent f row)))"
proof -
  have mem: "row \<in> set (t_agents d)" "ar_id row = i" using row_by_id_SomeD [OF assms(2)] by auto
  have "\<not> (\<exists>q \<in> set (t_agents d). ar_id q \<noteq> ar_id row \<and> ar_name q = ar_name (changed_agent f row))"
    using agent_names [OF assms(1)] mem assms(3) by (auto simp: changed_agent_def distinct_map inj_on_def)
  moreover have "\<And>r. Some (ar_id r) = Some i \<Longrightarrow> ar_id (changed_agent f row) = ar_id r"
    using mem by (simp add: changed_agent_def)
  from row_by_id_update_where [where key = ar_id and i = "Some i" and f = "\<lambda>_. changed_agent f row", OF this] assms(2)
  have "get_agent d' (Some i) = Some (deserialize_agent (changed_agent f row))" by (simp add: get_agent_def d'_def)
  ultimately show ?thesis using assms(2) by (simp add: update_agent_def Let_def d'_def)
qed

lemma update_where_same:
  assumes "db_ok d" "row_by_id ar_id (t_agents d) (Some i) = Some row" "g (changed_agent f row) = g row"
  shows "map g (update_where ar_id (Some i) (\<lambda>_. changed_agent f row) (t_agents d)) = map g (t_agents d)"
  using assms(3) row_of_id [OF assms(1,2)] by (auto simp: update_where_def)

section \<open>Properties\<close>

text \<open>
  Clearing the address of an agent does nothing: the page asks for it, the server answers with success, and the agents it
  lists, what it tells the proxy of them and their addresses are the same as before; the page shows the address still.
\<close>

theorem clear_ip_no_effect:
  assumes "server_ok sv" "basic_auth (sv_auth sv) a" "row_by_id ar_id (t_agents (sv_db sv)) (Some i) = Some row"
    and "handle_clear_ip e a True (agent_entries (deserialize_agent row)) (p, sv) = (p', sv')"
  shows "list_agents (sv_db sv') = list_agents (sv_db sv) \<and> list_for_proxy (sv_db sv') = list_for_proxy (sv_db sv)
    \<and> map ar_ip_address (t_agents (sv_db sv')) = map ar_ip_address (t_agents (sv_db sv))
    \<and> ag_agents p' = map agent_entries (list_agents (sv_db sv))"
proof -
  let ?f = "agent_fields_of [(''ip_address'', JNull)]"
  let ?d = "sv_db sv"
  let ?d' = "?d\<lparr>t_agents := update_where ar_id (Some i) (\<lambda>_. changed_agent ?f row) (t_agents ?d)\<rparr>"
  note ok = server_db_ok [OF assms(1)]
  have f: "?f = \<lparr>af_name = None, af_description = None, af_enabled = None\<rparr>" by (simp add: agent_fields_of_def obj_get_def)
  have "update_agent ?d (Some i) ?f = Inr (?d', Some (deserialize_agent (changed_agent ?f row)))"
    by (rule update_agent_succeeds [OF ok assms(3)]) (simp add: f)
  note answer = update_agent_answer [OF assms(2) this]
  have "ar_id row = i" using row_by_id_SomeD [OF assms(3)] by simp
  then have id: "num_of (agent_entries (deserialize_agent row)) ''id'' = Some i"
    by (simp add: num_of_def agent_entries_def obj_get_def deserialize_agent_def)
  have "(load_agents e a (send_agents_reload e (sv\<lparr>sv_db := ?d'\<rparr>)) p, send_agents_reload e (sv\<lparr>sv_db := ?d'\<rparr>)) = (p', sv')"
    using assms(4) unfolding handle_clear_ip_def id update_call_def prod.case option.case if_True agents_call_value [OF answer] .
  then have q: "load_agents e a (send_agents_reload e (sv\<lparr>sv_db := ?d'\<rparr>)) p = p'" "send_agents_reload e (sv\<lparr>sv_db := ?d'\<rparr>) = sv'"
    unfolding prod.inject by blast+
  have p: "p' = load_agents e a sv' p" "sv_db sv' = ?d'" "basic_auth (sv_auth sv') a"
    unfolding q(2) [symmetric] using q(1) assms(2) by simp_all
  have same: "g (changed_agent ?f row) = g row \<Longrightarrow> map g (t_agents ?d') = map g (t_agents ?d)" for g :: "agent_row \<Rightarrow> 'x"
    using update_where_same [OF ok assms(3)] by simp
  have "list_agents ?d' = list_agents ?d"
    unfolding list_agents_def by (rule same) (simp add: deserialize_agent_def changed_agent_def f)
  moreover have "list_for_proxy ?d' = list_for_proxy ?d"
    unfolding list_for_proxy_def by (rule same) (simp add: changed_agent_def f)
  moreover have "map ar_ip_address (t_agents ?d') = map ar_ip_address (t_agents ?d)"
    by (rule same) (simp add: changed_agent_def)
  ultimately show ?thesis unfolding p(1) using p(3) by (simp add: load_agents_shows p(2))
qed

text \<open>
  C29: The token a banner shows is the token that works: when \<open>bcrypt\<close> accepts a token against its own hash, then after a new
  agent is saved the banner shows its name and a token that authenticates it; after its token is rotated the second banner
  shows the name and a new token that authenticates it. The first banner is still there, and its token no longer works.
\<close>

theorem token_banners:
  assumes "server_ok sv" "basic_auth (sv_auth sv) a" "ag_editing p = New"
    and "handle_save_agent e1 a (p, sv) = (p1, sv1)" "ag_editing p1 = Closed"
    and "handle_rotate e2 a True ag (p1, sv1) = (p2, sv2)" "ag \<in> set (ag_agents p1)" "text_of ag ''name'' = ag_name p"
    and "e_compare e2 = e_compare e1" "e_compare e1 (e_token e1) (e_hash e1 (e_token e1))"
    and "e_compare e1 (e_token e2) (e_hash e2 (e_token e2))" "\<not> e_compare e1 (e_token e1) (e_hash e2 (e_token e2))"
  shows "ag_created p1 = Some (ag_name p, e_token e1) \<and> authenticate (e_compare e1) (sv_db sv1) (ag_name p) (e_token e1) \<noteq> None
    \<and> ag_rotated p2 = Some (ag_name p, e_token e2) \<and> authenticate (e_compare e1) (sv_db sv2) (ag_name p) (e_token e2) \<noteq> None
    \<and> ag_created p2 = ag_created p1 \<and> authenticate (e_compare e1) (sv_db sv2) (ag_name p) (e_token e1) = None"
proof -
  note ok = server_db_ok [OF assms(1)]
  show ?thesis
  proof (cases "create_agent (e_hash e1) (e_clock e1) (e_token e1) (sv_db sv) (Some (ag_name p)) (Some (ag_description p))")
    case (Inl err)
    then have "p1 = p" using assms(2-4)
      by (auto simp: handle_save_agent_def agents_call_def api_def handle_request_def post_agent_def error_handler_def
          client_answer_def reply_def response_ok_def)
    with assms(3,5) show ?thesis by simp
  next
    case (Inr x)
    obtain d1 ag1 t where x: "x = (d1, ag1, t)" by (cases x)
    note c = create_agent_Inr [OF Inr [unfolded x]]
    define row where "row = new_agent_row (e_clock e1) (seq_agents (sv_db sv) + 1) (ag_name p) (Some (ag_description p)) (e_hash e1 (e_token e1))"
    have d1: "t_agents d1 = t_agents (sv_db sv) @ [row]" "ag1 = deserialize_agent row" "t = e_token e1"
      using c by (auto simp: row_def)
    have ok1: "db_ok d1" by (rule create_agent_ok [OF ok Inr [unfolded x]])
    have row: "row \<in> set (t_agents d1)" "ar_name row = ag_name p" "ar_enabled row \<noteq> 0" "ar_token_hash row = e_hash e1 (e_token e1)"
      by (simp_all add: d1 row_def)
    note made = Inr [unfolded x]
    have "agents_call e1 a (CCreateAgent (ag_name p) (ag_description p))
        (\<lambda>v p. close_modal (p\<lparr>ag_created := Some (shown_name v, shown_token v)\<rparr>)) True (p, sv) = (p1, sv1)"
      using assms(3,4) by (simp add: handle_save_agent_def)
    then have s1: "p1 = load_agents e1 a sv1 (close_modal (p\<lparr>ag_created := Some (ag_name p, e_token e1)\<rparr>))"
      "sv1 = send_agents_reload e1 (sv\<lparr>sv_db := d1\<rparr>)"
      unfolding agents_call_value [OF create_agent_answer [OF assms(2) made]] if_True prod.inject shown_values d1(3)
      by (auto simp: d1(2) deserialize_agent_def row_def)
    have auth1: "basic_auth (sv_auth sv1) a" using assms(2) by (simp add: s1(2))
    have created: "ag_created p1 = Some (ag_name p, e_token e1)" by (simp add: s1(1) close_modal_def)
    have "ag \<in> set (map agent_entries (list_agents d1))"
      using assms(7) auth1 unfolding s1(1) by (simp add: load_agents_shows s1(2))
    then obtain r where r: "r \<in> set (t_agents d1)" "ag = agent_entries (deserialize_agent r)"
      by (auto simp: list_agents_def)
    have "ar_name r = ag_name p" using assms(8) r(2) by (simp add: text_of_def agent_entries_def obj_get_def deserialize_agent_def)
    then have "r = row" using agent_names [OF ok1] r(1) row(1,2) by (auto simp: distinct_map inj_on_def)
    then have id: "num_of ag ''id'' = Some (ar_id row)"
      by (simp add: r(2) num_of_def agent_entries_def obj_get_def deserialize_agent_def)
    note rot = rotate_authenticates(1) [OF ok1 row(1), of "e_compare e1" "e_hash e2" "e_token e2"]
    let ?d2 = "fst (rotate_token (e_hash e2) (e_token e2) d1 (Some (ar_id row)))"
    have "rotate_token (e_hash e2) (e_token e2) d1 (Some (ar_id row)) = (?d2, Some (e_token e2))"
      using rotate_authenticates(2) [OF ok1 row(1), of "e_hash e2" "e_token e2"]
      by (metis prod.collapse)
    then have "rotate_token (e_hash e2) (e_token e2) (sv_db sv1) (Some (ar_id row)) = (?d2, Some (e_token e2))"
      by (simp add: s1(2))
    from agents_call_value [OF rotate_answer [OF auth1 this]]
    have s2: "ag_rotated p2 = Some (ag_name p, e_token e2)" "ag_created p2 = ag_created p1" "sv_db sv2 = ?d2"
      using assms(6,8) by (auto simp: handle_rotate_def id)
    have "authenticate (e_compare e1) (sv_db sv1) (ag_name p) (e_token e1) \<noteq> None"
      using authenticate_row [OF ok1 row(1), of "e_compare e1" "e_token e1"] row(2-4) assms(10) by (simp add: s1(2))
    moreover have "authenticate (e_compare e1) (sv_db sv2) (ag_name p) (e_token e2) \<noteq> None"
      "authenticate (e_compare e1) (sv_db sv2) (ag_name p) (e_token e1) = None"
      using rot row(2,3) assms(11,12) unfolding s2(3) by simp_all
    ultimately show ?thesis using created s2(1,2) by simp
  qed
qed

section \<open>The page and the store\<close>

definition agents_in_sync :: "server \<Rightarrow> agents_page \<Rightarrow> bool" where
  "agents_in_sync sv p \<longleftrightarrow>
     ag_agents p = map agent_entries (list_agents (sv_db sv)) \<and> ag_policies p = map policy_entries (list_policies (sv_db sv))
     \<and> ag_map p = agent_policies (ag_agents p) (ag_policies p)"

definition agents_sync :: "string option \<Rightarrow> agents_page \<times> server \<Rightarrow> bool" where
  "agents_sync a s \<longleftrightarrow> connected a (snd s) \<and> agents_in_sync (snd s) (fst s)"

lemma agents_sync_pair [simp]: "agents_sync a (p, sv) \<longleftrightarrow> connected a sv \<and> agents_in_sync sv p"
  by (simp add: agents_sync_def)

lemma load_agents_sync: "connected a sv \<Longrightarrow> agents_in_sync sv (load_agents e a sv p)"
  by (simp add: connected_def agents_in_sync_def load_agents_def fetch_lists)

lemma agents_in_sync_db: "sv_db sv' = sv_db sv \<Longrightarrow> agents_in_sync sv' p = agents_in_sync sv p"
  by (simp add: agents_in_sync_def)

lemma agents_in_sync_fields [simp]:
  "agents_in_sync sv (p\<lparr>ag_editing := x\<rparr>) = agents_in_sync sv p" "agents_in_sync sv (p\<lparr>ag_name := y\<rparr>) = agents_in_sync sv p"
  "agents_in_sync sv (p\<lparr>ag_description := y\<rparr>) = agents_in_sync sv p" "agents_in_sync sv (p\<lparr>ag_open := z\<rparr>) = agents_in_sync sv p"
  "agents_in_sync sv (p\<lparr>ag_created := w\<rparr>) = agents_in_sync sv p" "agents_in_sync sv (p\<lparr>ag_rotated := w\<rparr>) = agents_in_sync sv p"
  by (simp_all add: agents_in_sync_def)

lemma agents_sync_fields:
  "agents_sync a (p\<lparr>ag_editing := x\<rparr>, sv) = agents_sync a (p, sv)" "agents_sync a (p\<lparr>ag_name := y\<rparr>, sv) = agents_sync a (p, sv)"
  "agents_sync a (p\<lparr>ag_description := y\<rparr>, sv) = agents_sync a (p, sv)" "agents_sync a (p\<lparr>ag_open := z\<rparr>, sv) = agents_sync a (p, sv)"
  "agents_sync a (p\<lparr>ag_created := w\<rparr>, sv) = agents_sync a (p, sv)" "agents_sync a (p\<lparr>ag_rotated := w\<rparr>, sv) = agents_sync a (p, sv)"
  by simp_all

lemma agents_call_sync:
  assumes "changing_call c" "agents_sync a (p, sv)"
    and "loads \<or> (\<forall>v sv' p. agents_in_sync sv' (after v p) = agents_in_sync sv' p)
      \<and> (\<forall>sv' res. api e a c sv = Some (sv', res) \<longrightarrow> agents_in_sync sv' p)"
  shows "agents_sync a (agents_call e a c after loads (p, sv))"
proof (cases "api e a c sv")
  case None
  then show ?thesis using assms(2) by (simp add: agents_call_def)
next
  case (Some x)
  obtain sv' res where x: "x = (sv', res)" by (cases x)
  have con: "connected a sv" and insync: "agents_in_sync sv p" using assms(2) by simp_all
  note r = changing_call_result [OF assms(1) con Some [unfolded x]]
  show ?thesis
  proof (cases "res = NoValue \<or> (\<exists>v. res = Value v)")
    case True
    then obtain v where "agents_call e a c after loads (p, sv) = (if loads then load_agents e a sv' (after v p) else after v p, sv')"
      by (auto simp: agents_call_def Some x)
    then show ?thesis using r(1) load_agents_sync [OF r(1)] assms(3) Some x by (cases loads) auto
  next
    case False
    then have "agents_call e a c after loads (p, sv) = (p, sv')" by (cases res) (auto simp: agents_call_def Some x)
    then show ?thesis using r(1) agents_in_sync_db [OF r(2) [OF False]] insync by simp
  qed
qed

text \<open>A rotation changes nothing the page shows, so that it needs no reload.\<close>

lemma rotate_in_sync:
  assumes "agents_in_sync sv p" "basic_auth (sv_auth sv) a" "api e a (CRotateToken i) sv = Some (sv', res)"
  shows "agents_in_sync sv' p"
proof -
  have "list_agents (d\<lparr>t_agents := update_where ar_id k (\<lambda>row. row\<lparr>ar_token_hash := h\<rparr>) (t_agents d)\<rparr>) = list_agents d" for d k h
    by (auto simp: list_agents_def update_where_def deserialize_agent_def)
  moreover have "list_policies (d\<lparr>t_agents := as\<rparr>) = list_policies d" for d as by (simp add: list_policies_def)
  ultimately have "list_agents (sv_db sv') = list_agents (sv_db sv) \<and> list_policies (sv_db sv') = list_policies (sv_db sv)"
    using assms(2,3) by (auto simp: api_def handle_request_def rotate_agent_token_def rotate_token_def split: option.splits prod.splits)
  then show ?thesis using assms(1) by (simp add: agents_in_sync_def)
qed

lemma handlers_sync:
  assumes "agents_sync a (p, sv)"
  shows "agents_sync a (handle_save_agent e a (p, sv))" "agents_sync a (handle_toggle e a ag (p, sv))"
    "agents_sync a (handle_delete_agent e a sure ag (p, sv))" "agents_sync a (handle_rotate e a sure ag (p, sv))"
    "agents_sync a (handle_clear_ip e a sure ag (p, sv))" "agents_sync a (handle_assign_policy e a i pol (p, sv))"
    "agents_sync a (handle_unassign_policy e a i pol (p, sv))"
proof -
  note c = agents_call_sync [OF _ assms, where loads = True, OF _ disjI1 [OF TrueI]]
  have auth: "basic_auth (sv_auth sv) a" and insync: "agents_in_sync sv p" using assms by (simp_all add: connected_def)
  show "agents_sync a (handle_rotate e a sure ag (p, sv))"
    using assms rotate_in_sync [OF insync auth]
    by (auto simp: handle_rotate_def simp del: agents_sync_pair intro!: agents_call_sync split: option.split)
  show "agents_sync a (handle_save_agent e a (p, sv))" using assms
    by (auto simp: handle_save_agent_def update_call_def simp del: agents_sync_pair intro!: c split: editing.splits option.splits)
  show "agents_sync a (handle_toggle e a ag (p, sv))" "agents_sync a (handle_delete_agent e a sure ag (p, sv))"
    "agents_sync a (handle_clear_ip e a sure ag (p, sv))" "agents_sync a (handle_assign_policy e a i pol (p, sv))"
    "agents_sync a (handle_unassign_policy e a i pol (p, sv))"
    using assms
    by (auto simp: handle_toggle_def handle_delete_agent_def handle_clear_ip_def handle_assign_policy_def
        handle_unassign_policy_def update_call_def simp del: agents_sync_pair intro!: c split: option.splits)
qed

lemma agents_step_sync:
  assumes "agents_sync a s"
  shows "agents_sync a (agents_step e a act s)"
proof -
  obtain p sv where s: "s = (p, sv)" by (cases s)
  note h = assms [unfolded s]
  have on: "agents_sync a (on_agent p i handler sv)" if "\<And>ag. agents_sync a (handler ag (p, sv))" for i handler
    using that h by (simp add: on_agent_def del: agents_sync_pair split: option.split)
  show ?thesis unfolding s
  proof (cases act)
    case (AgClearIpForm sure)
    have "agents_sync a (case handle_clear_ip e a sure ag (p, sv) of (p', sv') \<Rightarrow> (close_modal p', sv'))" for ag
    proof -
      obtain p' sv' where c: "handle_clear_ip e a sure ag (p, sv) = (p', sv')" by fastforce
      from handlers_sync(5) [OF h, of e sure ag] show ?thesis by (simp add: c close_modal_def)
    qed
    then show "agents_sync a (agents_step e a act (p, sv))" using h
      by (simp add: AgClearIpForm del: agents_sync_pair split: editing.split)
  next
    case AgSave
    then show "agents_sync a (agents_step e a act (p, sv))" using h handlers_sync(1) [OF h] by (simp del: agents_sync_pair)
  qed (use h in \<open>auto simp: open_create_def open_edit_def close_modal_def toggle_assign_dropdown_def dismiss_created_def
        dismiss_rotated_def agents_sync_fields simp del: agents_sync_pair intro!: on handlers_sync\<close>)
qed

interpretation agents_machine: free_machine "\<lambda>s act. agents_step e a act s" "agents_sync a"
  by unfold_locales (rule agents_step_sync)

text \<open>The list of policies names no agents, so there are no chips.\<close>

lemma no_chips:
  assumes "ag \<in> set as"
  shows "agent_policies as (map policy_entries ps) (the (obj_get ag ''id'')) = Some []"
proof -
  have ids: "policy_agent_ids (policy_entries pol) = []" for pol
    by (simp add: policy_agent_ids_def policy_entries_def obj_get_def truthy_def)
  have "map_of (map (\<lambda>a. (the (obj_get a ''id''), [])) as) (the (obj_get ag ''id'')) = Some []"
    using assms by (induction as) auto
  moreover have none: "concat (map (\<lambda>p. map (\<lambda>i. (i, p)) (policy_agent_ids p)) (map policy_entries ps)) = []"
    by (simp add: ids)
  ultimately show ?thesis unfolding agent_policies_def none by simp
qed


section \<open>The properties at concrete inputs\<close>

definition ip_db :: db where
  "ip_db = register_ip tree_db (Some 1) (Some ''10.0.0.9'')"

lemma ip_db_ok: "db_ok ip_db"
  unfolding ip_db_def by (rule register_ip_ok [OF tree_db_ok])

theorem clear_ip_no_effect_witness:
  "\<exists>p sv. handle_clear_ip sample_env (Some ''Basic dTpw'') True
       (agent_entries (deserialize_agent (sample_agent\<lparr>ar_ip_address := Some ''10.0.0.9''\<rparr>))) (agents_page_new, sample_server ip_db)
       = (p, sv)
     \<and> map ar_ip_address (t_agents (sv_db sv)) = [Some ''10.0.0.9'']"
proof -
  let ?row = "sample_agent\<lparr>ar_ip_address := Some ''10.0.0.9''\<rparr>"
  have rows: "t_agents (sv_db (sample_server ip_db)) = [?row]"
    by (simp add: sample_server_def ip_db_def register_ip_def tree_db_def update_where_def sample_agent_def)
  then have "row_by_id ar_id (t_agents (sv_db (sample_server ip_db))) (Some 1) = Some ?row"
    by (simp add: row_by_id_def sample_agent_def)
  note c = clear_ip_no_effect [OF sample_server_ok [OF ip_db_ok] sample_auth this]
  obtain p sv where h: "handle_clear_ip sample_env (Some ''Basic dTpw'') True (agent_entries (deserialize_agent ?row))
      (agents_page_new, sample_server ip_db) = (p, sv)" by fastforce
  from c [OF h] rows have "map ar_ip_address (t_agents (sv_db sv)) = [Some ''10.0.0.9'']" by simp
  with h show ?thesis by (intro exI [of _ p] exI [of _ sv] conjI)
qed

definition token_env :: "string \<Rightarrow> env" where
  "token_env t = sample_env\<lparr>e_token := t, e_hash := (\<lambda>s. s), e_compare := (=)\<rparr>"

theorem token_banners_witness:
  "\<exists>p1 sv1 ag p2 sv2. handle_save_agent (token_env ''t1'') (Some ''Basic dTpw'')
       ((open_create agents_page_new)\<lparr>ag_name := ''n''\<rparr>, sample_server tree_db) = (p1, sv1)
     \<and> handle_rotate (token_env ''t2'') (Some ''Basic dTpw'') True ag (p1, sv1) = (p2, sv2)
     \<and> ag_created p2 = Some (''n'', ''t1'') \<and> ag_rotated p2 = Some (''n'', ''t2'')
     \<and> authenticate (=) (sv_db sv2) ''n'' ''t1'' = None"
proof -
  let ?e1 = "token_env ''t1''" and ?e2 = "token_env ''t2''" and ?a = "Some ''Basic dTpw''"
  let ?p = "(open_create agents_page_new)\<lparr>ag_name := ''n''\<rparr>"
  have new: "ag_editing ?p = New" "ag_name ?p = ''n''" "ag_description ?p = []" by (simp_all add: open_create_def)
  have "''n'' \<notin> ar_name ` set (t_agents tree_db)" by (simp add: tree_db_def sample_agent_def)
  then obtain d ag t where c: "create_agent (e_hash ?e1) (e_clock ?e1) (e_token ?e1) (sv_db (sample_server tree_db)) (Some ''n'') (Some [])
      = Inr (d, ag, t)"
    by (simp add: create_agent_def Let_def sample_server_def)
  note answer = create_agent_answer [where e = ?e1, OF sample_auth c]
  from create_agent_Inr [OF c] have ag: "a_name ag = ''n''" "ag \<in> set (list_agents d)"
    by (auto simp: list_agents_def deserialize_agent_def)
  obtain p1 sv1 where s: "handle_save_agent ?e1 ?a (?p, sample_server tree_db) = (p1, sv1)" by fastforce
  have p1: "ag_editing p1 = Closed" "ag_agents p1 = map agent_entries (list_agents d)"
    using s sample_auth by (auto simp: handle_save_agent_def new agents_call_value [OF answer] close_modal_def load_agents_shows)
  obtain p2 sv2 where r: "handle_rotate ?e2 ?a True (agent_entries ag) (p1, sv1) = (p2, sv2)" by fastforce
  have "agent_entries ag \<in> set (ag_agents p1)" using p1(2) ag(2) by simp
  from token_banners [OF sample_server_ok [OF tree_db_ok] sample_auth new(1) s p1(1) r this]
  have "ag_created p2 = Some (''n'', ''t1'') \<and> ag_rotated p2 = Some (''n'', ''t2'')
      \<and> authenticate (=) (sv_db sv2) ''n'' ''t1'' = None"
    by (simp add: new ag(1) token_env_def)
  with s r show ?thesis by blast
qed


end
