(* ===== verification/Gui_Logs.thy ===== *)
theory Gui_Logs
  imports Answers
begin

text \<open>
  The pages that show the request log: \<open>pages/Logs.jsx\<close> with its filters, pages and the banner of new entries,
  \<open>components/DetailPanel.jsx\<close> with the bodies it fetches, and \<open>pages/Dashboard.jsx\<close> with its feed. The state of a
  page is the state of its hooks; a call under way is kept in a list of pending calls until it is answered.
\<close>

section \<open>The log page\<close>

record logs_page =
  lp_logs :: "json list"
  lp_filters :: "(string \<times> js_param) list"
  lp_agent_id :: string
  lp_selected :: "json option"
  lp_rule_entry :: "json option"
  lp_has_new :: bool
  lp_pending :: "(string \<times> js_param) list list"

definition fetch_params :: "logs_page \<Rightarrow> (string \<times> js_param) list" where
  "fetch_params p =
     (if lp_agent_id p \<noteq> [] then obj_put (lp_filters p) ''agent_id'' (PText (lp_agent_id p)) else lp_filters p)"

definition fetch_logs :: "logs_page \<Rightarrow> logs_page" where
  "fetch_logs p = p\<lparr>lp_pending := lp_pending p @ [fetch_params p]\<rparr>"

definition logs_mount :: logs_page where
  "logs_mount = fetch_logs
     \<lparr>lp_logs = [], lp_filters = [(''limit'', PNum 50), (''offset'', PNum 0)], lp_agent_id = [], lp_selected = None,
      lp_rule_entry = None, lp_has_new = False, lp_pending = []\<rparr>"

definition param_num :: "(string \<times> js_param) list \<Rightarrow> string \<Rightarrow> int" where
  "param_num ps k = (case map_of ps k of Some (PNum i) \<Rightarrow> i | _ \<Rightarrow> 0)"

abbreviation offset_of :: "logs_page \<Rightarrow> int" where "offset_of p \<equiv> param_num (lp_filters p) ''offset''"
abbreviation limit_of :: "logs_page \<Rightarrow> int" where "limit_of p \<equiv> param_num (lp_filters p) ''limit''"

definition set_offset :: "int \<Rightarrow> logs_page \<Rightarrow> logs_page" where
  "set_offset n p = p\<lparr>lp_filters := obj_put (lp_filters p) ''offset'' (PNum n)\<rparr>"

text \<open>Every \<open>setFilters\<close> makes a new object and with it a new \<open>fetchLogs\<close>, which the effect then calls.\<close>

definition update_filter :: "string \<Rightarrow> string \<Rightarrow> logs_page \<Rightarrow> logs_page" where
  "update_filter key value p = fetch_logs (p\<lparr>lp_filters :=
     obj_put (obj_put (lp_filters p) ''offset'' (PNum 0)) key (if value = [] then PUndefined else PText value)\<rparr>)"

definition set_agent_id :: "string \<Rightarrow> logs_page \<Rightarrow> logs_page" where
  "set_agent_id v p = (if v = lp_agent_id p then p else fetch_logs (p\<lparr>lp_agent_id := v\<rparr>))"

definition refresh_banner :: "logs_page \<Rightarrow> logs_page" where
  "refresh_banner p = fetch_logs ((set_offset 0 p)\<lparr>lp_has_new := False\<rparr>)"

definition prev_disabled :: "logs_page \<Rightarrow> bool" where
  "prev_disabled p \<longleftrightarrow> offset_of p = 0"

definition next_disabled :: "logs_page \<Rightarrow> bool" where
  "next_disabled p \<longleftrightarrow> int (length (lp_logs p)) < limit_of p"

definition press_prev :: "logs_page \<Rightarrow> logs_page" where
  "press_prev p = (if prev_disabled p then p else fetch_logs (set_offset (offset_of p - limit_of p) p))"

definition press_next :: "logs_page \<Rightarrow> logs_page" where
  "press_next p = (if next_disabled p then p else fetch_logs (set_offset (offset_of p + limit_of p) p))"

definition on_log_event :: "string \<Rightarrow> logs_page \<Rightarrow> logs_page" where
  "on_log_event event_type p =
     (if event_type = ''request.allowed'' \<or> event_type = ''request.blocked'' then p\<lparr>lp_has_new := True\<rparr> else p)"

definition pagination_info :: "logs_page \<Rightarrow> string" where
  "pagination_info p =
     (if lp_logs p \<noteq> []
      then show_int (offset_of p + 1) @ ''-'' @ show_int (offset_of p + int (length (lp_logs p))) else ''0'') @ '' entries''"

text \<open>An answer to the n-th call under way: \<open>setLogs\<close>, or nothing when the call threw.\<close>

definition logs_answer :: "env \<Rightarrow> string option \<Rightarrow> server \<Rightarrow> (string \<times> js_param) list \<Rightarrow> json list option" where
  "logs_answer e a sv ps = (case api e a (CGetLogs ps) sv of Some (_, Value (JArr vs)) \<Rightarrow> Some vs | _ \<Rightarrow> None)"

definition logs_answered :: "env \<Rightarrow> string option \<Rightarrow> server \<Rightarrow> nat \<Rightarrow> logs_page \<Rightarrow> logs_page" where
  "logs_answered e a sv n p =
     (if n < length (lp_pending p)
      then p\<lparr>lp_pending := take n (lp_pending p) @ drop (Suc n) (lp_pending p),
             lp_logs := (case logs_answer e a sv (lp_pending p ! n) of None \<Rightarrow> lp_logs p | Some vs \<Rightarrow> vs)\<rparr>
      else p)"

text \<open>All calls under way are answered in order.\<close>

definition logs_settle :: "env \<Rightarrow> string option \<Rightarrow> server \<Rightarrow> logs_page \<Rightarrow> logs_page" where
  "logs_settle e a sv p = foldl (\<lambda>p _. logs_answered e a sv 0 p) p (lp_pending p)"

datatype logs_action =
    ActFilter string string | ActAgent string | ActRefresh | ActPrev | ActNext | ActEvent string
  | ActSelect "json option" | ActRule "json option" | ActAnswer server nat

text \<open>The filters of the page are \<open>decision\<close>, \<open>method\<close> and \<open>url\<close>.\<close>

fun logs_step :: "env \<Rightarrow> string option \<Rightarrow> logs_action \<Rightarrow> logs_page \<Rightarrow> logs_page" where
  "logs_step e a (ActFilter k v) p = (if k \<in> {''decision'', ''method'', ''url''} then update_filter k v p else p)"
| "logs_step e a (ActAgent v) p = set_agent_id v p"
| "logs_step e a ActRefresh p = refresh_banner p"
| "logs_step e a ActPrev p = press_prev p"
| "logs_step e a ActNext p = press_next p"
| "logs_step e a (ActEvent t) p = on_log_event t p"
| "logs_step e a (ActSelect entry) p = p\<lparr>lp_selected := entry\<rparr>"
| "logs_step e a (ActRule entry) p = p\<lparr>lp_rule_entry := entry\<rparr>"
| "logs_step e a (ActAnswer sv n) p = logs_answered e a sv n p"

text \<open>
  The link of a selection: \<open>handleSelect\<close> writes the id of the entry into the URL; a page opened with such a URL asks for
  the entry and selects what it gets. The parameter is a number in the links the pages make.
\<close>

definition entry_link :: "json option \<Rightarrow> string option" where
  "entry_link entry =
     (case entry of Some (JObj kvs) \<Rightarrow> (case obj_get kvs ''id'' of Some (JNum i) \<Rightarrow> Some (show_int i) | _ \<Rightarrow> None) | _ \<Rightarrow> None)"

definition handle_select :: "json option \<Rightarrow> logs_page \<Rightarrow> logs_page \<times> string option" where
  "handle_select entry p = (p\<lparr>lp_selected := entry\<rparr>, entry_link entry)"

definition open_link :: "env \<Rightarrow> string option \<Rightarrow> server \<Rightarrow> string option \<Rightarrow> logs_page \<Rightarrow> logs_page" where
  "open_link e a sv link p =
     (case Option.bind link to_number of
        None \<Rightarrow> p
      | Some i \<Rightarrow> (case api e a (CGetLog i) sv of Some (_, Value v) \<Rightarrow> p\<lparr>lp_selected := Some v\<rparr> | _ \<Rightarrow> p))"

definition logs_create_rule :: "env \<Rightarrow> string option \<Rightarrow> rule_input \<Rightarrow> logs_page \<times> server \<Rightarrow> logs_page \<times> server" where
  "logs_create_rule e a rule = (\<lambda>(p, sv).
     (case api e a (CCreateRule rule) sv of
        None \<Rightarrow> (p, sv)
      | Some (sv', Value _) \<Rightarrow> (p\<lparr>lp_rule_entry := None\<rparr>, sv')
      | Some (sv', _) \<Rightarrow> (p, sv')))"

section \<open>The detail panel\<close>

datatype panel_tab = TabInfo | TabRequest | TabResponse

record panel =
  dp_entry :: "int option"
  dp_tab :: panel_tab
  dp_request :: "string option"
  dp_response :: "string option"
  dp_pending :: "(int \<times> body_field) list"

definition panel_new :: panel where
  "panel_new = \<lparr>dp_entry = None, dp_tab = TabInfo, dp_request = None, dp_response = None, dp_pending = []\<rparr>"

text \<open>Of an entry the panel shows, when they are there, a status, a duration, the name of a rule and a reason.\<close>

definition panel_lines :: "object \<Rightarrow> string list" where
  "panel_lines entry = filter (\<lambda>k. truthy (obj_get entry k)) [''status_code'', ''duration_ms'', ''matched_rule'', ''reason'']"

text \<open>The second effect: the body of the open tab is fetched unless there is one.\<close>

definition panel_fetch :: "panel \<Rightarrow> panel" where
  "panel_fetch p =
     (case dp_entry p of
        None \<Rightarrow> p
      | Some i \<Rightarrow>
          p\<lparr>dp_pending := dp_pending p
             @ (if dp_tab p = TabRequest \<and> dp_request p = None then [(i, RequestBodyRef)] else [])
             @ (if dp_tab p = TabResponse \<and> dp_response p = None then [(i, ResponseBodyRef)] else [])\<rparr>)"

definition panel_reset :: "panel \<Rightarrow> panel" where
  "panel_reset p = p\<lparr>dp_tab := TabInfo, dp_request := None, dp_response := None\<rparr>"

text \<open>
  A new entry: both effects run, the second with the values of the render before the reset; the changes of the
  reset run it once more. The same entry in a new object only runs the second effect.
\<close>

definition panel_show :: "int option \<Rightarrow> panel \<Rightarrow> panel" where
  "panel_show entry p =
     (if entry = dp_entry p then panel_fetch p else panel_fetch (panel_reset (panel_fetch (p\<lparr>dp_entry := entry\<rparr>))))"

definition panel_open_tab :: "panel_tab \<Rightarrow> panel \<Rightarrow> panel" where
  "panel_open_tab t p = (if t = dp_tab p then p else panel_fetch (p\<lparr>dp_tab := t\<rparr>))"

text \<open>An answer, \<open>''\<close> after an error, is stored for whatever entry is shown.\<close>

definition panel_answered :: "(int \<Rightarrow> body_field \<Rightarrow> string option) \<Rightarrow> nat \<Rightarrow> panel \<Rightarrow> panel" where
  "panel_answered body n p =
     (if n < length (dp_pending p)
      then
        (let (i, k) = dp_pending p ! n; v = or_else (body i k) [];
             q = p\<lparr>dp_pending := take n (dp_pending p) @ drop (Suc n) (dp_pending p)\<rparr>
         in case k of
              RequestBodyRef \<Rightarrow> if dp_request q = Some v then q else panel_fetch (q\<lparr>dp_request := Some v\<rparr>)
            | ResponseBodyRef \<Rightarrow> if dp_response q = Some v then q else panel_fetch (q\<lparr>dp_response := Some v\<rparr>))
      else p)"

text \<open>
  \<open>requestRaw\<close>: the text of the response, decoded from UTF-8 without a byte order mark, or an error as in \<open>request\<close>;
  \<open>panel_body\<close> is what a call of the panel gives, \<open>None\<close> when it throws.
\<close>

datatype raw_result = RawAuthErr | RawHttpErr nat "json option" | RawText string

definition body_text :: "8 word list \<Rightarrow> string" where
  "body_text bs = to_utf8 (map (\<lambda>b. char_of (unat b)) (if take 3 bs = [239, 187, 191] then drop 3 bs else bs))"

definition raw_answer :: "response \<Rightarrow> raw_result" where
  "raw_answer r =
     (if rs_status r = 401 then RawAuthErr
      else if \<not> response_ok r then RawHttpErr (rs_status r) (case rs_body r of Json v \<Rightarrow> Some v | _ \<Rightarrow> None)
      else RawText (case rs_body r of Bytes bs \<Rightarrow> body_text bs | Json v \<Rightarrow> stringify v | _ \<Rightarrow> []))"

definition body_call :: "body_field \<Rightarrow> int \<Rightarrow> api_call" where
  "body_call k i = (case k of RequestBodyRef \<Rightarrow> CGetRequestBody i | ResponseBodyRef \<Rightarrow> CGetResponseBody i)"

definition panel_body :: "env \<Rightarrow> string option \<Rightarrow> server \<Rightarrow> int \<Rightarrow> body_field \<Rightarrow> string option" where
  "panel_body e a sv i k =
     (case handle_request e a (call_request (body_call k i)) sv of
        None \<Rightarrow> None
      | Some (_, r) \<Rightarrow> (case raw_answer r of RawText s \<Rightarrow> Some s | _ \<Rightarrow> None))"

definition body_of :: "body_field \<Rightarrow> panel \<Rightarrow> string option" where
  "body_of k p = (case k of RequestBodyRef \<Rightarrow> dp_request p | ResponseBodyRef \<Rightarrow> dp_response p)"

definition tab_of :: "body_field \<Rightarrow> panel_tab" where
  "tab_of k = (case k of RequestBodyRef \<Rightarrow> TabRequest | ResponseBodyRef \<Rightarrow> TabResponse)"

section \<open>Time stamps\<close>

text \<open>
  \<open>parseUTC\<close>: milliseconds, \<open>None\<close> for an invalid date; \<open>date_parse\<close> is the date parser of the browser on the text
  it is given.
\<close>

definition ends_with_offset :: "string \<Rightarrow> bool" where
  "ends_with_offset s \<longleftrightarrow>
     (case rev s of
        m2 # m1 # c # h2 # h1 # sign # _ \<Rightarrow>
          is_digit m1 \<and> is_digit m2 \<and> c = CHR '':'' \<and> is_digit h1 \<and> is_digit h2 \<and> (sign = CHR ''+'' \<or> sign = CHR ''-'')
      | _ \<Rightarrow> False)"

definition blank_to_t :: "string \<Rightarrow> string" where
  "blank_to_t s =
     (if CHR '' '' \<in> set s
      then takeWhile (\<lambda>c. c \<noteq> CHR '' '') s @ CHR ''T'' # drop 1 (dropWhile (\<lambda>c. c \<noteq> CHR '' '') s) else s)"

definition parse_utc :: "(string \<Rightarrow> int option) \<Rightarrow> string \<Rightarrow> int option" where
  "parse_utc date_parse timestamp =
     (if timestamp = [] then Some 0
      else if last timestamp = CHR ''Z'' \<or> ends_with_offset timestamp then date_parse timestamp
      else date_parse (blank_to_t timestamp @ ''Z''))"

definition time_ago :: "(string \<Rightarrow> int option) \<Rightarrow> int \<Rightarrow> string \<Rightarrow> string" where
  "time_ago date_parse now timestamp =
     (if timestamp = [] then ''now''
      else
        (case parse_utc date_parse timestamp of
           None \<Rightarrow> ''NaNh ago''
         | Some t \<Rightarrow>
             (let seconds = (now - t) div 1000; minutes = seconds div 60; hours = minutes div 60 in
              if seconds < 60 then show_int seconds @ ''s ago''
              else if minutes < 60 then show_int minutes @ ''m ago''
              else show_int hours @ ''h ago'')))"

definition format_uptime :: "int option \<Rightarrow> string" where
  "format_uptime ms =
     (case ms of
        None \<Rightarrow> ''< 1m''
      | Some t \<Rightarrow>
          if t < 60000 then ''< 1m''
          else
            (let minutes = t div 60000; hours = minutes div 60; rem = minutes mod 60 in
             if minutes < 60 then show_int minutes @ ''m''
             else if 0 < rem then show_int hours @ ''h '' @ show_int rem @ ''m''
             else show_int hours @ ''h''))"

section \<open>The dashboard\<close>

record dashboard =
  ds_status :: "json option"
  ds_recent :: "object list"
  ds_pending :: nat

definition dashboard_new :: dashboard where
  "dashboard_new = \<lparr>ds_status = None, ds_recent = [], ds_pending = 0\<rparr>"

text \<open>The three answers the page asks for when it is shown.\<close>

definition dashboard_load :: "json \<Rightarrow> json list \<Rightarrow> json list \<Rightarrow> dashboard \<Rightarrow> dashboard" where
  "dashboard_load status logs approvals d =
     d\<lparr>ds_status := Some status, ds_recent := objects_of logs, ds_pending := length approvals\<rparr>"

definition feed_entry :: "string \<Rightarrow> json \<Rightarrow> object" where
  "feed_entry event_type data = obj_put (case data of JObj kvs \<Rightarrow> kvs | _ \<Rightarrow> []) ''_event'' (JStr event_type)"

definition on_feed_event :: "string \<Rightarrow> json \<Rightarrow> dashboard \<Rightarrow> dashboard" where
  "on_feed_event event_type data d = d\<lparr>ds_recent := take 20 (feed_entry event_type data # ds_recent d)\<rparr>"

definition get_decision :: "object \<Rightarrow> json" where
  "get_decision r =
     (if truthy (obj_get r ''decision'') then the (obj_get r ''decision'')
      else if obj_get r ''_event'' = Some (JStr ''request.allowed'') then JStr ''allowed''
      else if obj_get r ''_event'' = Some (JStr ''request.blocked'') then JStr ''denied''
      else JStr ''held'')"

section \<open>Filters and pages\<close>

definition params_filter :: "(string \<times> js_param) list \<Rightarrow> log_filter" where
  "params_filter ps =
     query_filter \<lparr>lq_text = param_get ps, lq_limit = param_get ps ''limit'', lq_offset = param_get ps ''offset''\<rparr>"

definition shown_rows :: "server \<Rightarrow> (string \<times> js_param) list \<Rightarrow> json list" where
  "shown_rows sv ps = map log_json (query_log (sv_db sv) (params_filter ps))"

lemma logs_answer_rows: "basic_auth (sv_auth sv) a \<Longrightarrow> logs_answer e a sv ps = Some (shown_rows sv ps)"
  by (simp add: logs_answer_def api_def handle_request_def get_logs_def client_answer_def response_ok_def reply_def
      shown_rows_def params_filter_def)

lemma logs_settle_last:
  assumes "basic_auth (sv_auth sv) a"
  shows "logs_settle e a sv p = p\<lparr>lp_pending := [],
     lp_logs := (if lp_pending p = [] then lp_logs p else shown_rows sv (last (lp_pending p)))\<rparr>"
proof -
  have "foldl (\<lambda>p _. logs_answered e a sv 0 p) p xs = p\<lparr>lp_pending := [],
     lp_logs := (if lp_pending p = [] then lp_logs p else shown_rows sv (last (lp_pending p)))\<rparr>"
    if "lp_pending p = xs" for xs
    using that
  proof (induction xs arbitrary: p)
    case (Cons ps xs)
    have one: "logs_answered e a sv 0 p = p\<lparr>lp_pending := xs, lp_logs := shown_rows sv ps\<rparr>"
      by (simp add: logs_answered_def Cons.prems logs_answer_rows [OF assms])
    show ?case using Cons.prems Cons.IH [of "p\<lparr>lp_pending := xs, lp_logs := shown_rows sv ps\<rparr>"] by (simp add: one)
  qed simp
  then show ?thesis by (simp add: logs_settle_def)
qed

lemma settled_fetch:
  "basic_auth (sv_auth sv) a \<Longrightarrow> lp_logs (logs_settle e a sv (fetch_logs p)) = shown_rows sv (fetch_params p)"
  "basic_auth (sv_auth sv) a \<Longrightarrow> lp_filters (logs_settle e a sv (fetch_logs p)) = lp_filters p"
  "basic_auth (sv_auth sv) a \<Longrightarrow> lp_agent_id (logs_settle e a sv (fetch_logs p)) = lp_agent_id p"
  "basic_auth (sv_auth sv) a \<Longrightarrow> lp_pending (logs_settle e a sv (fetch_logs p)) = []"
  by (simp_all add: logs_settle_last fetch_logs_def)

lemma param_get_put: "param_get (obj_put ps k v) k' = (if k' = k then Some (param_text v) else param_get ps k')"
  by (simp add: param_get_def map_of_obj_put)

lemma fetch_params_get:
  "param_get (fetch_params p) k =
     (if k = ''agent_id'' \<and> lp_agent_id p \<noteq> [] then Some (lp_agent_id p) else param_get (lp_filters p) k)"
  by (simp add: fetch_params_def param_get_put)

text \<open>
  Choosing \<open>All\<close> hides everything: the filter becomes undefined, which the browser writes into the URL as the text
  \<open>undefined\<close>; the server takes it for a decision, and since no entry has it the page shows nothing, with every
  content of the log; the same for any page from which the filter is cleared.
\<close>

theorem clear_filter_hides_all:
  assumes "server_ok sv" "basic_auth (sv_auth sv) a"
  shows "lp_logs (logs_settle e a sv (update_filter ''decision'' [] p)) = []
    \<and> pagination_info (logs_settle e a sv (update_filter ''decision'' [] p)) = ''0 entries''"
proof -
  let ?p = "p\<lparr>lp_filters := obj_put (obj_put (lp_filters p) ''offset'' (PNum 0)) ''decision'' PUndefined\<rparr>"
  have u: "update_filter ''decision'' [] p = fetch_logs ?p" by (simp add: update_filter_def)
  have d: "lf_decision (params_filter (fetch_params ?p)) = Some ''undefined''"
    by (simp add: params_filter_def query_filter_def nonempty_def given_def fetch_params_get param_get_put)
  have "\<not> filter_row (params_filter (fetch_params ?p)) r" if "r \<in> set (t_log (sv_db sv))" for r
    using assms(1) that
    by (auto simp: filter_row_def d cond_def server_ok_def db_ok_def log_ok_def log_check_def)
  then have "filter (filter_row (params_filter (fetch_params ?p))) (t_log (sv_db sv)) = []" by (simp add: filter_empty_conv)
  then have "shown_rows sv (fetch_params ?p) = []"
    by (simp add: shown_rows_def query_log_def order_desc_def sql_page_def Let_def)
  then show ?thesis using settled_fetch(1) [OF assms(2), of e ?p] by (simp add: u pagination_info_def)
qed

lemma obj_put_put: "obj_put (obj_put kvs k v) k w = obj_put kvs k w"
  by (induction kvs k v rule: obj_put.induct) simp_all

text \<open>The page a position in the list of all accepted entries stands for.\<close>

definition aligned :: "(string \<times> js_param) list \<Rightarrow> bool" where
  "aligned ps \<longleftrightarrow> map_of ps ''limit'' = Some (PNum 50) \<and> (\<exists>k. map_of ps ''offset'' = Some (PNum (50 * int k)))"

definition page_ok :: "logs_page \<Rightarrow> bool" where
  "page_ok p \<longleftrightarrow> aligned (lp_filters p) \<and> (\<forall>ps \<in> set (lp_pending p). aligned ps)"

lemma aligned_put [simp]: "k \<notin> {''limit'', ''offset''} \<Longrightarrow> aligned ps \<Longrightarrow> aligned (obj_put ps k v)"
  by (auto simp: aligned_def map_of_obj_put)

lemma aligned_offset: "aligned ps \<Longrightarrow> aligned (obj_put ps ''offset'' (PNum (50 * int k)))"
  by (auto simp: aligned_def map_of_obj_put)

lemma page_ok_fetch: "page_ok p \<Longrightarrow> page_ok (fetch_logs p)"
  by (auto simp: page_ok_def fetch_logs_def fetch_params_def)

lemma page_ok_set_offset: "page_ok p \<Longrightarrow> page_ok (set_offset (50 * int k) p)"
  by (auto simp: page_ok_def set_offset_def aligned_offset)

lemma page_numbers:
  assumes "page_ok p"
  obtains k where "offset_of p = 50 * int k" "limit_of p = 50"
  using assms by (auto simp: page_ok_def aligned_def param_num_def)

lemma logs_step_ok: "page_ok p \<Longrightarrow> page_ok (logs_step e a act p)"
proof (cases act)
  case (ActFilter k v)
  assume p: "page_ok p"
  have "aligned (obj_put (obj_put (lp_filters p) ''offset'' (PNum 0)) k w)" if "k \<in> {''decision'', ''method'', ''url''}" for w
    using aligned_offset [of "lp_filters p" 0] p that by (auto simp: page_ok_def)
  then show ?thesis using p page_ok_fetch by (auto simp: ActFilter update_filter_def page_ok_def fetch_logs_def fetch_params_def)
next
  case (ActAnswer sv n)
  assume "page_ok p"
  then show ?thesis by (auto simp: ActAnswer logs_answered_def page_ok_def dest: in_set_takeD in_set_dropD)
next
  case ActPrev
  assume p: "page_ok p"
  from page_numbers [OF p] obtain k where k: "offset_of p = 50 * int k" "limit_of p = 50" by blast
  show ?thesis
  proof (cases k)
    case 0
    then show ?thesis using p k by (simp add: ActPrev press_prev_def prev_disabled_def)
  next
    case (Suc j)
    then have "offset_of p - limit_of p = 50 * int j" using k by simp
    then show ?thesis using page_ok_fetch [OF page_ok_set_offset [OF p, of j]] p by (simp add: ActPrev press_prev_def)
  qed
next
  case ActNext
  assume p: "page_ok p"
  from page_numbers [OF p] obtain k where k: "offset_of p = 50 * int k" "limit_of p = 50" by blast
  then have "offset_of p + limit_of p = 50 * int (Suc k)" by simp
  then show ?thesis using page_ok_fetch [OF page_ok_set_offset [OF p, of "Suc k"]] p
    by (simp add: ActNext press_next_def del: of_nat_Suc)
next
  case ActRefresh
  assume p: "page_ok p"
  have "page_ok ((set_offset 0 p)\<lparr>lp_has_new := False\<rparr>)" using page_ok_set_offset [OF p, of 0] by (simp add: page_ok_def)
  then show ?thesis by (simp add: ActRefresh refresh_banner_def page_ok_fetch)
next
  case (ActAgent v)
  assume p: "page_ok p"
  then have "page_ok (p\<lparr>lp_agent_id := v\<rparr>)" by (simp add: page_ok_def)
  then show ?thesis using p by (simp add: ActAgent set_agent_id_def page_ok_fetch)
qed (simp_all add: on_log_event_def page_ok_def)

interpretation logs_machine: free_machine "\<lambda>p act. logs_step e a act p" page_ok
  by unfold_locales (rule logs_step_ok)

definition logs_run :: "env \<Rightarrow> string option \<Rightarrow> logs_action list \<Rightarrow> logs_page" where
  "logs_run e a acts = foldl (\<lambda>p act. logs_step e a act p) logs_mount acts"

text \<open>
  Pages stay aligned: whatever the user does, whatever events and answers come and in whatever order, the page
  is one of 50 entries that starts at a multiple of 50 and never before 0, and every call under way asks for
  such a page.
\<close>

theorem pages_aligned:
  "limit_of (logs_run e a acts) = 50 \<and> (\<exists>k. offset_of (logs_run e a acts) = 50 * int k)
    \<and> (\<forall>ps \<in> set (lp_pending (logs_run e a acts)).
         param_get ps ''limit'' = Some ''50'' \<and> (\<exists>k. param_get ps ''offset'' = Some (show_nat (50 * k))))"
proof -
  have "page_ok logs_mount"
    unfolding logs_mount_def by (rule page_ok_fetch) (auto simp: page_ok_def aligned_def intro: exI [of _ 0])
  then have ok: "page_ok (logs_run e a acts)" unfolding logs_run_def by (rule logs_machine.good_always)
  have "show_int 50 = ''50''" by code_simp
  moreover have "show_int (50 * int k) = show_nat (50 * k)" for k by (simp add: show_int_def nat_mult_distrib)
  ultimately have "param_get ps ''limit'' = Some ''50'' \<and> (\<exists>k. param_get ps ''offset'' = Some (show_nat (50 * k)))" if "aligned ps" for ps
    using that by (auto simp: aligned_def param_get_def)
  then show ?thesis using ok page_numbers [OF ok] unfolding page_ok_def by metis
qed

section \<open>Selecting\<close>

text \<open>
  A selection survives a reload: the link of any row the page shows, opened again while the entry is in the log, selects
  the same row. And the panel shows of it neither the status nor the rule nor the reason, which entries of the log do not
  have under the names it looks for.
\<close>

theorem selection_survives_reload:
  assumes "server_ok sv" "basic_auth (sv_auth sv) a" "row \<in> set (shown_rows sv ps)" "handle_select (Some row) p = (p1, link)"
  shows "lp_selected (open_link e a sv link logs_mount) = Some row \<and> lp_selected p1 = Some row
    \<and> (\<exists>kvs. row = JObj kvs \<and> set (panel_lines kvs) \<subseteq> {''duration_ms''})"
proof -
  obtain l where l: "l \<in> set (t_log (sv_db sv))" "row = log_json l"
    using assms(3) by (auto simp: shown_rows_def query_log_def sql_page_def Let_def dest!: in_set_takeD in_set_dropD split: if_splits)
  have get: "get_log (sv_db sv) (Some (lr_id l)) = Some l"
    using row_by_id_mem [OF log_table_ok [OF server_db_ok [OF assms(1)]] l(1)] by (simp add: get_log_def)
  have "entry_link (Some row) = Some (show_int (lr_id l))" by (simp add: entry_link_def l(2) log_json_def obj_get_def)
  then have link: "link = Some (show_int (lr_id l))" and p1: "p1 = p\<lparr>lp_selected := Some row\<rparr>"
    using assms(4) by (simp_all add: handle_select_def)
  have "api e a (CGetLog (lr_id l)) sv = Some (sv, Value row)"
    using assms(2) by (simp add: api_def handle_request_def get_log_by_id_def get l(2) client_answer_def reply_def response_ok_def)
  then have "lp_selected (open_link e a sv link logs_mount) = Some row" by (simp add: open_link_def link to_number_show_int)
  moreover obtain kvs where "row = JObj kvs" "set (panel_lines kvs) \<subseteq> {''duration_ms''}"
  proof -
    have "\<exists>kvs. log_json l = JObj kvs \<and> set (panel_lines kvs) \<subseteq> {''duration_ms''}"
      by (simp add: log_json_def panel_lines_def obj_get_def truthy_def)
    then show thesis using that l(2) by auto
  qed
  ultimately show ?thesis by (simp add: p1)
qed

section \<open>Browsing\<close>

definition matching :: "server \<Rightarrow> logs_page \<Rightarrow> log_row list" where
  "matching sv p = rev (filter (filter_row (params_filter (fetch_params p))) (t_log (sv_db sv)))"

text \<open>The page after k times Next, each time with the answer awaited.\<close>

definition visit :: "env \<Rightarrow> string option \<Rightarrow> server \<Rightarrow> logs_page \<Rightarrow> nat \<Rightarrow> logs_page" where
  "visit e a sv p k = ((\<lambda>p. logs_settle e a sv (press_next p)) ^^ k) (logs_settle e a sv (refresh_banner p))"

definition on_page :: "server \<Rightarrow> logs_page \<Rightarrow> nat \<Rightarrow> logs_page \<Rightarrow> bool" where
  "on_page sv p k q \<longleftrightarrow>
     lp_pending q = [] \<and> lp_agent_id q = lp_agent_id p
     \<and> lp_filters q = obj_put (lp_filters p) ''offset'' (PNum (50 * int k))
     \<and> lp_logs q = map log_json (take 50 (drop (50 * k) (matching sv p)))"

lemma params_filter_page:
  assumes "map_of (lp_filters p) ''limit'' = Some (PNum 50)"
  shows "params_filter (fetch_params (set_offset (50 * int k) p)) = page_filter (params_filter (fetch_params p)) 50 k"
proof -
  have l: "int_or 50 (Some (show_int 50)) = 50" by code_simp
  have "show_int (50 * int k) = show_nat (50 * k)" by (simp add: show_int_def nat_mult_distrib)
  then have off: "int_or 0 (Some (show_int (50 * int k))) = 50 * int k" by (simp add: int_or_def parse_int_show_nat)
  have g: "param_get (fetch_params (set_offset n p)) key = (if key = ''offset'' then Some (show_int n) else param_get (fetch_params p) key)"
    for n key by (simp add: fetch_params_get set_offset_def param_get_put)
  have lim: "param_get (fetch_params p) ''limit'' = Some (show_int 50)"
    by (simp add: fetch_params_get) (simp add: param_get_def assms)
  show ?thesis by (simp add: params_filter_def query_filter_def page_filter_def g lim l off)
qed

lemma on_page_fetch:
  assumes "server_ok sv" "basic_auth (sv_auth sv) a" "map_of (lp_filters p) ''limit'' = Some (PNum 50)"
    and "lp_agent_id q = lp_agent_id p" "lp_filters q = obj_put (lp_filters p) ''offset'' (PNum (50 * int k))"
  shows "on_page sv p k (logs_settle e a sv (fetch_logs q))"
proof -
  have "fetch_params q = fetch_params (set_offset (50 * int k) p)"
    using assms(4,5) by (simp add: fetch_params_def set_offset_def)
  then have "params_filter (fetch_params q) = page_filter (params_filter (fetch_params p)) 50 k"
    using params_filter_page [OF assms(3)] by simp
  moreover have "db_ok (sv_db sv)" using assms(1) by (simp add: server_ok_def)
  ultimately have "shown_rows sv (fetch_params q) = map log_json (take 50 (drop (50 * k) (matching sv p)))"
    by (simp add: shown_rows_def query_page matching_def mult.commute)
  then show ?thesis using assms(4,5) by (simp add: on_page_def settled_fetch [OF assms(2)])
qed

lemma on_page_next:
  assumes "on_page sv p k q" "map_of (lp_filters p) ''limit'' = Some (PNum 50)"
  shows "next_disabled q \<longleftrightarrow> length (matching sv p) < 50 * Suc k"
proof -
  have "limit_of q = 50" using assms by (simp add: on_page_def param_num_def map_of_obj_put)
  moreover have "length (lp_logs q) = min 50 (length (matching sv p) - 50 * k)" using assms(1) by (simp add: on_page_def)
  ultimately show ?thesis by (auto simp: next_disabled_def)
qed

lemma visit_on_page:
  assumes "server_ok sv" "basic_auth (sv_auth sv) a" "map_of (lp_filters p) ''limit'' = Some (PNum 50)"
    and "50 * k \<le> length (matching sv p)"
  shows "on_page sv p k (visit e a sv p k)"
  using assms(4)
proof (induction k)
  case 0
  show ?case
    unfolding visit_def refresh_banner_def funpow_0
    by (rule on_page_fetch [OF assms(1,2,3)]) (simp_all add: set_offset_def)
next
  case (Suc k)
  then have on: "on_page sv p k (visit e a sv p k)" by simp
  have "\<not> next_disabled (visit e a sv p k)" using on_page_next [OF on assms(3)] Suc.prems by simp
  moreover have "limit_of (visit e a sv p k) = 50" "offset_of (visit e a sv p k) = 50 * int k"
    using on assms(3) by (simp_all add: on_page_def param_num_def map_of_obj_put)
  ultimately have "press_next (visit e a sv p k) = fetch_logs (set_offset (50 * int (Suc k)) (visit e a sv p k))"
    by (simp add: press_next_def algebra_simps)
  moreover have "visit e a sv p (Suc k) = logs_settle e a sv (press_next (visit e a sv p k))" by (simp add: visit_def)
  ultimately show ?case
    using on on_page_fetch [OF assms(1,2,3), of "set_offset (50 * int (Suc k)) (visit e a sv p k)" "Suc k"]
    by (simp add: on_page_def set_offset_def obj_put_put)
qed

text \<open>
  C25: Browsing shows everything: from the first page, with the answers awaited, Next can be pressed exactly as often
  as the number of matching entries divided by 50, and the pages seen on the way, put together, are all entries
  the filters accept, each once, the newest first.
\<close>

theorem browsing_complete:
  assumes "server_ok sv" "basic_auth (sv_auth sv) a" "page_ok p"
  defines "m \<equiv> length (matching sv p) div 50"
  shows "(\<forall>k < m. \<not> next_disabled (visit e a sv p k)) \<and> next_disabled (visit e a sv p m)
    \<and> concat (map (\<lambda>k. lp_logs (visit e a sv p k)) [0..<Suc m]) = map log_json (matching sv p)"
proof (intro conjI allI impI)
  have low: "50 * m \<le> length (matching sv p)" and high: "length (matching sv p) < 50 + 50 * m"
    unfolding m_def by (rule times_div_less_eq_dividend) (rule dividend_less_times_div, simp)
  have lim: "map_of (lp_filters p) ''limit'' = Some (PNum 50)" using assms(3) by (simp add: page_ok_def aligned_def)
  have on: "on_page sv p k (visit e a sv p k)" if "k \<le> m" for k
    using visit_on_page [OF assms(1,2) lim, of k e] that low by linarith
  show "\<not> next_disabled (visit e a sv p k)" if "k < m" for k
  proof -
    have "next_disabled (visit e a sv p k) \<longleftrightarrow> length (matching sv p) < 50 * Suc k"
      using on_page_next [OF on lim, of k] that by simp
    moreover have "50 * Suc k \<le> length (matching sv p)" using mult_le_mono2 [of "Suc k" m 50] that low by linarith
    ultimately show ?thesis by simp
  qed
  show "next_disabled (visit e a sv p m)"
  proof -
    have "next_disabled (visit e a sv p m) \<longleftrightarrow> length (matching sv p) < 50 * Suc m"
      using on_page_next [OF on lim, of m] by simp
    moreover have "length (matching sv p) < 50 * Suc m" using high by simp
    ultimately show ?thesis by simp
  qed
  have "map (\<lambda>k. lp_logs (visit e a sv p k)) [0..<Suc m]
      = map (\<lambda>k. take 50 (drop (k * 50) (map log_json (matching sv p)))) [0..<Suc m]"
  proof (rule map_cong [OF refl])
    fix k assume "k \<in> set [0..<Suc m]"
    then have "k \<le> m" by auto
    from on [OF this] show "lp_logs (visit e a sv p k) = take 50 (drop (k * 50) (map log_json (matching sv p)))"
      by (simp add: on_page_def take_map drop_map mult.commute)
  qed
  then have "concat (map (\<lambda>k. lp_logs (visit e a sv p k)) [0..<Suc m]) = take (Suc m * 50) (map log_json (matching sv p))"
    by (simp only: pages_concat)
  moreover have "length (map log_json (matching sv p)) \<le> Suc m * 50" using high by simp
  ultimately show "concat (map (\<lambda>k. lp_logs (visit e a sv p k)) [0..<Suc m]) = map log_json (matching sv p)" by simp
qed

text \<open>
  Answers out of order: when the user changes a filter twice and the second call is answered first, the page ends
  with the entries of the first filter under the second one, although no call is under way any more.
\<close>

theorem late_answer_wins:
  assumes "basic_auth (sv_auth sv) a" "lp_pending p = []" "p1 = update_filter k1 v1 p" "p2 = update_filter k2 v2 p1"
  shows "lp_logs (logs_answered e a sv 0 (logs_answered e a sv 1 p2)) = shown_rows sv (fetch_params p1)
    \<and> lp_pending (logs_answered e a sv 0 (logs_answered e a sv 1 p2)) = []
    \<and> lp_logs (logs_answered e a sv 0 (logs_answered e a sv 0 p2)) = shown_rows sv (fetch_params p2)"
proof -
  have "lp_pending p2 = [fetch_params p1, fetch_params p2]"
    by (simp add: assms(3,4) update_filter_def fetch_logs_def assms(2)) (simp add: fetch_params_def)
  then show ?thesis by (simp add: logs_answered_def logs_answer_rows [OF assms(1)])
qed

text \<open>
  The agent filter keeps the page: unlike the other filters it does not go back to the first page, so on a later
  page it can show nothing although entries of the agent exist.
\<close>

theorem agent_filter_keeps_page:
  assumes "server_ok sv" "basic_auth (sv_auth sv) a" "page_ok p" "v \<noteq> lp_agent_id p"
    and "int (length (matching sv (p\<lparr>lp_agent_id := v\<rparr>))) \<le> offset_of p"
  shows "lp_logs (logs_settle e a sv (set_agent_id v p)) = []"
proof -
  let ?q = "p\<lparr>lp_agent_id := v\<rparr>"
  from page_numbers [OF assms(3)] obtain k where k: "offset_of p = 50 * int k" by metis
  have lim: "map_of (lp_filters ?q) ''limit'' = Some (PNum 50)" using assms(3) by (simp add: page_ok_def aligned_def)
  have off: "map_of (lp_filters p) ''offset'' = Some (PNum (50 * int k))"
    using assms(3) k by (auto simp: page_ok_def aligned_def param_num_def)
  have same: "obj_put ps key x = ps" if "map_of ps key = Some x" for ps :: "(string \<times> js_param) list" and key x
    using that by (induction ps key x rule: obj_put.induct) (auto split: if_splits)
  have "on_page sv ?q k (logs_settle e a sv (fetch_logs ?q))"
    by (rule on_page_fetch [OF assms(1,2) lim]) (simp_all add: same [OF off])
  moreover have "set_agent_id v p = fetch_logs ?q" using assms(4) by (simp add: set_agent_id_def)
  moreover have "length (matching sv ?q) \<le> 50 * k" using assms(5) k by simp
  ultimately show ?thesis by (simp add: on_page_def)
qed

section \<open>Bodies\<close>

text \<open>Runs in which the entry is only changed while no call is under way.\<close>

inductive careful :: "(int \<Rightarrow> body_field \<Rightarrow> string option) \<Rightarrow> panel \<Rightarrow> bool" for body where
  new: "careful body panel_new"
| select: "careful body p \<Longrightarrow> dp_pending p = [] \<Longrightarrow> careful body (panel_show entry p)"
| tab: "careful body p \<Longrightarrow> careful body (panel_open_tab t p)"
| answer: "careful body p \<Longrightarrow> careful body (panel_answered body n p)"

definition own :: "(int \<Rightarrow> body_field \<Rightarrow> string option) \<Rightarrow> panel \<Rightarrow> bool" where
  "own body p \<longleftrightarrow>
     (\<forall>(i, k) \<in> set (dp_pending p). dp_entry p = Some i)
     \<and> (\<forall>v. dp_request p = Some v \<longrightarrow> (\<exists>i. dp_entry p = Some i \<and> v = or_else (body i RequestBodyRef) []))
     \<and> (\<forall>v. dp_response p = Some v \<longrightarrow> (\<exists>i. dp_entry p = Some i \<and> v = or_else (body i ResponseBodyRef) []))"

lemma own_fetch: "own body p \<Longrightarrow> own body (panel_fetch p)"
  by (auto simp: own_def panel_fetch_def split: option.splits)

lemma panel_fetch_fields [simp]:
  "dp_entry (panel_fetch p) = dp_entry p" "dp_tab (panel_fetch p) = dp_tab p"
  "dp_request (panel_fetch p) = dp_request p" "dp_response (panel_fetch p) = dp_response p"
  by (simp_all add: panel_fetch_def split: option.splits)

lemma own_show: "own body p \<Longrightarrow> dp_pending p = [] \<Longrightarrow> own body (panel_show entry p)"
proof -
  assume p: "own body p" "dp_pending p = []"
  have "own body (panel_reset (panel_fetch (p\<lparr>dp_entry := entry\<rparr>)))"
    using p(2) by (auto simp: own_def panel_reset_def panel_fetch_def split: option.splits if_splits)
  then show ?thesis using p own_fetch by (simp add: panel_show_def)
qed

lemma own_answered: "own body p \<Longrightarrow> own body (panel_answered body n p)"
proof (cases "n < length (dp_pending p)")
  case True
  assume p: "own body p"
  obtain i k where ik: "dp_pending p ! n = (i, k)" by force
  with True have "(i, k) \<in> set (dp_pending p)" by (metis nth_mem)
  with p have en: "dp_entry p = Some i" by (auto simp: own_def)
  let ?q = "p\<lparr>dp_pending := take n (dp_pending p) @ drop (Suc n) (dp_pending p)\<rparr>"
  have q: "own body ?q" using p by (auto simp: own_def dest!: in_set_takeD in_set_dropD)
  then have "own body (?q\<lparr>dp_request := Some (or_else (body i RequestBodyRef) [])\<rparr>)"
    "own body (?q\<lparr>dp_response := Some (or_else (body i ResponseBodyRef) [])\<rparr>)"
    using en by (simp_all add: own_def)
  then show ?thesis using True q own_fetch by (cases k) (simp_all add: panel_answered_def ik Let_def)
qed (simp add: panel_answered_def)

lemma careful_own: "careful body p \<Longrightarrow> own body p"
proof (induction rule: careful.induct)
  case new
  show ?case by (simp add: own_def panel_new_def)
next
  case (tab p t)
  then have "own body (p\<lparr>dp_tab := t\<rparr>)" by (simp add: own_def)
  then show ?case using tab own_fetch by (simp add: panel_open_tab_def)
qed (simp_all add: own_show own_answered)

lemma body_text_ascii:
  assumes "list_all (\<lambda>b. unat b < 128) bs"
  shows "body_text bs = map (\<lambda>b. char_of (unat b)) bs"
proof -
  have "take 3 bs \<noteq> [239, 187, 191]"
  proof
    assume "take 3 bs = [239, 187, 191]"
    then have "(239 :: 8 word) \<in> set bs" by (metis in_set_takeD list.set_intros(1))
    with assms show False by (auto simp: list_all_iff)
  qed
  moreover have "\<forall>c \<in> set (map (\<lambda>b. char_of (unat b)) bs). code c < 128"
    using assms by (auto simp: list_all_iff code_def)
  ultimately show ?thesis by (simp add: body_text_def to_utf8_ascii)
qed

lemma own_body: "own body p \<Longrightarrow> body_of k p = Some v \<Longrightarrow> \<exists>i. dp_entry p = Some i \<and> v = or_else (body i k) []"
  by (cases k) (auto simp: own_def body_of_def)

lemma panel_first_answer:
  assumes "body i k = Some v"
  shows "body_of k (panel_answered body 0 (panel_open_tab (tab_of k) (panel_show (Some i) panel_new))) = Some v"
  using assms
  by (cases k) (simp_all add: panel_show_def panel_fetch_def panel_reset_def panel_open_tab_def panel_answered_def panel_new_def
      tab_of_def body_of_def Let_def)

text \<open>
  C32: What the proxy logged is what the panel shows: when a body reference names a file, an offset and a length, and the bytes
  there are the record that the encryption of the body at that offset made, then the panel, opened on the entry, shows the
  text of exactly that body when its call is answered; and however it is used afterwards, as long as the entry is not
  changed during a call, it shows no other text for the entry.
\<close>

theorem logged_body_shown:
  assumes "basic_auth (sv_auth sv) a" "get_log (sv_db sv) (Some i) = Some l"
    and "ref_of k l = Some (file @ '':'' @ show_nat off @ '':'' @ show_nat (length rec))" "CHR '':'' \<notin> set file"
    and "field (sv_config sv) ''database'' ''path'' = Some (JStr db_path)" "sv_log_key sv = Some key"
    and "e_read_at e (body_path db_path file) (length rec) (int off) = Some rec"
    and "\<And>k n p c t. gcm_enc k n p = (c, t) \<Longrightarrow> length c = length p \<and> length t = 16 \<and> e_gcm_dec e k n c t = Some p"
    and "length nonce = 12" "encrypt_record (e_hkdf e) gcm_enc nonce (Some key) (int off) body = Inr rec"
  shows "body_of k (panel_answered (panel_body e a sv) 0 (panel_open_tab (tab_of k) (panel_show (Some i) panel_new)))
      = Some (body_text body)
    \<and> (\<forall>p v. careful (panel_body e a sv) p \<and> dp_entry p = Some i \<and> body_of k p = Some v \<longrightarrow> v = body_text body)"
proof -
  have call: "call_request (body_call k i) = GetBody (Some i) k" by (cases k) (simp_all add: body_call_def)
  have "handle_request e a (GetBody (Some i) k) sv = Some (sv, \<lparr>rs_status = 200, rs_challenge = False, rs_body = Bytes body\<rparr>)"
    by (rule logged_body_readable [OF assms(1-7) _ assms(9,10)]) (rule assms(8))
  then have b: "panel_body e a sv i k = Some (body_text body)"
    by (simp add: panel_body_def call raw_answer_def response_ok_def)
  have "v = body_text body" if "careful (panel_body e a sv) p" "dp_entry p = Some i" "body_of k p = Some v" for p v
    using own_body [OF careful_own [OF that(1)] that(3)] that(2) by (auto simp: b)
  with panel_first_answer [of "panel_body e a sv" i k, OF b] show ?thesis by blast
qed

text \<open>
  The panel shows the bodies of its entry, as long as the entry is not changed while a body is still being
  fetched; when it is, the late answer is taken for the body of the new entry, and because there is a body the
  right one is never fetched: entry j is shown with the body of entry i, with no call under way.
\<close>

theorem panel_bodies:
  "(careful body p \<longrightarrow> dp_request p = Some v \<longrightarrow> (\<exists>i. dp_entry p = Some i \<and> v = or_else (body i RequestBodyRef) []))
   \<and> (careful body p \<longrightarrow> dp_response p = Some v \<longrightarrow> (\<exists>i. dp_entry p = Some i \<and> v = or_else (body i ResponseBodyRef) []))
   \<and> (i \<noteq> j \<longrightarrow>
       (let late = panel_open_tab TabRequest (panel_answered body 0 (panel_show (Some j)
                     (panel_open_tab TabInfo (panel_open_tab TabRequest (panel_show (Some i) panel_new)))))
        in dp_entry late = Some j \<and> dp_tab late = TabRequest \<and> dp_pending late = []
           \<and> dp_request late = Some (or_else (body i RequestBodyRef) [])))"
proof (intro conjI impI)
  show "\<exists>i. dp_entry p = Some i \<and> v = or_else (body i RequestBodyRef) []" if "careful body p" "dp_request p = Some v"
    using careful_own [OF that(1)] that(2) by (simp add: own_def)
  show "\<exists>i. dp_entry p = Some i \<and> v = or_else (body i ResponseBodyRef) []" if "careful body p" "dp_response p = Some v"
    using careful_own [OF that(1)] that(2) by (simp add: own_def)
  assume "i \<noteq> j"
  then show "let late = panel_open_tab TabRequest (panel_answered body 0 (panel_show (Some j)
                     (panel_open_tab TabInfo (panel_open_tab TabRequest (panel_show (Some i) panel_new)))))
        in dp_entry late = Some j \<and> dp_tab late = TabRequest \<and> dp_pending late = []
           \<and> dp_request late = Some (or_else (body i RequestBodyRef) [])"
    by (simp add: Let_def panel_open_tab_def panel_show_def panel_new_def panel_fetch_def panel_reset_def panel_answered_def)
qed

section \<open>Feed and time stamps\<close>

lemma recent_event: "ds_recent (on_feed_event t v d) = take 20 (feed_entry t v # ds_recent d)"
  by (simp add: on_feed_event_def)

lemma feed_events:
  "ds_recent (foldl (\<lambda>d (t, v). on_feed_event t v d) d evs)
     = (if evs = [] then ds_recent d else take 20 (rev (map (\<lambda>(t, v). feed_entry t v) evs) @ ds_recent d))"
proof (induction evs rule: rev_induct)
  case (snoc ev evs)
  obtain t v where "ev = (t, v)" by (cases ev)
  then show ?case by (simp add: snoc recent_event min_def)
qed simp

lemma get_decision_put:
  assumes "\<not> truthy (obj_get kvs ''decision'')" "t \<noteq> ''request.allowed''" "t \<noteq> ''request.blocked''"
  shows "get_decision (feed_entry t (JObj kvs)) = JStr ''held''"
proof -
  have "obj_get (feed_entry t (JObj kvs)) ''decision'' = obj_get kvs ''decision''"
    "obj_get (feed_entry t (JObj kvs)) ''_event'' = Some (JStr t)"
    by (simp_all add: feed_entry_def obj_get_def map_of_obj_put)
  then show ?thesis using assms by (simp add: get_decision_def)
qed

text \<open>
  The feed is a window: after any events it holds the last 20 of them, the newest first, in front of what was
  loaded; but every event of the stream becomes a row, and the events that report no request, the ones the
  server emits for a changed rule, a changed policy and a decided or expired approval, are shown as held
  requests, an approval too.
\<close>

theorem feed_shows_events:
  "length (ds_recent (foldl (\<lambda>d (t, v). on_feed_event t v d) d evs)) \<le> max 20 (length (ds_recent d))
   \<and> (evs \<noteq> [] \<longrightarrow> ds_recent (foldl (\<lambda>d (t, v). on_feed_event t v d) d evs)
        = take 20 (rev (map (\<lambda>(t, v). feed_entry t v) evs) @ ds_recent d))
   \<and> get_decision (feed_entry ''rules.changed'' (rule_id_json r)) = JStr ''held''
   \<and> get_decision (feed_entry ''policies.changed'' (policy_id_json i)) = JStr ''held''
   \<and> get_decision (feed_entry ''approval.resolved'' (JObj [(''id'', JNum n), (''action'', JStr act)])) = JStr ''held''
   \<and> get_decision (feed_entry ''approval.resolved'' (JObj [(''expired'', JNum n)])) = JStr ''held''"
proof -
  have t: "\<not> truthy None" by (simp add: truthy_def)
  show ?thesis
    unfolding feed_events rule_id_json_def policy_id_json_def
    by (auto simp: get_decision_put obj_get_def t)
qed

text \<open>
  Time stamps of the database are read as UTC: a text \<open>date time\<close> as SQLite writes it, in which the time does not
  end like an offset, is handed to the date parser with a T between and a Z behind.
\<close>

theorem sqlite_time_is_utc:
  assumes "CHR '' '' \<notin> set date" "is_digit (last time)" "time \<noteq> []" "\<not> ends_with_offset (date @ '' '' @ time)"
  shows "parse_utc date_parse (date @ '' '' @ time) = date_parse (date @ ''T'' @ time @ ''Z'')"
proof -
  have "CHR '' '' \<notin> set date \<Longrightarrow> takeWhile (\<lambda>c. c \<noteq> CHR '' '') (date @ CHR '' '' # time) = date"
    "CHR '' '' \<notin> set date \<Longrightarrow> dropWhile (\<lambda>c. c \<noteq> CHR '' '') (date @ CHR '' '' # time) = CHR '' '' # time"
    by (induction date) auto
  moreover have "\<not> is_digit (CHR ''Z'')" by (simp add: is_digit_def code_def)
  then have "last time \<noteq> CHR ''Z''" using assms(2) by metis
  ultimately show ?thesis using assms by (simp add: parse_utc_def blank_to_t_def)
qed

section \<open>The properties at concrete inputs\<close>

definition log_server :: server where
  "log_server = sample_server log_db"

lemma log_server_ok: "server_ok log_server"
  unfolding log_server_def by (rule sample_server_ok [OF log_db_ok])

lemma log_auth: "basic_auth (sv_auth log_server) (Some ''Basic dTpw'')"
  unfolding log_server_def by (rule sample_auth)

lemma mount_ok: "page_ok logs_mount"
  unfolding logs_mount_def by (rule page_ok_fetch) (auto simp: page_ok_def aligned_def intro: exI [of _ 0])

theorem clear_filter_hides_all_witness:
  "lp_logs (logs_settle sample_env (Some ''Basic dTpw'') log_server (update_filter ''decision'' [] logs_mount)) = []
    \<and> t_log (sv_db log_server) \<noteq> []"
  using clear_filter_hides_all [OF log_server_ok log_auth] by (simp add: log_server_def sample_server_def log_db_def)

lemma mount_params: "k \<notin> {''limit'', ''offset''} \<Longrightarrow> param_get (fetch_params logs_mount) k = None"
  by (simp add: fetch_params_get) (auto simp: logs_mount_def fetch_logs_def param_get_def)

lemma mount_filter: "filter_row (params_filter (fetch_params logs_mount)) r"
  unfolding filter_row_def params_filter_def query_filter_def
  by (simp add: mount_params nonempty_def given_def cond_def)

lemma mount_matching: "matching log_server logs_mount = t_log log_db"
  unfolding matching_def by (simp add: mount_filter log_server_def sample_server_def log_db_def)

theorem browsing_complete_witness:
  "next_disabled (visit sample_env (Some ''Basic dTpw'') log_server logs_mount 0)
    \<and> lp_logs (visit sample_env (Some ''Basic dTpw'') log_server logs_mount 0) = map log_json (t_log log_db)"
proof -
  have zero: "length (t_log log_db) div 50 = 0" by (simp add: log_db_def)
  have one: "concat (map f [0..<Suc 0]) = f 0" for f :: "nat \<Rightarrow> json list" by simp
  note b = browsing_complete [OF log_server_ok log_auth mount_ok, of sample_env]
  note c = b [unfolded mount_matching]
  note d = c [unfolded zero]
  note f = d [unfolded one]
  from f show ?thesis by simp
qed

theorem pages_aligned_witness:
  "\<exists>ps. lp_pending (logs_run sample_env None []) = [ps] \<and> param_get ps ''limit'' = Some ''50''"
proof -
  obtain ps where "lp_pending (logs_run sample_env None []) = [ps]"
    by (simp add: logs_run_def logs_mount_def fetch_logs_def)
  then show ?thesis using pages_aligned [of sample_env None "[]"] by auto
qed

definition idle_page :: logs_page where
  "idle_page = logs_mount\<lparr>lp_pending := []\<rparr>"

theorem late_answer_wins_witness:
  "\<exists>p :: logs_page. lp_pending p = [] \<and> map_of (lp_filters p) ''decision'' = Some (PText ''denied'')
     \<and> lp_logs p = shown_rows log_server (fetch_params (update_filter ''decision'' ''allowed'' idle_page))"
proof -
  let ?p = "update_filter ''decision'' ''denied'' (update_filter ''decision'' ''allowed'' idle_page)"
  have "lp_pending idle_page = []" by (simp add: idle_page_def)
  from late_answer_wins [OF log_auth this refl refl, of sample_env "''decision''" "''denied''" "''decision''" "''allowed''"]
  have "lp_pending (logs_answered sample_env (Some ''Basic dTpw'') log_server 0
        (logs_answered sample_env (Some ''Basic dTpw'') log_server 1 ?p)) = []"
    "lp_logs (logs_answered sample_env (Some ''Basic dTpw'') log_server 0
        (logs_answered sample_env (Some ''Basic dTpw'') log_server 1 ?p))
      = shown_rows log_server (fetch_params (update_filter ''decision'' ''allowed'' idle_page))" by blast+
  moreover have "map_of (lp_filters (logs_answered sample_env (Some ''Basic dTpw'') log_server 0
        (logs_answered sample_env (Some ''Basic dTpw'') log_server 1 ?p))) ''decision'' = Some (PText ''denied'')"
    by (simp add: logs_answered_def update_filter_def fetch_logs_def map_of_obj_put)
  ultimately show ?thesis
    by (intro exI [of _ "logs_answered sample_env (Some ''Basic dTpw'') log_server 0
        (logs_answered sample_env (Some ''Basic dTpw'') log_server 1 ?p)"] conjI)
qed

theorem agent_filter_keeps_page_witness:
  "lp_logs (logs_settle sample_env (Some ''Basic dTpw'') log_server (set_agent_id ''a'' (set_offset 50 idle_page))) = []"
proof -
  have "page_ok idle_page" using mount_ok by (simp add: idle_page_def page_ok_def)
  from page_ok_set_offset [OF this, of 1] have ok: "page_ok (set_offset 50 idle_page)" by simp
  have "length (matching log_server p) \<le> 1" for p
    by (simp add: matching_def log_server_def sample_server_def log_db_def)
  then have "int (length (matching log_server ((set_offset 50 idle_page)\<lparr>lp_agent_id := ''a''\<rparr>))) \<le> 50"
    by (rule order_trans [OF of_nat_mono]) simp
  moreover have "offset_of (set_offset 50 idle_page) = 50" by (simp add: set_offset_def param_num_def map_of_obj_put)
  moreover have "''a'' \<noteq> lp_agent_id (set_offset 50 idle_page)"
    by (simp add: set_offset_def idle_page_def logs_mount_def fetch_logs_def)
  ultimately show ?thesis using agent_filter_keeps_page [OF log_server_ok log_auth ok] by simp
qed

theorem panel_bodies_witness:
  "\<exists>p :: panel. dp_entry p = Some 2 \<and> dp_tab p = TabRequest \<and> dp_pending p = [] \<and> dp_request p = Some ''of 1''"
proof -
  let ?body = "\<lambda>i k. if i = (1 :: int) then Some ''of 1'' else Some ''of 2''"
  let ?late = "panel_open_tab TabRequest (panel_answered ?body 0 (panel_show (Some 2)
    (panel_open_tab TabInfo (panel_open_tab TabRequest (panel_show (Some 1) panel_new)))))"
  have "dp_entry ?late = Some 2 \<and> dp_tab ?late = TabRequest \<and> dp_pending ?late = [] \<and> dp_request ?late = Some ''of 1''"
    using panel_bodies [of ?body panel_new "[]" 1 2] unfolding Let_def by simp
  then show ?thesis by (rule exI [of _ ?late])
qed

theorem feed_shows_events_witness:
  "ds_recent (on_feed_event ''rules.changed'' (JObj []) dashboard_new) = [feed_entry ''rules.changed'' (JObj [])]"
  using feed_shows_events [of dashboard_new "[(''rules.changed'', JObj [])]"] by (simp add: dashboard_new_def)

theorem sqlite_time_is_utc_witness:
  "parse_utc date_parse ''2024-05-01 23:00:05'' = date_parse ''2024-05-01T23:00:05Z''"
proof -
  have "is_digit (last ''23:00:05'')" "\<not> ends_with_offset (''2024-05-01'' @ '' '' @ ''23:00:05'')" by code_simp+
  then show ?thesis using sqlite_time_is_utc [of "''2024-05-01''" "''23:00:05''" date_parse] by simp
qed

theorem logged_body_shown_witness:
  "body_of RequestBodyRef (panel_answered
      (panel_body (sample_env\<lparr>e_read_at := (\<lambda>_ _ _. Some body_record)\<rparr>) (Some ''Basic dTpw'') (sample_server body_db)) 0
      (panel_open_tab TabRequest (panel_show (Some 1) panel_new)))
    = Some [char_of (1 :: nat)]"
proof -
  let ?e = "sample_env\<lparr>e_read_at := (\<lambda>_ _ _. Some body_record)\<rparr>"
  have gcm: "length c = length p \<and> length t = 16 \<and> e_gcm_dec ?e k n c t = Some p" if "toy_enc k n p = (c, t)" for k n p c t
    using that toy_inverse [of k n c t p] by (auto simp: sample_env_def toy_enc_def simp del: replicate.simps)
  note facts = body_record_facts
  from logged_body_shown [OF sample_auth facts(1-6) gcm facts(7,8)] show ?thesis
    by (simp add: tab_of_def body_text_ascii)
qed

theorem selection_survives_reload_witness:
  "\<exists>row. lp_selected (open_link sample_env (Some ''Basic dTpw'') log_server (entry_link (Some row)) logs_mount) = Some row
     \<and> shown_rows log_server (fetch_params (set_offset 0 logs_mount)) = [row]"
proof -
  have lim: "map_of (lp_filters logs_mount) ''limit'' = Some (PNum 50)" by (simp add: logs_mount_def fetch_logs_def)
  obtain l where l: "t_log log_db = [l]" by (simp add: log_db_def)
  have "query_log log_db (params_filter (fetch_params (set_offset 0 logs_mount))) = [l]"
    using params_filter_page [OF lim, of 0] query_page [OF log_db_ok, of "params_filter (fetch_params logs_mount)" 50 0]
    by (simp add: mount_filter l)
  then have row: "shown_rows log_server (fetch_params (set_offset 0 logs_mount)) = [log_json l]"
    by (simp add: shown_rows_def log_server_def sample_server_def)
  then have "log_json l \<in> set (shown_rows log_server (fetch_params (set_offset 0 logs_mount)))" by simp
  from selection_survives_reload [OF log_server_ok log_auth this, of idle_page _ _ sample_env] row show ?thesis
    by (auto simp: handle_select_def)
qed

end
