(* ===== verification/Gui_Approvals.thy ===== *)
theory Gui_Approvals
  imports Gui_Agents Gui_Logs
begin

text \<open>
  The page of held requests, \<open>pages/Approvals.jsx\<close> with \<open>ApprovalCard\<close>, and \<open>components/SmartRuleBuilder.jsx\<close>, which
  makes rules from requests here and on the log page. A handler runs to its end, its calls and the reload included.
\<close>

section \<open>State\<close>

record approvals_page =
  ap_approvals :: "object list"
  ap_resolved :: "object list"
  ap_selected :: "object option"
  ap_rule_entry :: "object option"
  ap_agents :: "object list"
  ap_policies :: "object list"
  ap_map :: "json \<rightharpoonup> object list"
  ap_match :: "object option"

definition approvals_page_new :: approvals_page where
  "approvals_page_new =
     \<lparr>ap_approvals = [], ap_resolved = [], ap_selected = None, ap_rule_entry = None, ap_agents = [], ap_policies = [],
      ap_map = Map.empty, ap_match = None\<rparr>"

text \<open>\<open>a || b\<close> on texts of an object: the first that is not empty.\<close>

fun first_text :: "object \<Rightarrow> string list \<Rightarrow> string \<Rightarrow> string" where
  "first_text kvs [] dflt = dflt"
| "first_text kvs (k # ks) dflt = (if text_of kvs k = [] then first_text kvs ks dflt else text_of kvs k)"

definition load_approvals :: "env \<Rightarrow> string option \<Rightarrow> server \<Rightarrow> approvals_page \<Rightarrow> approvals_page" where
  "load_approvals e a sv p =
     (case fetch_list e a sv CGetApprovals of None \<Rightarrow> p | Some rows \<Rightarrow> p\<lparr>ap_approvals := rows\<rparr>)"

text \<open>Agents and policies, asked for together; the map of both is only made when there are some of each.\<close>

definition load_lists :: "env \<Rightarrow> string option \<Rightarrow> server \<Rightarrow> approvals_page \<Rightarrow> approvals_page" where
  "load_lists e a sv p =
     (case (fetch_list e a sv CGetAgents, fetch_list e a sv CGetPolicies) of
        (Some as, Some ps) \<Rightarrow>
          p\<lparr>ap_agents := as, ap_policies := ps,
            ap_map := (if as = [] \<or> ps = [] then ap_map p else agent_policies as ps)\<rparr>
      | _ \<Rightarrow> p)"

definition approvals_mount :: "env \<Rightarrow> string option \<Rightarrow> server \<Rightarrow> approvals_page" where
  "approvals_mount e a sv = load_lists e a sv (load_approvals e a sv approvals_page_new)"

section \<open>What is shown\<close>

definition approval_to_entry :: "object \<Rightarrow> object" where
  "approval_to_entry q =
     (case obj_get q ''request_log_id'' of None \<Rightarrow> [] | Some i \<Rightarrow> [(''id'', i)])
     @ [(''method'', JStr (first_text q [''method''] ''UNKNOWN'')),
        (''url'', JStr (first_text q [''suggested_pattern'', ''url''] ''Unknown'')),
        (''decision'', JStr ''held'')]
     @ (case obj_get q ''created_at'' of None \<Rightarrow> [] | Some t \<Rightarrow> [(''timestamp'', t)])
     @ [(''status_code'', JNum 0), (''duration_ms'', JNum 0)]"

definition card_text :: "object \<Rightarrow> string \<times> string" where
  "card_text q = (first_text q [''method''] ''UNKNOWN'', first_text q [''suggested_pattern'', ''url''] ''Unknown'')"

text \<open>A row of the recently resolved requests: its text and its badge.\<close>

definition resolved_text :: "object \<Rightarrow> string" where
  "resolved_text r = first_text r [''method''] ''UNKNOWN'' @ '' '' @ first_text r [''suggested_pattern'', ''url''] ''Unknown''"

definition resolved_badge :: "object \<Rightarrow> string" where
  "resolved_badge r = (if text_of r ''action'' = ''approve'' then ''approved'' else ''rejected'')"

text \<open>Seconds left of the 30 the page counts down, from milliseconds; \<open>Math.ceil\<close> of the rest.\<close>

definition remaining_seconds :: "int \<Rightarrow> int \<Rightarrow> int" where
  "remaining_seconds now created = max 0 (- ((now - created - 30 * 1000) div 1000))"

definition format_relative_time :: "(string \<Rightarrow> int option) \<Rightarrow> int \<Rightarrow> string \<Rightarrow> string" where
  "format_relative_time date_parse now timestamp =
     (if timestamp = [] then []
      else
        (case parse_utc date_parse timestamp of
           None \<Rightarrow> ''NaNh ago''
         | Some t \<Rightarrow>
             (let seconds = (now - t) div 1000; minutes = seconds div 60 in
              if seconds < 5 then ''just now''
              else if seconds < 60 then show_int seconds @ ''s ago''
              else if minutes < 60 then show_int minutes @ ''m ago''
              else show_int (minutes div 60) @ ''h ago'')))"

section \<open>Events and selection\<close>

definition resolved_entry :: "string \<Rightarrow> json \<Rightarrow> object" where
  "resolved_entry now data = obj_put (case data of JObj kvs \<Rightarrow> kvs | _ \<Rightarrow> []) ''resolved_at'' (JStr now)"

definition on_approval_event ::
  "env \<Rightarrow> string option \<Rightarrow> server \<Rightarrow> string \<Rightarrow> string \<Rightarrow> json \<Rightarrow> approvals_page \<Rightarrow> approvals_page" where
  "on_approval_event e a sv now event_type data p =
     (if event_type = ''approval.needed'' then load_approvals e a sv p
      else if event_type = ''approval.resolved''
      then load_approvals e a sv
             (if truthy (Some data) then p\<lparr>ap_resolved := take 10 (resolved_entry now data # ap_resolved p)\<rparr> else p)
      else p)"

text \<open>The effect of a new selection asks for policies that match.\<close>

definition select_approval ::
  "env \<Rightarrow> string option \<Rightarrow> server \<Rightarrow> object option \<Rightarrow> approvals_page \<Rightarrow> approvals_page" where
  "select_approval e a sv sel p =
     (let p1 = p\<lparr>ap_selected := sel, ap_match := None\<rparr> in
      case sel of
        None \<Rightarrow> p1
      | Some q \<Rightarrow>
          (let url = first_text q [''url'', ''suggested_pattern''] [] in
           if url = [] then p1
           else
             (case fetch_list e a sv (CMatchPolicies url (first_text q [''method''] ''UNKNOWN'')) of
                Some (pol # _) \<Rightarrow> p1\<lparr>ap_match := Some pol\<rparr>
              | _ \<Rightarrow> p1)))"

section \<open>Handlers\<close>

text \<open>The selection ends when it is the entry that was decided.\<close>

definition unselect :: "int \<Rightarrow> approvals_page \<Rightarrow> approvals_page" where
  "unselect i p =
     (case ap_selected p of
        None \<Rightarrow> p
      | Some q \<Rightarrow> if num_of q ''id'' = Some i then p\<lparr>ap_selected := None, ap_match := None\<rparr> else p)"

definition approvals_call ::
  "env \<Rightarrow> string option \<Rightarrow> api_call \<Rightarrow> (server \<Rightarrow> approvals_page \<Rightarrow> approvals_page) \<Rightarrow> approvals_page \<times> server
    \<Rightarrow> approvals_page \<times> server" where
  "approvals_call e a c after = (\<lambda>(p, sv).
     (case api e a c sv of
        None \<Rightarrow> (p, sv)
      | Some (sv', res) \<Rightarrow> (case res of Value _ \<Rightarrow> (after sv' p, sv') | NoValue \<Rightarrow> (after sv' p, sv') | _ \<Rightarrow> (p, sv'))))"

text \<open>\<open>handleApprove\<close> and \<open>handleReject\<close>.\<close>

definition handle_resolve ::
  "env \<Rightarrow> string option \<Rightarrow> string \<Rightarrow> int \<Rightarrow> approvals_page \<times> server \<Rightarrow> approvals_page \<times> server" where
  "handle_resolve e a act i = approvals_call e a (CResolveApproval i act) (\<lambda>sv p. load_approvals e a sv (unselect i p))"

definition handle_approve_and_rule ::
  "env \<Rightarrow> string option \<Rightarrow> object \<Rightarrow> approvals_page \<times> server \<Rightarrow> approvals_page \<times> server" where
  "handle_approve_and_rule e a q = (\<lambda>(p, sv).
     (case num_of q ''id'' of
        None \<Rightarrow> (p, sv)
      | Some i \<Rightarrow>
          approvals_call e a (CResolveApproval i ''approve'')
            (\<lambda>sv p. load_approvals e a sv (unselect i (p\<lparr>ap_rule_entry := Some (approval_to_entry q)\<rparr>))) (p, sv)))"

definition handle_create_rule ::
  "env \<Rightarrow> string option \<Rightarrow> rule_input \<Rightarrow> approvals_page \<times> server \<Rightarrow> approvals_page \<times> server" where
  "handle_create_rule e a rule = approvals_call e a (CCreateRule rule) (\<lambda>_ p. p\<lparr>ap_rule_entry := None\<rparr>)"

text \<open>\<open>handleAssignPolicy\<close>: the first call only when the entry names an agent, and the rest only when it succeeds.\<close>

definition approve_matched ::
  "env \<Rightarrow> string option \<Rightarrow> int \<Rightarrow> approvals_page \<times> server \<Rightarrow> approvals_page \<times> server" where
  "approve_matched e a i =
     approvals_call e a (CResolveApproval i ''approve'')
       (\<lambda>sv p. load_approvals e a sv ((unselect i p)\<lparr>ap_match := None\<rparr>))"

definition handle_assign_match ::
  "env \<Rightarrow> string option \<Rightarrow> object \<Rightarrow> int \<Rightarrow> approvals_page \<times> server \<Rightarrow> approvals_page \<times> server" where
  "handle_assign_match e a q pol = (\<lambda>(p, sv).
     (case num_of q ''id'' of
        None \<Rightarrow> (p, sv)
      | Some i \<Rightarrow>
          (case num_of q ''agent_id'' of
             Some ag \<Rightarrow>
               if ag \<noteq> 0 \<and> pol \<noteq> 0 then
                 (case api e a (CAssignPolicyAgent pol ag) sv of
                    Some (sv1, Value _) \<Rightarrow> approve_matched e a i (load_lists e a sv1 p, sv1)
                  | Some (sv1, _) \<Rightarrow> (p, sv1)
                  | None \<Rightarrow> (p, sv))
               else approve_matched e a i (p, sv)
           | None \<Rightarrow> approve_matched e a i (p, sv))))"

section \<open>The rule builder\<close>

record builder =
  sb_pattern :: string
  sb_methods :: "string list"
  sb_action :: string
  sb_policy :: "int option"

text \<open>The two effects: of a new entry, and of a new list of policies.\<close>

definition builder_entry :: "object \<Rightarrow> builder \<Rightarrow> builder" where
  "builder_entry entry b =
     b\<lparr>sb_pattern := (case generate_patterns (text_of entry ''url'') of [] \<Rightarrow> [] | (pat, _) # _ \<Rightarrow> pat),
       sb_methods := (if text_of entry ''method'' = [] then [] else [text_of entry ''method'']),
       sb_action := ''allow''\<rparr>"

definition builder_policies :: "object list \<Rightarrow> builder \<Rightarrow> builder" where
  "builder_policies policies b = b\<lparr>sb_policy := (case policies of [] \<Rightarrow> None | pol # _ \<Rightarrow> num_of pol ''id'')\<rparr>"

definition builder_new :: builder where
  "builder_new = \<lparr>sb_pattern = [], sb_methods = [], sb_action = ''allow'', sb_policy = None\<rparr>"

definition toggle_method :: "string \<Rightarrow> bool \<Rightarrow> builder \<Rightarrow> builder" where
  "toggle_method m checked b =
     b\<lparr>sb_methods := (if checked then sb_methods b @ [m] else filter (\<lambda>x. x \<noteq> m) (sb_methods b))\<rparr>"

text \<open>The dropdown gives a text; the empty one is no policy, and the store reads another as the number it is.\<close>

definition choose_policy :: "string \<Rightarrow> builder \<Rightarrow> builder" where
  "choose_policy v b = b\<lparr>sb_policy := (if v = [] then None else to_number v)\<rparr>"

definition handle_submit :: "builder \<Rightarrow> rule_input" where
  "handle_submit b =
     \<lparr>ri_name = Some (''Rule for '' @ sb_pattern b), ri_url_pattern = Some (sb_pattern b), ri_methods = Some (sb_methods b),
      ri_action = Some (sb_action b), ri_priority = None, ri_agent_id = None, ri_log_request_body = None,
      ri_log_response_body = None, ri_default_behavior = None, ri_enabled = Some True,
      ri_policy_id = (if sb_policy b = Some 0 then None else sb_policy b)\<rparr>"

section \<open>The page\<close>

text \<open>
  What a user can do and what arrives: the entries chosen are the shown ones, the buttons are those of the selected entry,
  the builder is open while it has an entry.
\<close>

datatype approvals_action =
    ApSelect int
  | ApResolve string
  | ApApproveRule
  | ApAssignMatch
  | ApCreateRule builder
  | ApCloseBuilder
  | ApEvent string string json

fun approvals_step :: "env \<Rightarrow> string option \<Rightarrow> approvals_action \<Rightarrow> approvals_page \<times> server \<Rightarrow> approvals_page \<times> server" where
  "approvals_step e a (ApSelect i) (p, sv) =
     (case find (\<lambda>row. num_of row ''id'' = Some i) (ap_approvals p) of
        None \<Rightarrow> (p, sv)
      | Some row \<Rightarrow> (select_approval e a sv (Some row) p, sv))"
| "approvals_step e a (ApResolve act) (p, sv) =
     (case Option.bind (ap_selected p) (\<lambda>q. num_of q ''id'') of
        Some i \<Rightarrow> if act \<in> {''approve'', ''reject''} then handle_resolve e a act i (p, sv) else (p, sv)
      | None \<Rightarrow> (p, sv))"
| "approvals_step e a ApApproveRule (p, sv) =
     (case ap_selected p of None \<Rightarrow> (p, sv) | Some q \<Rightarrow> handle_approve_and_rule e a q (p, sv))"
| "approvals_step e a ApAssignMatch (p, sv) =
     (case (ap_selected p, Option.bind (ap_match p) (\<lambda>pol. num_of pol ''id'')) of
        (Some q, Some pol) \<Rightarrow> handle_assign_match e a q pol (p, sv)
      | _ \<Rightarrow> (p, sv))"
| "approvals_step e a (ApCreateRule b) (p, sv) =
     (if ap_rule_entry p = None then (p, sv) else handle_create_rule e a (handle_submit b) (p, sv))"
| "approvals_step e a ApCloseBuilder (p, sv) = (p\<lparr>ap_rule_entry := None\<rparr>, sv)"
| "approvals_step e a (ApEvent now t data) (p, sv) = (on_approval_event e a sv now t data p, sv)"

definition approvals_run :: "env \<Rightarrow> string option \<Rightarrow> approvals_action list \<Rightarrow> server \<Rightarrow> approvals_page \<times> server" where
  "approvals_run e a acts sv = foldl (\<lambda>s act. approvals_step e a act s) (approvals_mount e a sv, sv) acts"

section \<open>Deciding\<close>

lemma fetch_approvals:
  assumes "basic_auth (sv_auth sv) a"
  shows "fetch_list e a sv CGetApprovals = Some (map (\<lambda>(q, req). approval_entries q @
     [(''method'', opt_str (map_option fst req)), (''url'', opt_str (map_option snd req))]) (list_pending (sv_db sv)))"
proof -
  have "objects_of (map (\<lambda>(q, req). JObj (approval_entries q @
      [(''method'', opt_str (map_option fst req)), (''url'', opt_str (map_option snd req))])) xs)
    = map (\<lambda>(q, req). approval_entries q @
      [(''method'', opt_str (map_option fst req)), (''url'', opt_str (map_option snd req))]) xs"
    for xs :: "(approval_row \<times> (string \<times> string) option) list"
    by (rule objects_of_map) (simp add: case_prod_unfold)
  then show ?thesis using assms
    by (simp add: fetch_list_def fetch_value_def api_def handle_request_def get_approvals_def client_answer_def reply_def response_ok_def)
qed

lemma approval_id [simp]: "num_of (approval_entries q @ kvs) ''id'' = Some (aq_id q)"
  by (simp add: num_of_def approval_entries_def obj_get_def)

lemma listed_is_pending:
  assumes "db_ok d" "(q, req) \<in> set (list_pending d)"
  shows "row_by_id aq_id (t_queue d) (Some (aq_id q)) = Some q" "aq_status q = ''pending''"
proof -
  have "q \<in> set (t_queue d)" "aq_status q = ''pending''" using assms(2) by (auto simp: list_pending_def)
  moreover have "table_ok aq_id (seq_queue d) (t_queue d)" using assms(1) by (simp add: db_ok_def queue_ok_def)
  ultimately show "row_by_id aq_id (t_queue d) (Some (aq_id q)) = Some q" "aq_status q = ''pending''"
    using row_by_id_mem by fastforce+
qed

lemma load_approvals_fields [simp]:
  "ap_selected (load_approvals e a sv p) = ap_selected p" "ap_rule_entry (load_approvals e a sv p) = ap_rule_entry p"
  "ap_resolved (load_approvals e a sv p) = ap_resolved p"
  by (simp_all add: load_approvals_def split: option.split)

lemma unselected: "ap_selected (unselect i p) = Some q \<Longrightarrow> num_of q ''id'' \<noteq> Some i"
  by (auto simp: unselect_def split: option.splits if_splits)

lemma approvals_call_value:
  "api e a c sv = Some (sv', Value v) \<Longrightarrow> approvals_call e a c after (p, sv) = (after sv' p, sv')"
  by (simp add: approvals_call_def)

lemma decided_late:
  assumes "basic_auth (sv_auth sv) a" "act \<in> {''approve'', ''reject''}"
    and "case row_by_id aq_id (t_queue (sv_db sv)) (Some i) of None \<Rightarrow> True | Some q \<Rightarrow> aq_status q \<noteq> ''pending''"
  shows "\<exists>w. api e a (CResolveApproval i act) sv = Some (sv, HttpErr 404 w)"
proof -
  have "resolve (e_clock e) (sv_db sv) (Some i) \<lparr>re_action = Some act, re_resolved_by = Some ''api'', re_create_rule = False\<rparr>
      = Inr (sv_db sv, None)"
    using assms(3) by (auto simp: resolve_def split: option.splits)
  then show ?thesis using assms(1,2)
    by (auto simp: api_def handle_request_def resolve_approval_def client_answer_def reply_def response_ok_def)
qed

text \<open>
  C21: The buttons of the approvals page decide once: when the entry is still pending, the server decides it as asked and sends
  the proxy the decision under the id of the held request, the list the page then shows no longer has it and it is no longer
  selected; when it has expired or was decided elsewhere, the
  handler fails: nothing changes, neither on the server nor on the page, which keeps showing the entry with its buttons.
\<close>

theorem approval_buttons:
  assumes "server_ok sv" "basic_auth (sv_auth sv) a" "act \<in> {''approve'', ''reject''}"
    and "handle_resolve e a act i (p, sv) = (p', sv')"
  shows "if (case row_by_id aq_id (t_queue (sv_db sv)) (Some i) of None \<Rightarrow> False | Some q \<Rightarrow> aq_status q = ''pending'')
    then (\<exists>q. row_by_id aq_id (t_queue (sv_db sv')) (Some i) = Some q
           \<and> aq_status q = (if act = ''approve'' then ''approved'' else ''rejected''))
      \<and> (\<forall>q. row_by_id aq_id (t_queue (sv_db sv)) (Some i) = Some q
           \<longrightarrow> sv_ipc sv' = ipc_send (e_uuid e) (approval_resolve_msg q act) (sv_ipc sv))
      \<and> (\<forall>row \<in> set (ap_approvals p'). num_of row ''id'' \<noteq> Some i)
      \<and> (\<forall>row. ap_selected p' = Some row \<longrightarrow> num_of row ''id'' \<noteq> Some i)
    else p' = p \<and> sv' = sv"
proof (cases "case row_by_id aq_id (t_queue (sv_db sv)) (Some i) of None \<Rightarrow> False | Some q \<Rightarrow> aq_status q = ''pending''")
  case False
  then have "case row_by_id aq_id (t_queue (sv_db sv)) (Some i) of None \<Rightarrow> True | Some q \<Rightarrow> aq_status q \<noteq> ''pending''"
    by (simp split: option.splits)
  from decided_late [OF assms(2,3) this, of e] have "p' = p \<and> sv' = sv"
    using assms(4) by (auto simp: handle_resolve_def approvals_call_def)
  with False show ?thesis by (simp only: if_False)
next
  case True
  then obtain q where q: "row_by_id aq_id (t_queue (sv_db sv)) (Some i) = Some q" "aq_status q = ''pending''"
    by (auto split: option.splits)
  obtain sv1 q' where s: "server_ok sv1" "row_by_id aq_id (t_queue (sv_db sv1)) (Some i) = Some q'"
      "aq_status q' = (if act = ''approve'' then ''approved'' else ''rejected'')" "sv_auth sv1 = sv_auth sv"
      "sv_ipc sv1 = ipc_send (e_uuid e) (approval_resolve_msg q act) (sv_ipc sv)"
      "handle_request e a (ResolveApproval (Some i) (Some act) False) sv
        = (case auto_rule e q' act False sv1 of
             Inl err \<Rightarrow> Some (sv1, error_handler e err)
           | Inr sv2 \<Rightarrow> Some (emit_event ''approval.resolved'' (JObj [(''id'', JNum (aq_id q')), (''action'', JStr act)]) sv2,
               reply 200 (JObj (approval_entries q'))))"
    using resolve_approval_step [OF assms(1,2) q assms(3), of e False] by metis
  let ?sv2 = "emit_event ''approval.resolved'' (JObj [(''id'', JNum (aq_id q')), (''action'', JStr act)]) sv1"
  have "api e a (CResolveApproval i act) sv = Some (?sv2, Value (JObj (approval_entries q')))"
    using s(6) by (simp add: api_def auto_rule_def client_answer_def reply_def response_ok_def)
  from assms(4) [symmetric, unfolded handle_resolve_def approvals_call_value [OF this]]
  have p: "p' = load_approvals e a ?sv2 (unselect i p)" "sv' = ?sv2" by simp_all
  have auth: "basic_auth (sv_auth ?sv2) a" using assms(2) s(4) by simp
  have "num_of row ''id'' \<noteq> Some i" if row: "row \<in> set (ap_approvals p')" for row
  proof
    assume id: "num_of row ''id'' = Some i"
    from row obtain x req where x: "(x, req) \<in> set (list_pending (sv_db sv1))" "aq_id x = i"
      using id unfolding p(1) load_approvals_def fetch_approvals [OF auth] by auto
    from listed_is_pending [OF server_db_ok [OF s(1)] x(1)] x(2) s(2,3) show False by (auto split: if_splits)
  qed
  moreover have "num_of row ''id'' \<noteq> Some i" if "ap_selected p' = Some row" for row
    using that unselected [of i p row] by (simp add: p(1))
  moreover have "row_by_id aq_id (t_queue (sv_db sv')) (Some i) = Some q'" using s(2) by (simp add: p(2))
  moreover have "sv_ipc sv' = ipc_send (e_uuid e) (approval_resolve_msg q act) (sv_ipc sv)" using s(5) by (simp add: p(2))
  ultimately show ?thesis using s(3) q(1) True by simp
qed

section \<open>The page and the store\<close>

definition pending_entries :: "server \<Rightarrow> object list" where
  "pending_entries sv = map (\<lambda>(q, req). approval_entries q @
     [(''method'', opt_str (map_option fst req)), (''url'', opt_str (map_option snd req))]) (list_pending (sv_db sv))"

lemma fetch_pending: "basic_auth (sv_auth sv) a \<Longrightarrow> fetch_list e a sv CGetApprovals = Some (pending_entries sv)"
  unfolding pending_entries_def by (rule fetch_approvals)

definition approvals_in_sync :: "server \<Rightarrow> approvals_page \<Rightarrow> bool" where
  "approvals_in_sync sv p \<longleftrightarrow>
     ap_approvals p = pending_entries sv \<and> ap_agents p = map agent_entries (list_agents (sv_db sv))
     \<and> ap_policies p = map policy_entries (list_policies (sv_db sv))
     \<and> (case ap_selected p of None \<Rightarrow> True | Some q \<Rightarrow> q \<in> set (pending_entries sv))"

definition approvals_sync :: "string option \<Rightarrow> approvals_page \<times> server \<Rightarrow> bool" where
  "approvals_sync a s \<longleftrightarrow> connected a (snd s) \<and> approvals_in_sync (snd s) (fst s)"

lemma approvals_sync_pair [simp]: "approvals_sync a (p, sv) \<longleftrightarrow> connected a sv \<and> approvals_in_sync sv p"
  by (simp add: approvals_sync_def)

text \<open>What the three changing calls of the page leave as it was.\<close>

definition same_tables :: "db \<Rightarrow> db \<Rightarrow> bool" where
  "same_tables d d' \<longleftrightarrow>
     t_agents d' = t_agents d \<and> t_policies d' = t_policies d \<and> t_queue d' = t_queue d \<and> t_log d' = t_log d"

lemma same_tables_lists:
  assumes "same_tables (sv_db sv) (sv_db sv')"
  shows "pending_entries sv' = pending_entries sv" "list_agents (sv_db sv') = list_agents (sv_db sv)"
    "list_policies (sv_db sv') = list_policies (sv_db sv)"
  using assms by (simp_all add: same_tables_def pending_entries_def list_pending_def list_agents_def list_policies_def)

lemma same_in_sync: "same_tables (sv_db sv) (sv_db sv') \<Longrightarrow> approvals_in_sync sv' p = approvals_in_sync sv p"
  by (simp only: approvals_in_sync_def same_tables_lists)

lemma create_rule_tables:
  assumes "connected a sv" "api e a (CCreateRule inp) sv = Some (sv', res)"
  shows "same_tables (sv_db sv) (sv_db sv')"
proof -
  have c: "server_ok sv" "basic_auth (sv_auth sv) a" "sv_file sv = None" using assms(1) by (simp_all add: connected_def)
  have "same_tables (sv_db sv) (sv_db (fst (post_rule e inp sv)))"
  proof (cases "create_rule (sv_db sv) inp")
    case (Inr x)
    obtain d r where x: "x = (d, r)" by (cases x)
    note cr = Inr [unfolded x]
    have "same_tables (sv_db sv) d" by (rule create_rule_Inr [OF server_db_ok [OF c(1)] cr]) (simp add: same_tables_def)
    moreover have "server_ok (sv\<lparr>sv_db := d\<rparr>)" using set_db_ok [OF c(1) create_rule_ok [OF server_db_ok [OF c(1)] cr]] .
    ultimately show ?thesis using send_rules_reload_result [of "sv\<lparr>sv_db := d\<rparr>" e] cr c(3)
      by (auto simp: post_rule_def rules_create_def same_tables_def split: option.split)
  qed (use c in \<open>simp add: post_rule_def rules_create_def same_tables_def\<close>)
  then show ?thesis using assms(2) c(2) by (auto simp: api_def handle_request_def split: sum.splits prod.splits)
qed

lemma resolve_tables:
  assumes "connected a sv" "api e a (CResolveApproval i act) sv = Some (sv', res)"
  shows "t_agents (sv_db sv') = t_agents (sv_db sv)" "t_policies (sv_db sv') = t_policies (sv_db sv)"
    "x \<in> set (list_pending (sv_db sv)) \<Longrightarrow> aq_id (fst x) \<noteq> i \<Longrightarrow> x \<in> set (list_pending (sv_db sv'))"
proof -
  have c: "server_ok sv" "basic_auth (sv_auth sv) a" using assms(1) by (simp_all add: connected_def)
  let ?keeps = "\<lambda>d. t_agents d = t_agents (sv_db sv) \<and> t_policies d = t_policies (sv_db sv)
    \<and> (\<forall>x \<in> set (list_pending (sv_db sv)). aq_id (fst x) \<noteq> i \<longrightarrow> x \<in> set (list_pending d))"
  have "?keeps d" if "resolve k (sv_db sv) (Some i) r = Inr (d, q)" for k r d q
    using that by (auto elim!: resolve_Inr [OF server_db_ok [OF c(1)]] simp: list_pending_def update_where_def image_iff)
  then have "?keeps (sv_db (fst (resolve_approval e (Some i) (Some act) False sv)))"
    by (auto simp: resolve_approval_def auto_rule_def Let_def split: sum.split option.split)
  moreover have "sv_db sv' = sv_db (fst (resolve_approval e (Some i) (Some act) False sv))"
    using assms(2) c(2) by (auto simp: api_def handle_request_def split: sum.splits prod.splits)
  ultimately show "t_agents (sv_db sv') = t_agents (sv_db sv)" "t_policies (sv_db sv') = t_policies (sv_db sv)"
    "x \<in> set (list_pending (sv_db sv)) \<Longrightarrow> aq_id (fst x) \<noteq> i \<Longrightarrow> x \<in> set (list_pending (sv_db sv'))"
    by auto
qed

lemma load_approvals_sync:
  assumes "connected a sv" "ap_agents p = map agent_entries (list_agents (sv_db sv))"
    "ap_policies p = map policy_entries (list_policies (sv_db sv))"
    "\<And>q. ap_selected p = Some q \<Longrightarrow> q \<in> set (pending_entries sv)"
  shows "approvals_in_sync sv (load_approvals e a sv p)"
  using assms by (auto simp: connected_def approvals_in_sync_def load_approvals_def fetch_pending split: option.split)

text \<open>A decision with what follows it; \<open>p1\<close> is the page before its list is read again.\<close>

lemma decision_sync:
  assumes "approvals_sync a (p, sv)"
    and "\<And>p. ap_agents (after p) = ap_agents p \<and> ap_policies (after p) = ap_policies p \<and> ap_selected (after p) = ap_selected (unselect i p)"
  shows "approvals_sync a (approvals_call e a (CResolveApproval i act) (\<lambda>sv p. load_approvals e a sv (after p)) (p, sv))"
proof (cases "api e a (CResolveApproval i act) sv")
  case None
  then show ?thesis using assms(1) by (simp add: approvals_call_def)
next
  case (Some y)
  obtain sv' res where y: "y = (sv', res)" by (cases y)
  note call = Some [unfolded y]
  have con: "connected a sv" and sync: "approvals_in_sync sv p" using assms(1) by simp_all
  have change: "changing_call (CResolveApproval i act)" by simp
  note r = changing_call_result [OF change con call]
  note t = resolve_tables [OF con call]
  show ?thesis
  proof (cases "res = NoValue \<or> (\<exists>v. res = Value v)")
    case True
    have "q \<in> set (pending_entries sv')" if q: "ap_selected (after p) = Some q" for q
    proof -
      have sel: "ap_selected p = Some q" "num_of q ''id'' \<noteq> Some i"
        using q unselected [of i p q] by (auto simp: assms(2) unselect_def split: option.splits if_splits)
      then obtain x where "x \<in> set (list_pending (sv_db sv))" "aq_id (fst x) \<noteq> i" "q = (\<lambda>(q, req). approval_entries q @
          [(''method'', opt_str (map_option fst req)), (''url'', opt_str (map_option snd req))]) x"
        using sync by (auto simp: approvals_in_sync_def pending_entries_def)
      with t(3) [of x] show ?thesis unfolding pending_entries_def set_map by (blast intro: image_eqI)
    qed
    then have "approvals_in_sync sv' (load_approvals e a sv' (after p))"
      using sync t(1,2) by (intro load_approvals_sync [OF r(1)]) (simp_all add: assms(2) approvals_in_sync_def list_agents_def list_policies_def)
    then show ?thesis using True r(1) by (auto simp: approvals_call_def call)
  next
    case False
    then have "approvals_call e a (CResolveApproval i act) (\<lambda>sv p. load_approvals e a sv (after p)) (p, sv) = (p, sv')"
      by (cases res) (auto simp: approvals_call_def call)
    then show ?thesis using r(1) sync r(2) [OF False] same_in_sync [of sv sv' p] by (simp add: same_tables_def)
  qed
qed

lemma approvals_step_sync:
  assumes "approvals_sync a s"
  shows "approvals_sync a (approvals_step e a act s)"
proof -
  obtain p sv where s: "s = (p, sv)" by (cases s)
  note h = assms [unfolded s]
  have con: "connected a sv" and sync: "approvals_in_sync sv p" using h by simp_all
  have un: "ap_agents (unselect i p) = ap_agents p" "ap_policies (unselect i p) = ap_policies p" for i p
    by (simp_all add: unselect_def split: option.split)
  have noagent: "num_of q ''agent_id'' = None" if "ap_selected p = Some q" for q
    using sync that by (auto simp: approvals_in_sync_def pending_entries_def num_of_def approval_entries_def obj_get_def)
  show ?thesis unfolding s
  proof (cases act)
    case (ApSelect i)
    have "approvals_in_sync sv (select_approval e a sv (Some row) p)" if "row \<in> set (ap_approvals p)" for row
    proof -
      have "ap_approvals (select_approval e a sv (Some row) p) = ap_approvals p
          \<and> ap_agents (select_approval e a sv (Some row) p) = ap_agents p
          \<and> ap_policies (select_approval e a sv (Some row) p) = ap_policies p
          \<and> ap_selected (select_approval e a sv (Some row) p) = Some row"
        by (simp add: select_approval_def Let_def split: option.split list.split)
      then show ?thesis using sync that by (simp add: approvals_in_sync_def)
    qed
    then show "approvals_sync a (approvals_step e a act (p, sv))" using h by (auto simp: ApSelect dest: find_SomeD split: option.split)
  next
    case (ApResolve act')
    have "approvals_sync a (handle_resolve e a act' i (p, sv))" for i
      unfolding handle_resolve_def by (rule decision_sync [OF h]) (simp add: un)
    then show "approvals_sync a (approvals_step e a act (p, sv))"
      using h by (simp add: ApResolve del: approvals_sync_pair split: option.split)
  next
    case ApApproveRule
    have "ap_agents (unselect i (p\<lparr>ap_rule_entry := x\<rparr>)) = ap_agents p \<and> ap_policies (unselect i (p\<lparr>ap_rule_entry := x\<rparr>)) = ap_policies p
        \<and> ap_selected (unselect i (p\<lparr>ap_rule_entry := x\<rparr>)) = ap_selected (unselect i p)" for i p x
      by (simp add: unselect_def split: option.split)
    then have "approvals_sync a (approvals_call e a (CResolveApproval i ''approve'')
        (\<lambda>sv p. load_approvals e a sv (unselect i (p\<lparr>ap_rule_entry := Some (approval_to_entry q)\<rparr>))) (p, sv))" for i q
      by (intro decision_sync [OF h]) simp
    then show "approvals_sync a (approvals_step e a act (p, sv))"
      using h by (simp add: ApApproveRule handle_approve_and_rule_def del: approvals_sync_pair split: option.split)
  next
    case ApAssignMatch
    have "approvals_sync a (approve_matched e a i (p, sv))" for i
      unfolding approve_matched_def by (rule decision_sync [OF h]) (simp add: un)
    then show "approvals_sync a (approvals_step e a act (p, sv))"
      using h by (simp add: ApAssignMatch handle_assign_match_def noagent del: approvals_sync_pair split: option.split)
  next
    case (ApCreateRule b)
    have "approvals_sync a (handle_create_rule e a inp (p, sv))" for inp
    proof (cases "api e a (CCreateRule inp) sv")
      case None
      then show ?thesis using h by (simp add: handle_create_rule_def approvals_call_def)
    next
      case (Some y)
      obtain sv' res where y: "y = (sv', res)" by (cases y)
      have "connected a sv'" "approvals_in_sync sv' p"
        using changing_call_result(1) [OF _ con Some [unfolded y]]
          same_in_sync [OF create_rule_tables [OF con Some [unfolded y]]] sync by simp_all
      then show ?thesis
        by (auto simp: handle_create_rule_def approvals_call_def Some y approvals_in_sync_def split: client_result.split)
    qed
    then show "approvals_sync a (approvals_step e a act (p, sv))" using h by (simp add: ApCreateRule del: approvals_sync_pair)
  next
    case ApCloseBuilder
    then show "approvals_sync a (approvals_step e a act (p, sv))" using h by (simp add: approvals_in_sync_def)
  next
    case (ApEvent now t data)
    have "approvals_in_sync sv (load_approvals e a sv (p\<lparr>ap_resolved := xs\<rparr>))" "approvals_in_sync sv (load_approvals e a sv p)" for xs
      using sync by (intro load_approvals_sync [OF con]; simp add: approvals_in_sync_def)+
    then show "approvals_sync a (approvals_step e a act (p, sv))" using h by (simp add: ApEvent on_approval_event_def)
  qed
qed

interpretation approvals_machine: free_machine "\<lambda>s act. approvals_step e a act s" "approvals_sync a"
  by unfold_locales (rule approvals_step_sync)


section \<open>Resolved rows\<close>

lemma unnamed_row:
  assumes "obj_get kvs ''method'' = None" "obj_get kvs ''suggested_pattern'' = None" "obj_get kvs ''url'' = None"
  shows "resolved_text (resolved_entry now (JObj kvs)) = ''UNKNOWN Unknown''"
proof -
  have "obj_get (obj_put kvs ''resolved_at'' v) k = obj_get kvs k" if "k \<noteq> ''resolved_at''" for k v
    using that by (simp add: obj_get_def map_of_obj_put)
  then show ?thesis using assms by (simp add: resolved_text_def resolved_entry_def text_of_def)
qed

lemma row_badge: "resolved_badge (resolved_entry now (JObj kvs)) = (if text_of kvs ''action'' = ''approve'' then ''approved'' else ''rejected'')"
proof -
  have "text_of (obj_put kvs ''resolved_at'' v) ''action'' = text_of kvs ''action''" for v
    by (simp add: text_of_def obj_get_def map_of_obj_put)
  then show ?thesis by (simp add: resolved_badge_def resolved_entry_def)
qed

text \<open>
  The recently resolved rows say nothing of the request: the event the server emits for a decision, and the one for expired
  entries, name neither method nor URL, so the row the page adds (it keeps ten) always reads \<open>UNKNOWN Unknown\<close>; what
  expired is shown as rejected.
\<close>

theorem resolved_rows_unnamed:
  assumes "server_ok sv" "basic_auth (sv_auth sv) a"
    and "row_by_id aq_id (t_queue (sv_db sv)) (Some i) = Some q" "aq_status q = ''pending''"
    and "act \<in> {''approve'', ''reject''}"
  shows "(\<exists>data. (\<exists>sv' r. handle_request e a (ResolveApproval (Some i) (Some act) False) sv = Some (sv', r)
        \<and> sv_events sv' = emit ''approval.resolved'' data (sv_events sv))
    \<and> resolved_text (resolved_entry now data) = ''UNKNOWN Unknown''
    \<and> resolved_badge (resolved_entry now data) = (if act = ''approve'' then ''approved'' else ''rejected'')
    \<and> ap_resolved (on_approval_event e a sv2 now ''approval.resolved'' data p) = take 10 (resolved_entry now data # ap_resolved p))
    \<and> (sv_events (on_expire e sv) = sv_events sv
      \<or> (\<exists>data. sv_events (on_expire e sv) = emit ''approval.resolved'' data (sv_events sv)
          \<and> resolved_text (resolved_entry now data) = ''UNKNOWN Unknown'' \<and> resolved_badge (resolved_entry now data) = ''rejected''))"
proof -
  obtain d q' where r: "resolve (e_clock e) (sv_db sv) (Some i)
      \<lparr>re_action = Some act, re_resolved_by = Some ''api'', re_create_rule = False\<rparr> = Inr (d, Some q')"
    using resolve_pending [OF server_db_ok [OF assms(1)] assms(3-5)] by metis
  let ?data = "JObj [(''id'', JNum (aq_id q')), (''action'', JStr act)]"
  have "\<exists>sv' r. handle_request e a (ResolveApproval (Some i) (Some act) False) sv = Some (sv', r)
      \<and> sv_events sv' = emit ''approval.resolved'' ?data (sv_events sv)"
    using assms(2,5) r by (auto simp: handle_request_def resolve_approval_def auto_rule_def Let_def)
  moreover have "resolved_text (resolved_entry now ?data) = ''UNKNOWN Unknown''"
    by (rule unnamed_row) (simp_all add: obj_get_def)
  moreover have "resolved_badge (resolved_entry now ?data) = (if act = ''approve'' then ''approved'' else ''rejected'')"
    by (simp add: row_badge text_of_def obj_get_def)
  moreover have "ap_resolved (on_approval_event e a sv2 now ''approval.resolved'' ?data p) = take 10 (resolved_entry now ?data # ap_resolved p)"
    by (simp add: on_approval_event_def truthy_def)
  ultimately have decided: "\<exists>data. (\<exists>sv' r. handle_request e a (ResolveApproval (Some i) (Some act) False) sv = Some (sv', r)
        \<and> sv_events sv' = emit ''approval.resolved'' data (sv_events sv))
    \<and> resolved_text (resolved_entry now data) = ''UNKNOWN Unknown''
    \<and> resolved_badge (resolved_entry now data) = (if act = ''approve'' then ''approved'' else ''rejected'')
    \<and> ap_resolved (on_approval_event e a sv2 now ''approval.resolved'' data p) = take 10 (resolved_entry now data # ap_resolved p)"
    by blast
  have "resolved_text (resolved_entry now (JObj [(''expired'', JNum n)])) = ''UNKNOWN Unknown''" for n
    by (rule unnamed_row) (simp_all add: obj_get_def)
  moreover have "resolved_badge (resolved_entry now (JObj [(''expired'', JNum n)])) = ''rejected''" for n
    by (simp add: row_badge text_of_def obj_get_def)
  ultimately have "sv_events (on_expire e sv) = sv_events sv
    \<or> (\<exists>data. sv_events (on_expire e sv) = emit ''approval.resolved'' data (sv_events sv)
        \<and> resolved_text (resolved_entry now data) = ''UNKNOWN Unknown'' \<and> resolved_badge (resolved_entry now data) = ''rejected'')"
    by (auto simp: on_expire_def Let_def split: prod.splits)
  with decided show ?thesis by blast
qed

section \<open>Rules made from requests\<close>

lemma created_found:
  assumes "connected a sv" "api e a (CCreateRule inp) sv = Some (sv', res)" "res = NoValue \<or> (\<exists>v. res = Value v)"
  obtains d name pattern action where "create_rule (sv_db sv) inp = Inr (sv_db sv', Some (created_rule (seq_rules (sv_db sv) + 1) inp name pattern action))"
    "ri_name inp = Some name" "ri_url_pattern inp = Some pattern" "ri_action inp = Some action" "db_ok (sv_db sv')"
    "t_rules (sv_db sv') = t_rules (sv_db sv) @ [new_rule_row (seq_rules (sv_db sv) + 1) inp name pattern action]"
proof -
  have c: "server_ok sv" "sv_file sv = None" "basic_auth (sv_auth sv) a" using assms(1) by (simp_all add: connected_def)
  obtain resp where r: "post_rule e inp sv = (sv', Inr resp)" "response_ok resp"
    using call_succeeded [OF c(3) assms(2,3)] by auto
  then obtain d x where u: "create_rule (sv_db sv) inp = Inr (d, x)" "sv_db sv' = d"
    using c(2) by (auto simp: post_rule_def rules_create_def send_rules_reload_def read_only_reply_def reply_def response_ok_def
        split: if_splits sum.splits option.splits)
  from create_rule_Inr [OF server_db_ok [OF c(1)] u(1)] show thesis
    using that u by (metis db.select_convs(1) db.surjective db.update_convs(1) db.update_convs(2))
qed

lemma resolved_set:
  assumes "db_ok d" "resolve_agent_rules d (Some agent) = Some (Inr rs)"
  shows "set rs = rule_of ` set (agent_rows d agent)"
proof -
  have "rs = map rule_of (order_desc rr_priority (sort_key action_rank (agent_rows d agent)))"
    using assms(2) unfolding resolve_agent_rules_result [OF assms(1)] option.inject sum.inject by (rule sym)
  then show ?thesis by (simp add: order_desc_def)
qed

lemma rule_of_inj:
  assumes "db_ok d"
  shows "inj_on rule_of (set (t_rules d))"
proof (rule inj_onI)
  fix x y
  assume xy: "x \<in> set (t_rules d)" "y \<in> set (t_rules d)" "rule_of x = rule_of y"
  have "r_id (rule_of x) = rr_id x" "r_id (rule_of y) = rr_id y"
    by (rule rule_of_hits(3) [OF assms xy(1)], rule rule_of_hits(3) [OF assms xy(2)])
  with xy(3) have same: "rr_id x = rr_id y" by argo
  have "Some x = Some y"
    unfolding row_by_id_mem [OF rules_table_ok [OF assms] xy(1), symmetric] row_by_id_mem [OF rules_table_ok [OF assms] xy(2), symmetric]
      same ..
  then show "x = y" by (rule option.inject [THEN iffD1])
qed

lemma agent_row: "row \<in> set (agent_rows d agent) \<longleftrightarrow>
    row \<in> set (t_rules d) \<and> rr_enabled row = 1 \<and> (\<exists>p \<in> agent_policy_set d agent. rr_policy_id row = Some p)"
  unfolding agent_rows_def set_filter mem_Collect_eq by blast

lemma rule_in_agent_rules:
  assumes "db_ok d" "row \<in> set (t_rules d)" "resolve_agent_rules d (Some agent) = Some (Inr rs)"
  shows "rule_of row \<in> set rs \<longleftrightarrow> rr_enabled row = 1 \<and> (\<exists>p \<in> agent_policy_set d agent. rr_policy_id row = Some p)"
proof -
  have "set (agent_rows d agent) \<subseteq> set (t_rules d)" using agent_row by blast
  from inj_on_image_mem_iff [OF rule_of_inj [OF assms(1)] assms(2) this] show ?thesis
    unfolding resolved_set [OF assms(1,3)] agent_row using assms(2) by blast
qed

lemma first_pattern: "url \<noteq> [] \<Longrightarrow> \<exists>rest. generate_patterns url = (strip_protocol url, ''exact'') # rest"
  by (simp add: generate_patterns_def Let_def)


section \<open>The properties at concrete inputs\<close>

lemma queue_pending: "row_by_id aq_id (t_queue (sv_db (sample_server queue_db))) (Some 1) = Some pending_row"
  "aq_status pending_row = ''pending''"
  using queue_db_pending by (simp_all add: sample_server_def)


theorem approval_buttons_witness:
  "\<exists>p sv. handle_resolve sample_env (Some ''Basic dTpw'') ''approve'' 1 (approvals_page_new, sample_server queue_db) = (p, sv)
     \<and> (\<forall>row \<in> set (ap_approvals p). num_of row ''id'' \<noteq> Some 1)"
proof -
  obtain p sv where h: "handle_resolve sample_env (Some ''Basic dTpw'') ''approve'' 1 (approvals_page_new, sample_server queue_db) = (p, sv)"
    by fastforce
  have "\<forall>row \<in> set (ap_approvals p). num_of row ''id'' \<noteq> Some 1"
    using approval_buttons [OF sample_server_ok [OF queue_db_ok] sample_auth _ h] queue_pending by simp
  with h show ?thesis by blast
qed

theorem resolved_rows_unnamed_witness:
  "\<exists>data. resolved_text (resolved_entry ''t'' data) = ''UNKNOWN Unknown''
     \<and> (\<exists>sv r. handle_request sample_env (Some ''Basic dTpw'') (ResolveApproval (Some 1) (Some ''approve'') False)
            (sample_server queue_db) = Some (sv, r)
          \<and> sv_events sv = emit ''approval.resolved'' data (sv_events (sample_server queue_db)))"
proof -
  have "''approve'' \<in> {''approve'', ''reject''}" by simp
  from resolved_rows_unnamed [OF sample_server_ok [OF queue_db_ok] sample_auth queue_pending this, of sample_env "''t''"]
  show ?thesis by blast
qed

lemma create_answer:
  assumes "connected a sv" "\<not> source_is_file sv" "create_rule (sv_db sv) inp = Inr (d, Some r)"
  shows "\<exists>sv' v. api e a (CCreateRule inp) sv = Some (sv', Value v)"
proof -
  have c: "server_ok sv" "sv_file sv = None" "basic_auth (sv_auth sv) a" using assms(1) by (simp_all add: connected_def)
  have ok: "server_ok (sv\<lparr>sv_db := d\<rparr>)" using set_db_ok [OF c(1) create_rule_ok [OF server_db_ok [OF c(1)] assms(3)]] .
  obtain rules where "send_rules_reload e (sv\<lparr>sv_db := d\<rparr>)
    = Inr (send_msg e [(''type'', JStr ''rules.reload''), (''data'', JArr rules)] (sv\<lparr>sv_db := d\<rparr>))"
    using send_rules_reload_result [OF ok] by blast
  then show ?thesis using assms(2,3) c(2,3)
    by (simp add: api_def handle_request_def post_rule_def rules_create_def client_answer_def reply_def response_ok_def)
qed

definition held_entry :: object where
  "held_entry = [(''url'', JStr ''http://a.b/c''), (''method'', JStr ''GET'')]"


end
