(* ===== verification/Gui_Forms.thy ===== *)
theory Gui_Forms
  imports Gui_Rules
begin

text \<open>
  The modals of the rules page: \<open>components/MoveRuleModal.jsx\<close> and \<open>components/PolicyForm.jsx\<close>, and the menu of agents in
  \<open>components/PolicyDetail.jsx\<close>. The record is the state of their hooks; what they hand to the page are its actions
  \<open>ActMoveTo\<close>, \<open>ActSavePolicy\<close> and \<open>ActAssign\<close>.
\<close>

section \<open>State and effects\<close>

record rule_forms =
  fm_target :: string
  fm_name :: string
  fm_description :: string
  fm_assigning :: bool

definition rule_forms_new :: rule_forms where
  "rule_forms_new = \<lparr>fm_target = [], fm_name = [], fm_description = [], fm_assigning = False\<rparr>"

text \<open>The effects on \<open>open\<close> and the rule or the policy; they run when these change.\<close>

definition move_target :: "object \<Rightarrow> string" where
  "move_target row = (case num_of row ''policy_id'' of None \<Rightarrow> [] | Some i \<Rightarrow> show_int i)"

definition move_opened :: "rules_page \<Rightarrow> rules_page \<Rightarrow> rule_forms \<Rightarrow> rule_forms" where
  "move_opened old new f =
     (case rg_moving new of
        None \<Rightarrow> f
      | Some row \<Rightarrow> if rg_moving old = Some row then f else f\<lparr>fm_target := move_target row\<rparr>)"

definition policy_opened :: "rules_page \<Rightarrow> rules_page \<Rightarrow> rule_forms \<Rightarrow> rule_forms" where
  "policy_opened old new f =
     (if rg_editing_policy new = rg_editing_policy old then f
      else
        (case rg_editing_policy new of
           Closed \<Rightarrow> f
         | New \<Rightarrow> f\<lparr>fm_name := [], fm_description := []\<rparr>
         | Existing pol \<Rightarrow> f\<lparr>fm_name := text_of pol ''name'', fm_description := text_of pol ''description''\<rparr>))"

text \<open>The detail is only mounted while a policy is selected.\<close>

definition detail_left :: "rules_page \<Rightarrow> rule_forms \<Rightarrow> rule_forms" where
  "detail_left new f = (if rg_selected new = None then f\<lparr>fm_assigning := False\<rparr> else f)"

section \<open>Steps\<close>

datatype forms_action =
    Page rules_action
  | MoveTarget string
  | MoveSubmit
  | PolicyName string
  | PolicyText string
  | PolicySubmit
  | AssignMenu
  | AssignTo int
  | AssignBlur

text \<open>The actions the page itself offers; the other three come from the modals and the menu.\<close>

fun page_button :: "rules_action \<Rightarrow> bool" where
  "page_button (ActMoveTo _) = False"
| "page_button (ActSavePolicy _ _) = False"
| "page_button (ActAssign _) = False"
| "page_button _ = True"

definition to_page ::
  "env \<Rightarrow> string option \<Rightarrow> rules_action \<Rightarrow> rule_forms \<times> rules_page \<times> server \<Rightarrow> rule_forms \<times> rules_page \<times> server" where
  "to_page e a act = (\<lambda>(f, p, sv).
     (case rules_step e a act (p, sv) of
        (p', sv') \<Rightarrow> (detail_left p' (policy_opened p p' (move_opened p p' f)), p', sv')))"

definition move_options :: "rules_page \<Rightarrow> string list" where
  "move_options p =
     [] # concat (map (\<lambda>(i, _). case i of Some (JNum n) \<Rightarrow> [show_int n] | _ \<Rightarrow> []) (flatten_policies (rg_policies p)))"

definition offered_agents :: "rules_page \<Rightarrow> object list" where
  "offered_agents p =
     (case rg_policy p of None \<Rightarrow> [] | Some pol \<Rightarrow> if rg_read_only p then [] else unassigned_agents (rg_agents p) pol)"

text \<open>What the inputs of the two modals and of the menu do.\<close>

definition choose_target :: "string \<Rightarrow> rules_page \<Rightarrow> rule_forms \<Rightarrow> rule_forms" where
  [simp]: "choose_target v p f = (if rg_moving p \<noteq> None \<and> v \<in> set (move_options p) then f\<lparr>fm_target := v\<rparr> else f)"

definition move_submit ::
  "env \<Rightarrow> string option \<Rightarrow> rule_forms \<times> rules_page \<times> server \<Rightarrow> rule_forms \<times> rules_page \<times> server" where
  [simp]: "move_submit e a = (\<lambda>(f, p, sv). to_page e a (ActMoveTo (fm_target f)) (f, p, sv))"

definition set_policy_form :: "(rule_forms \<Rightarrow> rule_forms) \<Rightarrow> rules_page \<Rightarrow> rule_forms \<Rightarrow> rule_forms" where
  [simp]: "set_policy_form change p f = (if rg_editing_policy p = Closed then f else change f)"

definition policy_submit ::
  "env \<Rightarrow> string option \<Rightarrow> rule_forms \<times> rules_page \<times> server \<Rightarrow> rule_forms \<times> rules_page \<times> server" where
  [simp]: "policy_submit e a = (\<lambda>(f, p, sv).
     if fm_name f = [] then (f, p, sv) else to_page e a (ActSavePolicy (fm_name f) (fm_description f)) (f, p, sv))"

definition open_menu :: "rules_page \<Rightarrow> rule_forms \<Rightarrow> rule_forms" where
  [simp]: "open_menu p f = (if offered_agents p = [] then f else f\<lparr>fm_assigning := True\<rparr>)"

definition choose_agent ::
  "env \<Rightarrow> string option \<Rightarrow> int \<Rightarrow> rule_forms \<times> rules_page \<times> server \<Rightarrow> rule_forms \<times> rules_page \<times> server" where
  [simp]: "choose_agent e a i = (\<lambda>(f, p, sv).
     if fm_assigning f \<and> (\<exists>ag \<in> set (offered_agents p). num_of ag ''id'' = Some i)
     then to_page e a (ActAssign i) (f\<lparr>fm_assigning := False\<rparr>, p, sv) else (f, p, sv))"

fun forms_step ::
  "env \<Rightarrow> string option \<Rightarrow> forms_action \<Rightarrow> rule_forms \<times> rules_page \<times> server \<Rightarrow> rule_forms \<times> rules_page \<times> server" where
  "forms_step e a (Page act) (f, p, sv) = (if page_button act then to_page e a act (f, p, sv) else (f, p, sv))"
| "forms_step e a (MoveTarget v) (f, p, sv) = (choose_target v p f, p, sv)"
| "forms_step e a MoveSubmit (f, p, sv) = move_submit e a (f, p, sv)"
| "forms_step e a (PolicyName s) (f, p, sv) = (set_policy_form (fm_name_update (\<lambda>_. s)) p f, p, sv)"
| "forms_step e a (PolicyText s) (f, p, sv) = (set_policy_form (fm_description_update (\<lambda>_. s)) p f, p, sv)"
| "forms_step e a PolicySubmit (f, p, sv) = policy_submit e a (f, p, sv)"
| "forms_step e a AssignMenu (f, p, sv) = (open_menu p f, p, sv)"
| "forms_step e a (AssignTo i) (f, p, sv) = choose_agent e a i (f, p, sv)"
| "forms_step e a AssignBlur (f, p, sv) = (f\<lparr>fm_assigning := False\<rparr>, p, sv)"

definition forms_run ::
  "env \<Rightarrow> string option \<Rightarrow> forms_action list \<Rightarrow> rule_forms \<times> rules_page \<times> server \<Rightarrow> rule_forms \<times> rules_page \<times> server" where
  "forms_run e a acts s = foldl (\<lambda>s act. forms_step e a act s) s acts"

section \<open>Everything the forms do the page does\<close>

lemma to_page_sync: "sync a (snd s) \<Longrightarrow> sync a (snd (to_page e a act s))"
  using rules_step_sync [of a "snd s" e act] by (simp add: to_page_def split_beta)

interpretation forms_machine: free_machine "\<lambda>s act. forms_step e a act s" "\<lambda>s. sync a (snd s)"
proof unfold_locales
  fix s :: "rule_forms \<times> rules_page \<times> server" and act
  assume h: "sync a (snd s)"
  obtain f p sv where s: "s = (f, p, sv)" by (cases s)
  note page = to_page_sync [of a "(f, p, sv)" e for f p sv]
  show "sync a (snd (forms_step e a act s))"
    using h page unfolding s by (cases act) (simp_all del: sync_pair)
qed

lemma forms_run_append: "forms_run e a (xs @ ys) s = forms_run e a ys (forms_run e a xs s)"
  by (simp add: forms_run_def)

lemma forms_run_Cons: "forms_run e a (x # xs) s = forms_run e a xs (forms_step e a x s)"
  by (simp add: forms_run_def)

section \<open>Moving\<close>

lemma shown_rule_of_store:
  assumes "in_sync sv p" "db_ok (sv_db sv)" "shown_rule p i = Some row"
  obtains r where "r \<in> set (t_rules (sv_db sv))" "rr_id r = i" "row = rule_entries (rule_of r)" "num_of row ''policy_id'' = rr_policy_id r"
proof -
  from assms(3) have row: "row \<in> set (display_rules p)" "num_of row ''id'' = Some i"
    by (auto simp: shown_rule_def split: if_splits dest: find_SomeD)
  then have "row \<in> set (rg_rules p)" by (auto simp: display_rules_def order_desc_def split: option.splits)
  then obtain r where r: "r \<in> set (t_rules (sv_db sv))" "row = rule_entries (rule_of r)"
    using assms(1) by (auto simp: in_sync_def order_desc_def)
  obtain ms where "json_strings (rr_methods r) = Some ms" using rules_okD(1) [OF assms(2) r(1)] by auto
  with r row(2) show thesis using that by (simp add: rule_of_eq)
qed

lemma move_to_policy_found:
  assumes "db_ok d" "r \<in> set (t_rules d)" "fk (policy_exists d) pol"
  shows "\<exists>rule. move_to_policy d (Some (rr_id r)) pol =
      Inr (d\<lparr>t_rules := update_where rr_id (Some (rr_id r)) (\<lambda>row. row\<lparr>rr_policy_id := pol\<rparr>) (t_rules d)\<rparr>, Some rule)"
proof -
  have "row_by_id rr_id (t_rules d) (Some (rr_id r)) = Some r" by (rule row_by_id_mem [OF rules_table_ok [OF assms(1)] assms(2)])
  moreover have "\<exists>rule. deserialize (r\<lparr>rr_policy_id := pol\<rparr>) = Inr rule"
    using rules_okD(1) [OF assms(1,2)] by (auto simp: deserialize_def)
  ultimately show ?thesis using assms(3)
    by (auto simp: move_to_policy_def Let_def get_rule_def row_by_id_update_where)
qed

lemma move_answered:
  assumes "connected a sv" "\<not> source_is_file sv" "r \<in> set (t_rules (sv_db sv))" "fk (policy_exists (sv_db sv)) pol"
  obtains sv' v where "api e a (CMoveRule (rr_id r) pol) sv = Some (sv', Value v)"
    "sv_db sv' = (sv_db sv)\<lparr>t_rules := update_where rr_id (Some (rr_id r)) (\<lambda>row. row\<lparr>rr_policy_id := pol\<rparr>) (t_rules (sv_db sv))\<rparr>"
proof -
  have c: "server_ok sv" "sv_file sv = None" "basic_auth (sv_auth sv) a" using assms(1) by (simp_all add: connected_def)
  obtain rule where m: "move_to_policy (sv_db sv) (Some (rr_id r)) pol =
      Inr ((sv_db sv)\<lparr>t_rules := update_where rr_id (Some (rr_id r)) (\<lambda>row. row\<lparr>rr_policy_id := pol\<rparr>) (t_rules (sv_db sv))\<rparr>, Some rule)"
    using move_to_policy_found [OF server_db_ok [OF c(1)] assms(3,4)] by blast
  note ok = set_db_ok [OF c(1) move_to_policy_ok(1) [OF server_db_ok [OF c(1)] m]]
  let ?sv = "emit_event ''rules.changed'' (rule_id_json rule) (send_msg e (rules_reload_msg
      ((sv_db sv)\<lparr>t_rules := update_where rr_id (Some (rr_id r)) (\<lambda>row. row\<lparr>rr_policy_id := pol\<rparr>) (t_rules (sv_db sv))\<rparr>))
      (sv\<lparr>sv_db := (sv_db sv)\<lparr>t_rules := update_where rr_id (Some (rr_id r)) (\<lambda>row. row\<lparr>rr_policy_id := pol\<rparr>) (t_rules (sv_db sv))\<rparr>\<rparr>))"
  have "api e a (CMoveRule (rr_id r) pol) sv = Some (?sv, Value (rule_json rule))"
    using assms(2) c(2,3) m send_agents [OF ok, of e]
    by (simp add: api_def handle_request_def move_rule_def rules_move_def client_answer_def reply_def response_ok_def)
  then show thesis by (rule that) (simp add: emit_event_def send_msg_def)
qed

lemma move_options_exist:
  assumes "in_sync sv p" "v \<in> set (move_options p)"
  shows "v = [] \<or> (\<exists>i. to_number v = Some i \<and> policy_exists (sv_db sv) i)"
proof -
  have p: "rg_policies p = map policy_entries (list_policies (sv_db sv))" using assms(1) by (simp add: in_sync_def)
  have id: "obj_get (policy_entries pol) ''id'' = Some (JNum (p_id pol))" for pol by (simp add: policy_entries_def obj_get_def)
  have "v = [] \<or> (\<exists>pol \<in> set (list_policies (sv_db sv)). v = show_int (p_id pol))"
    using assms(2) unfolding move_options_def flatten_policies_def p tree_is_flat by (auto simp: id)
  then show ?thesis by (auto simp: to_number_show_int list_policies_def policy_exists_def)
qed

definition target_policy :: "string \<Rightarrow> int option" where
  "target_policy v = (if v = [] then None else to_number v)"

lemma move_target_policy: "target_policy (move_target row) = num_of row ''policy_id''"
proof -
  have "show_int i \<noteq> []" for i using show_int_first [of i] by auto
  then show ?thesis by (simp add: target_policy_def move_target_def to_number_show_int split: option.split)
qed

lemma chosen_target:
  assumes "rg_moving p \<noteq> None" "set vs \<subseteq> set (move_options p)"
  shows "\<exists>f'. forms_run e a (map MoveTarget vs) (f, p, sv) = (f', p, sv) \<and> fm_target f' = (if vs = [] then fm_target f else last vs)"
  using assms(2)
proof (induction vs arbitrary: f)
  case (Cons v vs)
  from Cons.IH [of "f\<lparr>fm_target := v\<rparr>"] Cons.prems assms(1) show ?case by (auto simp: forms_run_Cons)
qed (simp add: forms_run_def)

lemma reload_keeps_modals: "rg_moving (reload e a sv p) = rg_moving p" "rg_editing_policy (reload e a sv p) = rg_editing_policy p"
  by (auto simp: reload_def fetch_policy_def Let_def split: option.splits json.splits)

text \<open>
  C19: The modal of a move: opened on a shown rule, with any choices among its options, and submitted, it moves exactly that rule to the
  policy chosen last, and closes; submitted as it opens it changes nothing. The page then shows the new store.
\<close>

theorem move_modal:
  assumes "sync a (p, sv)" "\<not> source_is_file sv" "rg_moving p = None" "shown_rule p i = Some row"
    and "set vs \<subseteq> set (move_options p)"
    and "forms_run e a (Page (ActMoveRule i) # map MoveTarget vs @ [MoveSubmit]) (f, p, sv) = (f', p', sv')"
  shows "sv_db sv' = (sv_db sv)\<lparr>t_rules := update_where rr_id (Some i)
        (\<lambda>r. r\<lparr>rr_policy_id := if vs = [] then rr_policy_id r else target_policy (last vs)\<rparr>) (t_rules (sv_db sv))\<rparr>
    \<and> (vs = [] \<longrightarrow> sv_db sv' = sv_db sv) \<and> rg_moving p' = None \<and> sync a (p', sv')"
proof -
  have con: "connected a sv" and insync: "in_sync sv p" using assms(1) by simp_all
  have ok: "db_ok (sv_db sv)" using con by (simp add: connected_def server_db_ok)
  obtain r where r: "r \<in> set (t_rules (sv_db sv))" "rr_id r = i" "num_of row ''policy_id'' = rr_policy_id r"
    using shown_rule_of_store [OF insync ok assms(4)] by blast
  have id: "num_of row ''id'' = Some i" using assms(4) by (auto simp: shown_rule_def split: if_splits dest: find_SomeD)
  let ?p1 = "p\<lparr>rg_moving := Some row\<rparr>"
  let ?pol = "if vs = [] then rr_policy_id r else target_policy (last vs)"
  obtain f1 where f1: "forms_step e a (Page (ActMoveRule i)) (f, p, sv) = (f1, ?p1, sv)" "fm_target f1 = move_target row"
    using assms(3,4) by (auto simp: to_page_def move_opened_def policy_opened_def detail_left_def)
  have "set vs \<subseteq> set (move_options ?p1)" using assms(5) by (simp add: move_options_def)
  then obtain f2 where f2: "forms_run e a (map MoveTarget vs) (f1, ?p1, sv) = (f2, ?p1, sv)" "target_policy (fm_target f2) = ?pol"
    using chosen_target [of ?p1 vs e a f1 sv] f1(2) move_target_policy [of row] r(3) by auto
  have "fk (policy_exists (sv_db sv)) ?pol"
  proof (cases "vs = []")
    case True
    then show ?thesis using rules_okD(3) [OF ok r(1)] by simp
  next
    case False
    then have "last vs \<in> set (move_options p)" using assms(5) by auto
    from move_options_exist [OF insync this] False show ?thesis by (auto simp: target_policy_def)
  qed
  from move_answered [OF con assms(2) r(1) this] r(2) obtain sv1 v where
    m: "api e a (CMoveRule i ?pol) sv = Some (sv1, Value v)"
      "sv_db sv1 = (sv_db sv)\<lparr>t_rules := update_where rr_id (Some i) (\<lambda>row. row\<lparr>rr_policy_id := ?pol\<rparr>) (t_rules (sv_db sv))\<rparr>"
    by metis
  have "rules_step e a (ActMoveTo (fm_target f2)) (?p1, sv) = (reload e a sv1 (?p1\<lparr>rg_moving := None\<rparr>), sv1)"
    using m(1) f2(2) id by (simp add: handle_move_rule_def calling_def target_policy_def)
  moreover have "forms_run e a [MoveSubmit] (f2, ?p1, sv) = (f', p', sv')"
    using assms(6) by (simp add: forms_run_Cons forms_run_append f1(1) f2(1) del: forms_step.simps)
  ultimately have fin: "p' = reload e a sv1 (?p1\<lparr>rg_moving := None\<rparr>)" "sv' = sv1"
    by (auto simp: forms_run_def to_page_def)
  have same: "update_where rr_id (Some i) (\<lambda>r. r\<lparr>rr_policy_id := if vs = [] then rr_policy_id r else target_policy (last vs)\<rparr>)
        (t_rules (sv_db sv)) = update_where rr_id (Some i) (\<lambda>row. row\<lparr>rr_policy_id := ?pol\<rparr>) (t_rules (sv_db sv))"
    unfolding update_where_def
  proof (rule map_cong [OF refl])
    fix x assume x: "x \<in> set (t_rules (sv_db sv))"
    have "rr_id x = i \<Longrightarrow> x = r"
      using row_by_id_mem [OF rules_table_ok [OF ok] x] row_by_id_mem [OF rules_table_ok [OF ok] r(1)] r(2) by simp
    then show "(if Some (rr_id x) = Some i then x\<lparr>rr_policy_id := if vs = [] then rr_policy_id x else target_policy (last vs)\<rparr> else x)
        = (if Some (rr_id x) = Some i then x\<lparr>rr_policy_id := ?pol\<rparr> else x)" by auto
  qed
  have db: "sv_db sv' = (sv_db sv)\<lparr>t_rules := update_where rr_id (Some i)
        (\<lambda>r. r\<lparr>rr_policy_id := if vs = [] then rr_policy_id r else target_policy (last vs)\<rparr>) (t_rules (sv_db sv))\<rparr>"
    by (simp only: fin m(2) same)
  moreover have "vs = [] \<longrightarrow> sv_db sv' = sv_db sv" unfolding db by (simp add: update_where_def)
  moreover have "rg_moving p' = None" by (simp add: fin reload_keeps_modals)
  moreover have "sync a (snd (forms_run e a (Page (ActMoveRule i) # map MoveTarget vs @ [MoveSubmit]) (f, p, sv)))"
    unfolding forms_run_def by (rule forms_machine.good_always) (use assms(1) in simp)
  ultimately show ?thesis using assms(6) by (simp del: sync_pair)
qed

section \<open>Editing a policy\<close>

lemma policy_rewritten:
  assumes "db_ok d" "row_by_id pr_id (t_policies d) (Some i) = Some row"
  defines "d' \<equiv> d\<lparr>t_policies := update_where pr_id (Some i)
      (\<lambda>_. row\<lparr>pr_name := pr_name row, pr_description := Some (or_else (pr_description row) [])\<rparr>) (t_policies d)\<rparr>"
  shows "\<exists>pol. update_policy d (Some i) [PcName (Some (pr_name row)), PcDescription (Some (or_else (pr_description row) []))]
      = Inr (d', Some pol)"
    and "list_policies d' = list_policies d"
proof -
  have mem: "row \<in> set (t_policies d)" "pr_id row = i" using row_by_id_SomeD [OF assms(2)] by auto
  have same: "q = row" if "q \<in> set (t_policies d)" "pr_name q = pr_name row" for q
    using policy_names [OF assms(1)] that mem(1) by (auto simp: distinct_map dest: inj_onD)
  let ?new = "row\<lparr>pr_name := pr_name row, pr_description := Some (or_else (pr_description row) [])\<rparr>"
  have "row_by_id pr_id (update_where pr_id (Some i) (\<lambda>_. ?new) (t_policies d)) (Some i) = Some ?new"
    using row_by_id_update_where [where key = pr_id and i = "Some i" and f = "\<lambda>_. ?new" and rows = "t_policies d" and j = "Some i"]
      assms(2) mem(2) by simp
  moreover from same have unique: "\<not> (\<exists>q \<in> set (t_policies d). pr_id q \<noteq> pr_id row \<and> pr_name q = pr_name row)" by blast
  ultimately show "\<exists>pol. update_policy d (Some i) [PcName (Some (pr_name row)), PcDescription (Some (or_else (pr_description row) []))]
      = Inr (d', Some pol)"
    using assms(2) mem(2)
    by (simp add: update_policy_def run_policy_update_def unknown_policy_columns_def get_policy_def d'_def)
  have "q = row" if "q \<in> set (t_policies d)" "pr_id q = i" for q
    using row_by_id_mem [OF policies_table_ok [OF assms(1)] that(1)] that(2) assms(2) by simp
  then show "list_policies d' = list_policies d"
    by (auto simp: list_policies_def d'_def update_where_def deserialize_policy_def or_else_def split: option.split)
qed

text \<open>
  The form of a policy, opened and saved as it is, changes no policy the server lists and nothing else (a missing description
  is stored as the empty one), and closes.
\<close>

theorem policy_form_untouched:
  assumes "sync a (p, sv)" "rg_editing_policy p = Closed" "\<not> rg_read_only p" "rg_selected p = Some i"
    and "text_of (the (rg_policy p)) ''name'' \<noteq> []"
    and "forms_run e a [Page ActEditPolicy, PolicySubmit] (f, p, sv) = (f', p', sv')"
  shows "list_policies (sv_db sv') = list_policies (sv_db sv)
    \<and> sv_db sv' = (sv_db sv)\<lparr>t_policies := t_policies (sv_db sv')\<rparr> \<and> rg_editing_policy p' = Closed"
proof -
  have con: "connected a sv" and insync: "in_sync sv p" using assms(1) by simp_all
  have c: "server_ok sv" "basic_auth (sv_auth sv) a" using con by (simp_all add: connected_def)
  have ok: "db_ok (sv_db sv)" by (rule server_db_ok [OF c(1)])
  obtain row where row: "row_by_id pr_id (t_policies (sv_db sv)) (Some i) = Some row"
    using insync assms(4) by (auto simp: in_sync_def get_policy_def)
  have pol: "rg_policy p = Some (policy_detail sv i)" using insync assms(4) by (simp add: in_sync_def)
  have detail: "text_of (policy_detail sv i) ''name'' = pr_name row" "num_of (policy_detail sv i) ''id'' = Some i"
    "text_of (policy_detail sv i) ''description'' = or_else (pr_description row) []"
    using row row_by_id_SomeD [OF row]
    by (simp_all add: policy_detail_def get_policy_def text_of_def num_of_def obj_get_def policy_entries_def deserialize_policy_def)
  let ?p1 = "p\<lparr>rg_editing_policy := Existing (policy_detail sv i)\<rparr>"
  obtain f1 where f1: "forms_step e a (Page ActEditPolicy) (f, p, sv) = (f1, ?p1, sv)"
      "fm_name f1 = pr_name row" "fm_description f1 = or_else (pr_description row) []"
    using assms(2,3,4) by (auto simp: to_page_def pol move_opened_def policy_opened_def detail_left_def detail split: option.splits)
  let ?ch = "[PcName (Some (pr_name row)), PcDescription (Some (or_else (pr_description row) []))]"
  obtain d pl where u: "update_policy (sv_db sv) (Some i) ?ch = Inr (d, Some pl)" "list_policies d = list_policies (sv_db sv)"
      "d = (sv_db sv)\<lparr>t_policies := t_policies d\<rparr>"
    using policy_rewritten [OF ok row] by auto
  have okd: "server_ok (sv\<lparr>sv_db := d\<rparr>)" by (rule set_db_ok [OF c(1) update_policy_ok [OF ok u(1)]])
  obtain sv1 v where m: "api e a (CUpdatePolicy i ?ch) sv = Some (sv1, Value v)" "sv_db sv1 = d"
    using c(2) u(1) policies_changed_result [OF okd]
    by (auto simp: api_def handle_request_def put_policy_def client_answer_def reply_def response_ok_def emit_event_def send_msg_def)
  have "rules_step e a (ActSavePolicy (fm_name f1) (fm_description f1)) (?p1, sv)
      = (reload e a sv1 (?p1\<lparr>rg_editing_policy := Closed\<rparr>), sv1)"
    using m(1) by (simp add: handle_save_policy_def calling_def f1 detail)
  moreover have "forms_run e a [PolicySubmit] (f1, ?p1, sv) = (f', p', sv')"
    using assms(6) by (simp add: forms_run_Cons f1(1) del: forms_step.simps)
  moreover have "fm_name f1 \<noteq> []" using assms(5) by (simp add: pol detail f1)
  ultimately have "p' = reload e a sv1 (?p1\<lparr>rg_editing_policy := Closed\<rparr>)" "sv' = sv1"
    by (auto simp: forms_run_def to_page_def)
  then show ?thesis using u(2,3) m(2) by (simp add: reload_keeps_modals)
qed

section \<open>Assigning an agent\<close>

lemma detail_agents:
  "policy_agents (policy_detail sv i)
    = map (\<lambda>(ag, name). [(''id'', JNum ag), (''name'', JStr name)]) (get_policy_agents (sv_db sv) (Some i))"
proof -
  have "objects_of (map (\<lambda>(ag, name). JObj [(''id'', JNum ag), (''name'', JStr name)]) xs)
      = map (\<lambda>(ag, name). [(''id'', JNum ag), (''name'', JStr name)]) xs" for xs :: "(int \<times> string) list"
    by (rule objects_of_map) (simp add: case_prod_unfold)
  then show ?thesis by (simp add: policy_agents_def policy_detail_def policy_entries_def obj_get_def)
qed

lemma offered_iff:
  assumes "in_sync sv p" "rg_selected p = Some i" "\<not> rg_read_only p"
  shows "(\<exists>ag \<in> set (offered_agents p). num_of ag ''id'' = Some j)
    \<longleftrightarrow> agent_exists (sv_db sv) j \<and> (j, i) \<notin> set (t_agent_policies (sv_db sv))"
proof -
  have p: "rg_policy p = Some (policy_detail sv i)" "rg_agents p = map agent_entries (list_agents (sv_db sv))"
    using assms(1,2) by (simp_all add: in_sync_def)
  have id: "obj_get (agent_entries x) ''id'' = Some (JNum (a_id x))" "num_of (agent_entries x) ''id'' = Some (a_id x)" for x
    by (simp_all add: agent_entries_def obj_get_def num_of_def)
  have "(\<lambda>x. obj_get x ''id'') ` set (policy_agents (policy_detail sv i))
      = (\<lambda>ag. Some (JNum ag)) ` {ag. agent_exists (sv_db sv) ag \<and> (ag, i) \<in> set (t_agent_policies (sv_db sv))}"
    by (force simp: detail_agents get_policy_agents_def agent_exists_def obj_get_def)
  then show ?thesis
    by (auto simp: offered_agents_def unassigned_agents_def p assms(3) id list_agents_def deserialize_agent_def agent_exists_def)
qed

text \<open>
  The menu of agents: it offers exactly the agents the policy does not have; one that is chosen is assigned, and that alone is
  changed; the menu closes, the detail then shows the agent, and the menu no longer offers it.
\<close>

theorem assign_menu:
  assumes "sync a (p, sv)" "rg_selected p = Some i" "ag \<in> set (offered_agents p)" "num_of ag ''id'' = Some j"
    and "forms_run e a [AssignMenu, AssignTo j] (f, p, sv) = (f', p', sv')"
  shows "(j, i) \<notin> set (t_agent_policies (sv_db sv))
    \<and> sv_db sv' = (sv_db sv)\<lparr>t_agent_policies := t_agent_policies (sv_db sv) @ [(j, i)]\<rparr> \<and> \<not> fm_assigning f'
    \<and> (\<exists>chip \<in> set (policy_agents (the (rg_policy p'))). num_of chip ''id'' = Some j)
    \<and> (\<forall>x \<in> set (offered_agents p'). num_of x ''id'' \<noteq> Some j)"
proof -
  have con: "connected a sv" and insync: "in_sync sv p" using assms(1) by simp_all
  have c: "server_ok sv" "basic_auth (sv_auth sv) a" using con by (simp_all add: connected_def)
  have ok: "db_ok (sv_db sv)" by (rule server_db_ok [OF c(1)])
  have writable: "\<not> rg_read_only p" using assms(3) by (auto simp: offered_agents_def split: option.splits if_splits)
  from offered_iff [OF insync assms(2) writable] assms(3,4)
  have new: "agent_exists (sv_db sv) j" "(j, i) \<notin> set (t_agent_policies (sv_db sv))" by blast+
  let ?d = "(sv_db sv)\<lparr>t_agent_policies := t_agent_policies (sv_db sv) @ [(j, i)]\<rparr>"
  have found: "get_policy (sv_db sv) (Some i) \<noteq> None" using insync assms(2) by (simp add: in_sync_def)
  then have "assign_to_agent (sv_db sv) (Some i) (Some j) = Inr ?d"
    using new unfolding policy_listed by (simp add: assign_to_agent_def policy_exists_def)
  moreover from this have okd: "server_ok (sv\<lparr>sv_db := ?d\<rparr>)" by (rule set_db_ok [OF c(1) assign_to_agent_ok [OF ok]])
  ultimately obtain sv1 v where m: "api e a (CAssignPolicyAgent i j) sv = Some (sv1, Value v)" "sv_db sv1 = ?d"
    using c(2) policies_changed_result [OF okd]
    by (auto simp: api_def handle_request_def post_policy_agent_def client_answer_def reply_def response_ok_def
        emit_event_def send_msg_def)
  have con1: "connected a sv1" using changing_call_result(1) [OF _ con m(1)] by simp
  have step: "rules_step e a (ActAssign j) (p, sv) = (reload e a sv1 p, sv1)"
    using m(1) writable assms(2) by (simp add: handle_assign_def calling_def)
  have "offered_agents p \<noteq> []" "\<exists>x \<in> set (offered_agents p). num_of x ''id'' = Some j" using assms(3,4) by auto
  with assms(5) step have fin: "p' = reload e a sv1 p" "sv' = sv1"
      "f' = detail_left p' (policy_opened p p' (move_opened p p' (f\<lparr>fm_assigning := False\<rparr>)))"
    by (auto simp: forms_run_def to_page_def)
  have kept: "case rg_selected p of None \<Rightarrow> rg_policy p = None | Some i \<Rightarrow> get_policy (sv_db sv1) (Some i) \<noteq> None"
    using found assms(2) by (simp add: get_policy_def m(2))
  note sel = reload_sync [OF con1 kept, of e, folded fin(1)]
  have p': "rg_selected p' = Some i" "rg_policy p' = Some (policy_detail sv1 i)"
    using sel assms(2) by (simp_all add: in_sync_def)
  have "\<not> (\<exists>x \<in> set (offered_agents p'). num_of x ''id'' = Some j)"
  proof (cases "rg_read_only p'")
    case True
    then show ?thesis by (simp add: offered_agents_def split: option.split)
  next
    case False
    from offered_iff [OF sel(1) p'(1) this, of j] show ?thesis by (simp add: m(2))
  qed
  moreover have "\<exists>chip \<in> set (policy_agents (policy_detail sv1 i)). num_of chip ''id'' = Some j"
    using new(1) by (force simp: detail_agents get_policy_agents_def m(2) agent_exists_def num_of_def obj_get_def)
  moreover have "\<not> fm_assigning f'"
    by (simp add: fin(3) detail_left_def policy_opened_def move_opened_def split: option.split editing.split)
  ultimately show ?thesis using new(2) m(2) by (auto simp: p' fin(2))
qed

section \<open>The modals at a concrete store\<close>

definition tree_page :: rules_page where
  "tree_page = rules_page_new\<lparr>rg_rules := map rule_entries (map rule_of (order_desc rr_priority (t_rules tree_db))),
     rg_policies := map policy_entries (list_policies tree_db), rg_agents := map agent_entries (list_agents tree_db)\<rparr>"

lemma tree_page_sync: "sync (Some ''Basic dTpw'') (tree_page, sample_server tree_db)"
  using tree_connected by (simp add: in_sync_def tree_page_def rules_page_new_def sample_server_def)

lemma tree_shown: "shown_rule tree_page 1 = Some (rule_entries (rule_of (hd (t_rules tree_db))))"
proof -
  have r: "t_rules tree_db = [hd (t_rules tree_db)]" "rr_id (hd (t_rules tree_db)) = 1"
    by (simp_all add: tree_db_def sample_rule_def)
  then have "rr_methods (hd (t_rules tree_db)) = rr_methods sample_rule" by (simp add: tree_db_def)
  then obtain ms where "json_strings (rr_methods (hd (t_rules tree_db))) = Some ms"
    using rules_okD(1) [OF tree_db_ok, of "hd (t_rules tree_db)"] r(1) by (metis list.set_intros(1) not_Some_eq)
  then have id: "r_id (rule_of (hd (t_rules tree_db))) = 1" by (simp add: rule_of_eq r(2))
  have "display_rules tree_page = [rule_entries (rule_of (hd (t_rules tree_db)))]"
  proof -
    have "order_desc rr_priority (t_rules tree_db) = [hd (t_rules tree_db)]" by (subst r(1)) (simp add: order_desc_def)
    then show ?thesis by (simp add: display_rules_def tree_page_def rules_page_new_def order_desc_def [of priority_of])
  qed
  then show ?thesis by (simp add: shown_rule_def id tree_page_def rules_page_new_def)
qed

theorem move_modal_witness:
  "\<exists>f p sv. forms_run sample_env (Some ''Basic dTpw'') [Page (ActMoveRule 1), MoveTarget [], MoveSubmit]
        (rule_forms_new, tree_page, sample_server tree_db) = (f, p, sv)
     \<and> map rr_policy_id (t_rules (sv_db sv)) = [None] \<and> map rr_policy_id (t_rules tree_db) = [Some 2]"
proof -
  obtain f p sv where run: "forms_run sample_env (Some ''Basic dTpw'') (Page (ActMoveRule 1) # map MoveTarget [[]] @ [MoveSubmit])
      (rule_forms_new, tree_page, sample_server tree_db) = (f, p, sv)"
    by (metis prod_cases3)
  have "\<not> source_is_file (sample_server tree_db)"
    by (simp add: source_is_file_def sample_server_def defaults_def field_def obj_get_def)
  moreover have "rg_moving tree_page = None" by (simp add: tree_page_def rules_page_new_def)
  moreover have "set [[]] \<subseteq> set (move_options tree_page)" by (simp add: move_options_def)
  ultimately have "sv_db sv = (sv_db (sample_server tree_db))\<lparr>t_rules := update_where rr_id (Some 1)
      (\<lambda>r. r\<lparr>rr_policy_id := if [[]] = ([] :: string list) then rr_policy_id r else target_policy (last [[]])\<rparr>)
      (t_rules (sv_db (sample_server tree_db)))\<rparr>"
    using move_modal [OF tree_page_sync _ _ tree_shown _ run] by blast
  then have "map rr_policy_id (t_rules (sv_db sv)) = [None]"
    by (simp add: sample_server_def tree_db_def sample_rule_def update_where_def target_policy_def)
  moreover have "map rr_policy_id (t_rules tree_db) = [Some 2]" by (simp add: tree_db_def)
  ultimately show ?thesis using run by auto
qed

theorem assign_menu_witness:
  "\<exists>f p sv. forms_run sample_env (Some ''Basic dTpw'') [AssignMenu, AssignTo 1]
        (rule_forms_new, tree_page\<lparr>rg_selected := Some 2, rg_policy := Some (policy_detail (sample_server tree_db) 2)\<rparr>,
         sample_server tree_db) = (f, p, sv)
     \<and> t_agent_policies (sv_db sv) = [(1, 1), (1, 2)]"
proof -
  let ?p = "tree_page\<lparr>rg_selected := Some 2, rg_policy := Some (policy_detail (sample_server tree_db) 2)\<rparr>"
  obtain f p sv where run: "forms_run sample_env (Some ''Basic dTpw'') [AssignMenu, AssignTo 1]
      (rule_forms_new, ?p, sample_server tree_db) = (f, p, sv)"
    by (metis prod_cases3)
  have found: "get_policy tree_db (Some 2) \<noteq> None" unfolding policy_listed by (simp add: tree_db_def new_policy_row_def)
  have sync: "sync (Some ''Basic dTpw'') (?p, sample_server tree_db)"
    using tree_page_sync found by (simp add: in_sync_def sample_server_def)
  have "\<exists>ag \<in> set (offered_agents ?p). num_of ag ''id'' = Some 1"
  proof -
    have "in_sync (sample_server tree_db) ?p" "rg_selected ?p = Some 2" "\<not> rg_read_only ?p"
      using sync by (simp_all add: tree_page_def rules_page_new_def)
    from offered_iff [OF this, of 1] show ?thesis
      by (simp add: sample_server_def tree_db_def agent_exists_def sample_agent_def)
  qed
  then obtain ag where ag: "ag \<in> set (offered_agents ?p)" "num_of ag ''id'' = Some 1" by blast
  have "rg_selected ?p = Some 2" by simp
  from assign_menu [OF sync this ag run] have "t_agent_policies (sv_db sv) = [(1, 1), (1, 2)]"
    by (simp add: sample_server_def tree_db_def)
  with run show ?thesis by blast
qed

end
