(* ===== verification/Gui_Shell.thy ===== *)
theory Gui_Shell
  imports Answers Complex_Main
begin

text \<open>
  The frame of the browser application: the form of \<open>pages/Login.jsx\<close> and the session of \<open>App.jsx\<close>, the theme of
  \<open>theme/useTheme.js\<close>, the divider of \<open>components/SplitPane.jsx\<close> and the version line of \<open>components/TopNav.jsx\<close>.
\<close>

section \<open>Login form and session\<close>

text \<open>
  \<open>sh_request\<close> are the credentials of the probe that is not answered yet, \<open>sh_session\<close> is the session storage.
\<close>

record shell =
  sh_user :: "nat list"
  sh_pass :: "nat list"
  sh_error :: string
  sh_loading :: bool
  sh_request :: "string option"
  sh_session :: "string option"
  sh_credentials :: "string option"
  sh_pending :: nat
  sh_proxy :: bool
  sh_version :: "json option"
  sh_commit :: "json option"

text \<open>A page that is loaded, with what the session storage holds.\<close>

definition shell_load :: "string option \<Rightarrow> shell" where
  "shell_load session = \<lparr>sh_user = [], sh_pass = [], sh_error = '''', sh_loading = False, sh_request = None,
     sh_session = session, sh_credentials = session, sh_pending = 0, sh_proxy = False, sh_version = None, sh_commit = None\<rparr>"

text \<open>\<open>if (!credentials) return <Login/>\<close>.\<close>

definition shows_login :: "shell \<Rightarrow> bool" where
  "shows_login s \<longleftrightarrow> sh_credentials s = None \<or> sh_credentials s = Some []"

text \<open>
  \<open>handleSubmit\<close> up to its first \<open>await\<close>. The browser does not submit a form whose required fields are empty or
  whose button is disabled. \<open>btoa\<close> stands outside of the \<open>try\<close>: when it throws the rest does not run.
\<close>

definition submit_login :: "shell \<Rightarrow> shell" where
  "submit_login s =
     (if \<not> shows_login s \<or> sh_loading s \<or> sh_user s = [] \<or> sh_pass s = [] then s
      else (let s' = s\<lparr>sh_loading := True, sh_error := ''''\<rparr>
            in case btoa (sh_user s @ 58 # sh_pass s) of None \<Rightarrow> s' | Some c \<Rightarrow> s'\<lparr>sh_request := Some c\<rparr>))"

text \<open>\<open>handleLogin\<close>; the form is unmounted with what was typed into it.\<close>

definition handle_login :: "string \<Rightarrow> shell \<Rightarrow> shell" where
  "handle_login c s = s\<lparr>sh_session := Some c, sh_credentials := Some c, sh_user := [], sh_pass := []\<rparr>"

text \<open>The rest of \<open>handleSubmit\<close>, for the answer of the server or \<open>None\<close> for a failed fetch.\<close>

definition login_answered :: "(string \<Rightarrow> response option) \<Rightarrow> shell \<Rightarrow> shell" where
  "login_answered answer s =
     (case sh_request s of
        None \<Rightarrow> s
      | Some c \<Rightarrow>
          (let s' = s\<lparr>sh_request := None, sh_loading := False\<rparr>
           in if (case answer (''Basic '' @ c) of None \<Rightarrow> False | Some r \<Rightarrow> response_ok r)
              then handle_login c s' else s'\<lparr>sh_error := ''Invalid username or password''\<rparr>))"

definition probe :: "env \<Rightarrow> server \<Rightarrow> string \<Rightarrow> response option" where
  "probe e sv h = map_option snd (handle_request e (Some h) GetRules sv)"

definition handle_logout :: "shell \<Rightarrow> shell" where
  "handle_logout s = s\<lparr>sh_session := None, sh_credentials := None\<rparr>"

text \<open>
  The effect that reads the status and the pending approvals once for new credentials; \<open>catch\<close> ignores errors.
\<close>

definition member :: "json \<Rightarrow> string \<Rightarrow> json option" where
  "member v k = (case v of JObj kvs \<Rightarrow> obj_get kvs k | _ \<Rightarrow> None)"

definition read_status :: "client_result \<Rightarrow> shell \<Rightarrow> shell" where
  "read_status res s =
     (case res of
        Value v \<Rightarrow>
          (let flag = (\<lambda>k. truthy (Option.bind (member v ''proxy'') (\<lambda>p. member p k)));
               kept = (\<lambda>k old. if truthy (member v k) then member v k else old)
           in s\<lparr>sh_proxy := flag ''connected'' \<or> flag ''running'',
                sh_version := kept ''version'' (sh_version s), sh_commit := kept ''commit'' (sh_commit s)\<rparr>)
      | _ \<Rightarrow> s)"

definition read_approvals :: "client_result \<Rightarrow> shell \<Rightarrow> shell" where
  "read_approvals res s = (case res of Value (JArr vs) \<Rightarrow> s\<lparr>sh_pending := length vs\<rparr> | _ \<Rightarrow> s)"

datatype shell_input =
    TypeUser "nat list"
  | TypePass "nat list"
  | Submit
  | Probed env server
  | Unreachable
  | LogOut
  | Reload
  | StatusRead env server
  | ApprovalsRead env server
  | Heard string

definition app_call :: "env \<Rightarrow> api_call \<Rightarrow> server \<Rightarrow> shell \<Rightarrow> client_result option" where
  "app_call e c sv s = Option.bind (sh_credentials s) (\<lambda>cr. map_option snd (api e (Some (''Basic '' @ cr)) c sv))"

fun shell_step :: "shell_input \<Rightarrow> shell \<Rightarrow> shell" where
  "shell_step (TypeUser u) s = (if shows_login s then s\<lparr>sh_user := u\<rparr> else s)"
| "shell_step (TypePass p) s = (if shows_login s then s\<lparr>sh_pass := p\<rparr> else s)"
| "shell_step Submit s = submit_login s"
| "shell_step (Probed e sv) s = login_answered (probe e sv) s"
| "shell_step Unreachable s = login_answered (\<lambda>_. None) s"
| "shell_step LogOut s = (if shows_login s then s else handle_logout s)"
| "shell_step Reload s = shell_load (sh_session s)"
| "shell_step (StatusRead e sv) s =
     (if shows_login s then s else case app_call e CGetStatus sv s of None \<Rightarrow> s | Some res \<Rightarrow> read_status res s)"
| "shell_step (ApprovalsRead e sv) s =
     (if shows_login s then s else case app_call e CGetApprovals sv s of None \<Rightarrow> s | Some res \<Rightarrow> read_approvals res s)"
| "shell_step (Heard t) s = (if shows_login s then s else s\<lparr>sh_pending := badge t (sh_pending s)\<rparr>)"

definition shell_run :: "shell_input list \<Rightarrow> shell \<Rightarrow> shell" where
  "shell_run inputs s = foldl (\<lambda>s inp. shell_step inp s) s inputs"

text \<open>What the navigation bar shows: the badge when it is positive, a release link, the short commit.\<close>

definition nav_badge :: "shell \<Rightarrow> nat option" where
  "nav_badge s = (if 0 < sh_pending s then Some (sh_pending s) else None)"

definition nav_version :: "shell \<Rightarrow> (string \<times> string option) option" where
  "nav_version s =
     (case sh_version s of
        Some (JStr v) \<Rightarrow>
          if v = [] \<or> v = ''dev'' then None
          else Some (v, case sh_commit s of Some (JStr c) \<Rightarrow> if c = [] \<or> c = ''unknown'' then None else Some (take 7 c) | _ \<Rightarrow> None)
      | _ \<Rightarrow> None)"

section \<open>Theme\<close>

definition theme_cycle :: "string list" where
  "theme_cycle = [''light'', ''dark'', ''system'']"

record theme =
  th_theme :: string
  th_stored :: "string option"
  th_prefers_dark :: bool
  th_attribute :: string

definition apply_theme :: "bool \<Rightarrow> string \<Rightarrow> string" where
  "apply_theme dark t = (if t = ''system'' then (if dark then ''dark'' else ''light'') else t)"

definition stored_theme :: "string option \<Rightarrow> string" where
  "stored_theme st = (case st of None \<Rightarrow> ''light'' | Some t \<Rightarrow> if t = [] then ''light'' else t)"

definition theme_load :: "string option \<Rightarrow> bool \<Rightarrow> theme" where
  "theme_load st dark = \<lparr>th_theme = stored_theme st, th_stored = st, th_prefers_dark = dark,
     th_attribute = apply_theme dark (stored_theme st)\<rparr>"

text \<open>\<open>setTheme\<close> with the effect of the new state; \<open>indexOf\<close> of a theme that is not in the cycle is -1.\<close>

definition set_theme :: "string \<Rightarrow> theme \<Rightarrow> theme" where
  "set_theme t s = s\<lparr>th_theme := t, th_stored := Some t, th_attribute := apply_theme (th_prefers_dark s) t\<rparr>"

fun index_of :: "string \<Rightarrow> string list \<Rightarrow> int" where
  "index_of t [] = - 1"
| "index_of t (u # us) = (if t = u then 0 else let i = index_of t us in if i < 0 then - 1 else i + 1)"

definition cycle_theme :: "theme \<Rightarrow> theme" where
  "cycle_theme s = set_theme (theme_cycle ! nat ((index_of (th_theme s) theme_cycle + 1) mod int (length theme_cycle))) s"

text \<open>The media query changes; its listener is there in the mode \<open>system\<close> only.\<close>

definition preference_changed :: "bool \<Rightarrow> theme \<Rightarrow> theme" where
  "preference_changed dark s =
     (if th_theme s = ''system'' then s\<lparr>th_prefers_dark := dark, th_attribute := apply_theme dark ''system''\<rparr>
      else s\<lparr>th_prefers_dark := dark\<rparr>)"

inductive theme_reach :: "theme \<Rightarrow> bool" where
  load: "st \<noteq> Some [] \<Longrightarrow> theme_reach (theme_load st dark)"
| click: "theme_reach s \<Longrightarrow> theme_reach (cycle_theme s)"
| prefers: "theme_reach s \<Longrightarrow> theme_reach (preference_changed dark s)"

section \<open>Divider\<close>

text \<open>
  \<open>sp_seen\<close> is the width of the last rendering, which the listeners close over: a release of the button stores
  it. The storage holds what \<open>String(width)\<close> wrote; \<open>sp_stored\<close> is \<open>Number\<close> of it.
\<close>

record split_pane =
  sp_width :: rat
  sp_seen :: rat
  sp_dragging :: bool
  sp_stored :: "rat option"

definition clamp :: "rat \<Rightarrow> rat \<Rightarrow> rat \<Rightarrow> rat" where
  "clamp lo hi x = max lo (min hi x)"

definition pane_load :: "rat \<Rightarrow> rat \<Rightarrow> rat \<Rightarrow> rat option \<Rightarrow> split_pane" where
  "pane_load start lo hi stored =
     (let w = (case stored of None \<Rightarrow> start | Some x \<Rightarrow> clamp lo hi x)
      in \<lparr>sp_width = w, sp_seen = w, sp_dragging = False, sp_stored = stored\<rparr>)"

datatype pane_input = MouseDown | MouseMove rat rat | MouseUp | PaneRendered

fun pane_step :: "rat \<Rightarrow> rat \<Rightarrow> split_pane \<Rightarrow> pane_input \<Rightarrow> split_pane" where
  "pane_step lo hi s MouseDown = s\<lparr>sp_dragging := True\<rparr>"
| "pane_step lo hi s (MouseMove right x) = (if sp_dragging s then s\<lparr>sp_width := clamp lo hi (right - x)\<rparr> else s)"
| "pane_step lo hi s MouseUp = (if sp_dragging s then s\<lparr>sp_dragging := False, sp_stored := Some (sp_seen s)\<rparr> else s)"
| "pane_step lo hi s PaneRendered = s\<lparr>sp_seen := sp_width s\<rparr>"

section \<open>Lemmas\<close>

lemma base64_encode_Nil [simp]: "base64_encode bs = [] \<longleftrightarrow> bs = []"
  by (cases bs rule: base64_encode.cases) simp_all

lemma btoa_nonempty: "btoa (u @ x # p) = Some c \<Longrightarrow> c \<noteq> []"
  by (auto simp: btoa_def split: if_splits)

lemma probe_ok_auth:
  assumes "probe e sv h = Some r" "response_ok r"
  shows "basic_auth (sv_auth sv) (Some h)"
  using assms by (auto simp: probe_def handle_request_def response_ok_def unauthorized_def split: if_splits)

text \<open>The credentials some answered login of the run was let in with.\<close>

definition let_in :: "shell_input list \<Rightarrow> string \<Rightarrow> bool" where
  "let_in inputs c \<longleftrightarrow> (\<exists>e sv. Probed e sv \<in> set inputs \<and> basic_auth (sv_auth sv) (Some (''Basic '' @ c)))"

definition shell_ok :: "string option \<Rightarrow> shell_input list \<Rightarrow> shell \<Rightarrow> bool" where
  "shell_ok first inputs s \<longleftrightarrow>
     sh_session s = sh_credentials s \<and> (\<forall>c. sh_credentials s = Some c \<longrightarrow> Some c = first \<or> let_in inputs c)"

lemma let_in_mono: "let_in inputs c \<Longrightarrow> let_in (inputs @ rest) c"
  by (auto simp: let_in_def)

lemma read_keeps [simp]:
  "sh_session (read_status res s) = sh_session s" "sh_credentials (read_status res s) = sh_credentials s"
  "sh_session (read_approvals res s) = sh_session s" "sh_credentials (read_approvals res s) = sh_credentials s"
  by (simp_all add: read_status_def read_approvals_def Let_def split: client_result.splits json.splits)

lemma answered_ok:
  assumes "shell_ok first inputs s" "\<And>h r. answer h = Some r \<Longrightarrow> response_ok r \<Longrightarrow> \<exists>e sv. inp = Probed e sv \<and> basic_auth (sv_auth sv) (Some h)"
  shows "shell_ok first (inputs @ [inp]) (login_answered answer s)"
proof (cases "sh_request s")
  case None
  then show ?thesis using assms(1) by (auto simp: login_answered_def shell_ok_def dest: let_in_mono)
next
  case (Some c)
  show ?thesis
  proof (cases "case answer (''Basic '' @ c) of None \<Rightarrow> False | Some r \<Rightarrow> response_ok r")
    case True
    then obtain e sv where "inp = Probed e sv" "basic_auth (sv_auth sv) (Some (''Basic '' @ c))"
      using assms(2) by (metis option.case_eq_if option.collapse)
    then have "let_in (inputs @ [inp]) c" by (auto simp: let_in_def)
    then show ?thesis using Some True by (simp add: login_answered_def handle_login_def shell_ok_def)
  next
    case False
    then show ?thesis using Some assms(1) by (auto simp: login_answered_def shell_ok_def dest: let_in_mono)
  qed
qed

lemma shell_step_ok: "shell_ok first inputs s \<Longrightarrow> shell_ok first (inputs @ [inp]) (shell_step inp s)"
proof (cases inp)
  case (Probed e sv)
  assume s: "shell_ok first inputs s"
  have "\<exists>e' sv'. inp = Probed e' sv' \<and> basic_auth (sv_auth sv') (Some h)" if "probe e sv h = Some r" "response_ok r" for h r
    using Probed probe_ok_auth [OF that] by blast
  from answered_ok [OF s this] show ?thesis by (simp add: Probed)
next
  case Unreachable
  assume "shell_ok first inputs s"
  from answered_ok [OF this, of "\<lambda>_. None" inp] show ?thesis by (simp add: Unreachable)
qed (auto simp: shell_ok_def submit_login_def handle_logout_def shell_load_def Let_def dest: let_in_mono split: option.splits)

text \<open>
  C26: The session is sound: whatever is typed, answered, reloaded and logged out, the application works with the
  credentials of the session storage, and these were there when the tab was opened or a server that answered
  the login form had accepted them.
\<close>

theorem session_sound:
  "let s = shell_run inputs (shell_load first)
   in sh_session s = sh_credentials s
     \<and> (case sh_credentials s of
          None \<Rightarrow> True
        | Some c \<Rightarrow> first = Some c \<or> (\<exists>e sv. Probed e sv \<in> set inputs \<and> basic_auth (sv_auth sv) (Some (''Basic '' @ c))))"
proof -
  have "shell_ok first inputs (shell_run inputs (shell_load first))"
  proof (induction inputs rule: rev_induct)
    case Nil
    then show ?case by (simp add: shell_ok_def shell_run_def shell_load_def)
  next
    case (snoc inp inputs)
    from shell_step_ok [OF this] show ?case by (simp add: shell_run_def)
  qed
  then show ?thesis by (auto simp: shell_ok_def let_in_def split: option.split)
qed

text \<open>
  The form answers: when the characters fit into Latin 1 a submitted form ends with the answer, and is let in
  exactly when the login is right for that server.
\<close>

theorem login_form_answers:
  assumes "shows_login s" "\<not> sh_loading s" "sh_user s \<noteq> []" "sh_pass s \<noteq> []"
    "\<forall>c \<in> set (sh_user s) \<union> set (sh_pass s). c < 256"
  shows "let s' = shell_step (Probed e sv) (shell_step Submit s)
    in \<not> sh_loading s' \<and> (\<not> shows_login s' \<longleftrightarrow> login e sv (sh_user s) (sh_pass s))"
proof -
  obtain c where c: "btoa (sh_user s @ 58 # sh_pass s) = Some c" using assms(5) by (auto simp: btoa_def list_all_iff)
  note ne = btoa_nonempty [OF c]
  have "login e sv (sh_user s) (sh_pass s) \<longleftrightarrow> (case probe e sv (''Basic '' @ c) of None \<Rightarrow> False | Some r \<Rightarrow> response_ok r)"
    by (auto simp: login_def login_header_def c probe_def split: option.splits prod.splits)
  then show ?thesis using assms(1-4) ne
    by (auto simp: submit_login_def login_answered_def c handle_login_def shows_login_def)
qed

definition stuck :: "shell \<Rightarrow> bool" where
  "stuck s \<longleftrightarrow> sh_loading s \<and> sh_request s = None \<and> shows_login s"

interpretation stuck_form: machine "\<lambda>s inp. shell_step inp s" "\<lambda>inp. inp \<noteq> Reload" stuck
proof
  show "stuck (shell_step inp s)" if "stuck s" "inp \<noteq> Reload" for s inp
    using that by (cases inp) (auto simp: stuck_def submit_login_def login_answered_def shows_login_def)
qed

text \<open>
  The form dies: with one character above Latin 1 in the name or the password nothing is sent, and the button
  stays disabled, whatever else is typed or answered, until the page is reloaded.
\<close>

theorem login_form_dies:
  assumes "shows_login s" "\<not> sh_loading s" "sh_request s = None" "sh_user s \<noteq> []" "sh_pass s \<noteq> []"
    "\<not> list_all (\<lambda>c. c < 256) (sh_user s @ sh_pass s)" "Reload \<notin> set inputs"
  shows "let s' = shell_run inputs (shell_step Submit s) in sh_loading s' \<and> sh_request s' = None \<and> shows_login s'"
proof -
  have b: "btoa (sh_user s @ 58 # sh_pass s) = None" using assms(6) by (auto simp: btoa_def)
  have "stuck (shell_step Submit s)" using assms(1-5) b by (simp add: stuck_def submit_login_def shows_login_def)
  moreover have "list_all (\<lambda>inp. inp \<noteq> Reload) inputs" using assms(7) by (auto simp: list_all_iff)
  ultimately have "stuck (shell_run inputs (shell_step Submit s))" unfolding shell_run_def by (rule stuck_form.good_run)
  then show ?thesis by (simp add: stuck_def Let_def)
qed

text \<open>
  The status line shows the proxy: after the status of a server was read the dot is green exactly when the proxy
  is connected to its socket or its process runs, and after the approvals were read the badge is their number.
\<close>

lemma flags_of_status:
  assumes "get_status_route e sv = Inr r"
  shows "sh_proxy (read_status (client_answer r) s) \<longleftrightarrow> ipc_connected (sv_ipc sv) \<or> ps_running (get_status (e_now e) (sv_proxy sv))"
  using assms by (auto simp: get_status_route_def Let_def read_status_def member_def obj_get_def client_answer_def response_ok_def
      reply_def truthy_def split: sum.splits)

theorem status_line_true:
  assumes "server_ok sv" "\<not> shows_login s" "sh_credentials s = Some c" "basic_auth (sv_auth sv) (Some (''Basic '' @ c))"
  shows "let s' = shell_step (ApprovalsRead e sv) (shell_step (StatusRead e sv) s)
    in (sh_proxy s' \<longleftrightarrow> ipc_connected (sv_ipc sv) \<or> ps_running (get_status (e_now e) (sv_proxy sv)))
      \<and> sh_pending s' = length (list_pending (sv_db sv))"
proof -
  obtain r where r: "get_status_route e sv = Inr r" using rules_list_json_result [OF assms(1)]
    by (auto simp: get_status_route_def Let_def)
  have st: "app_call e CGetStatus sv s = Some (client_answer r)"
    by (simp add: app_call_def assms(3) api_def handle_request_def r)
  have ap: "app_call e CGetApprovals sv s' = Some (Value (JArr (map (\<lambda>(q, req). JObj (approval_entries q @
      [(''method'', opt_str (map_option fst req)), (''url'', opt_str (map_option snd req))])) (list_pending (sv_db sv)))))"
    if "sh_credentials s' = sh_credentials s" for s'
    using that assms(3,4) by (simp add: app_call_def api_def handle_request_def get_approvals_def client_answer_def response_ok_def reply_def)
  show ?thesis using assms(2)
    by (auto simp: st ap shows_login_def read_approvals_def flags_of_status [OF r])
qed

section \<open>Theme and divider\<close>

definition theme_ok :: "theme \<Rightarrow> bool" where
  "theme_ok s \<longleftrightarrow> th_attribute s = apply_theme (th_prefers_dark s) (th_theme s) \<and> th_theme s = stored_theme (th_stored s)"

lemma cycle_theme_cases:
  obtains "th_theme s = ''light''" "cycle_theme s = set_theme ''dark'' s"
    | "th_theme s = ''dark''" "cycle_theme s = set_theme ''system'' s"
    | "th_theme s \<noteq> ''light''" "th_theme s \<noteq> ''dark''" "cycle_theme s = set_theme ''light'' s"
proof -
  have ne: "''dark'' \<noteq> ''light''" "''system'' \<noteq> ''light''" "''system'' \<noteq> ''dark''" by simp_all
  have i: "index_of t theme_cycle = (if t = ''light'' then 0 else if t = ''dark'' then 1 else if t = ''system'' then 2 else - 1)" for t
    unfolding theme_cycle_def by simp
  have n: "theme_cycle ! 0 = ''light''" "theme_cycle ! 1 = ''dark''" "theme_cycle ! 2 = ''system''" "length theme_cycle = 3"
    by (simp_all add: theme_cycle_def)
  note c = cycle_theme_def [of s] i [of "th_theme s"] n
  consider "th_theme s = ''light''" | "th_theme s = ''dark''" | "th_theme s = ''system''"
    | "th_theme s \<noteq> ''light''" "th_theme s \<noteq> ''dark''" "th_theme s \<noteq> ''system''" by blast
  then show thesis
  proof cases
    case 1
    have "cycle_theme s = set_theme ''dark'' s" unfolding c(1) 1 i n(4) by (simp add: n(2) [simplified])
    show thesis by (rule that(1) [OF 1 \<open>cycle_theme s = set_theme ''dark'' s\<close>])
  next
    case 2
    have "cycle_theme s = set_theme ''system'' s" unfolding c(1) 2 i n(4) using ne by (simp add: n(3))
    show thesis by (rule that(2) [OF 2 \<open>cycle_theme s = set_theme ''system'' s\<close>])
  next
    case 3
    then have "cycle_theme s = set_theme ''light'' s" unfolding c(1,2) n(4) using ne by (simp add: n(1))
    with 3 ne that(3) show thesis by simp
  next
    case 4
    then have "cycle_theme s = set_theme ''light'' s" unfolding c(1,2) n(4) by (simp add: n(1))
    with 4 that(3) show thesis by blast
  qed
qed

lemma th_theme_set [simp]: "th_theme (set_theme t s) = t"
  by (simp add: set_theme_def)

lemma next_theme:
  "th_theme (cycle_theme s)
    = (if th_theme s = ''light'' then ''dark'' else if th_theme s = ''dark'' then ''system'' else ''light'')"
  by (cases rule: cycle_theme_cases [of s]) simp_all

lemma three_clicks:
  assumes "th_theme s \<in> set theme_cycle"
  shows "th_theme (cycle_theme (cycle_theme (cycle_theme s))) = th_theme s"
proof -
  have "th_theme s = ''light'' \<or> th_theme s = ''dark'' \<or> th_theme s = ''system''" using assms by (simp add: theme_cycle_def)
  then show ?thesis by (elim disjE) (simp_all add: next_theme)
qed

lemma set_theme_ok: "t \<noteq> [] \<Longrightarrow> theme_ok (set_theme t s)"
  by (simp add: theme_ok_def set_theme_def stored_theme_def)

text \<open>
  The attribute of the page always is what the chosen theme and the preference of the system say, and a page
  that is loaded again shows the same theme; three clicks come back to it.
\<close>

theorem theme_shown:
  assumes "theme_reach s"
  shows "th_attribute s = apply_theme (th_prefers_dark s) (th_theme s)
    \<and> theme_load (th_stored s) (th_prefers_dark s) = s
    \<and> (th_theme s \<in> set theme_cycle \<longrightarrow> th_theme (cycle_theme (cycle_theme (cycle_theme s))) = th_theme s)"
proof -
  have "theme_ok s" using assms
  proof (induction rule: theme_reach.induct)
    case (load st dark)
    then show ?case by (simp add: theme_ok_def theme_load_def)
  next
    case (click s)
    show ?case by (cases rule: cycle_theme_cases [of s]) (simp_all only: set_theme_ok list.distinct not_False_eq_True)
  next
    case (prefers s dark)
    then show ?case by (auto simp: theme_ok_def preference_changed_def apply_theme_def)
  qed
  moreover have "th_theme (cycle_theme (cycle_theme (cycle_theme s))) = th_theme s" if "th_theme s \<in> set theme_cycle"
    using that three_clicks by blast
  ultimately show ?thesis by (simp add: theme_ok_def theme_load_def)
qed

definition pane_ok :: "rat \<Rightarrow> rat \<Rightarrow> split_pane \<Rightarrow> bool" where
  "pane_ok lo hi s \<longleftrightarrow> lo \<le> hi \<and> sp_width s \<in> {lo..hi} \<and> sp_seen s \<in> {lo..hi} \<and> (\<forall>x. sp_stored s = Some x \<longrightarrow> x \<in> {lo..hi})"

lemma clamp_in: "lo \<le> hi \<Longrightarrow> clamp lo hi x \<in> {lo..hi}"
  by (auto simp: clamp_def)

lemma clamp_id: "x \<in> {lo..hi} \<Longrightarrow> clamp lo hi x = x"
  by (auto simp: clamp_def)

interpretation pane_machine: free_machine "pane_step lo hi" "pane_ok lo hi"
proof
  show "pane_ok lo hi (pane_step lo hi s inp)" if "pane_ok lo hi s" for s inp
    using that by (cases inp) (use clamp_in in \<open>auto simp: pane_ok_def\<close>)
qed

text \<open>
  The divider stays between its bounds however it is dragged, and once the last move is rendered and the button
  released a page that is loaded again has the same width.
\<close>

theorem divider_bounded:
  assumes "lo \<le> hi" "start \<in> {lo..hi}" "\<forall>x. stored = Some x \<longrightarrow> x \<in> {lo..hi}"
  shows "let s = foldl (pane_step lo hi) (pane_load start lo hi stored) inputs;
      s' = pane_step lo hi (pane_step lo hi s PaneRendered) MouseUp
    in sp_width s \<in> {lo..hi} \<and> (sp_dragging s \<longrightarrow> sp_width (pane_load start lo hi (sp_stored s')) = sp_width s)"
proof -
  have "pane_ok lo hi (pane_load start lo hi stored)"
    using assms by (auto simp: pane_ok_def pane_load_def clamp_id Let_def split: option.split)
  then have "pane_ok lo hi (foldl (pane_step lo hi) (pane_load start lo hi stored) inputs)"
    by (rule pane_machine.good_always)
  then show ?thesis by (simp add: pane_ok_def pane_load_def Let_def clamp_id)
qed

section \<open>The properties at concrete inputs\<close>

definition typed :: "nat list \<Rightarrow> shell" where
  "typed p = shell_step (TypePass p) (shell_step (TypeUser [117]) (shell_load None))"

lemma typed_shell: "shows_login (typed p)" "\<not> sh_loading (typed p)" "sh_request (typed p) = None" "sh_user (typed p) = [117]" "sh_pass (typed p) = p"
  by (simp_all add: typed_def shell_load_def shows_login_def)

theorem login_form_answers_witness:
  "\<not> sh_loading (shell_step (Probed sample_env (sample_server tree_db)) (shell_step Submit (typed [233])))"
  using login_form_answers [OF typed_shell(1,2), of "[233]" sample_env "sample_server tree_db"] by (simp add: typed_shell Let_def)

theorem login_form_dies_witness: "sh_loading (shell_run [TypePass [112], Submit] (shell_step Submit (typed [8364])))"
  using login_form_dies [OF typed_shell(1-3), of "[8364]" "[TypePass [112], Submit]"] by (simp add: typed_shell Let_def)

theorem status_line_true_witness:
  "sh_pending (shell_step (ApprovalsRead sample_env (sample_server tree_db))
      (shell_step (StatusRead sample_env (sample_server tree_db)) (shell_load (Some ''dTpw'')))) = length (list_pending tree_db)"
proof -
  have c: "sh_credentials (shell_load (Some ''dTpw'')) = Some ''dTpw''" "\<not> shows_login (shell_load (Some ''dTpw''))"
    by (simp_all add: shell_load_def shows_login_def)
  have a: "basic_auth (sv_auth (sample_server tree_db)) (Some (''Basic '' @ ''dTpw''))" using sample_auth by simp
  have d: "sv_db (sample_server tree_db) = tree_db" by (simp add: sample_server_def)
  from status_line_true [OF sample_server_ok [OF tree_db_ok] c(2,1) a, of sample_env] show ?thesis by (simp add: Let_def d)
qed

theorem theme_shown_witness: "theme_load (Some ''dark'') True = \<lparr>th_theme = ''dark'', th_stored = Some ''dark'', th_prefers_dark = True, th_attribute = ''dark''\<rparr>"
  using theme_shown [OF theme_reach.load [of "Some ''dark''" True]] by (simp add: theme_load_def stored_theme_def apply_theme_def)

theorem divider_bounded_witness:
  "sp_width (foldl (pane_step 250 700) (pane_load 380 250 700 None) [MouseDown, MouseMove 1200 100]) \<in> {250..700}"
  using divider_bounded [of 250 700 380 None "[MouseDown, MouseMove 1200 100]"] by (simp only: Let_def) simp

end
